(* ===== verification/Prelude.thy ===== *)
theory Prelude
  imports Main "HOL-Library.Word"
begin

text \<open>
  Shared vocabulary of the development: byte and word types, the exceptions of the C++ code as
  values of a sum type, the sequencing combinator of fallible code, and the generic lemmas on
  lists and words that the component theories rely on.  Fact collections:
  \<^item> \<open>reader_simps\<close>: how the operations of a \<open>BufferReader\<close> act on a cursor in front of known
    bytes (filled in \<open>Buffer\<close>);
  \<^item> \<open>writer_simps\<close>: what each operation of a \<open>BufferWriter\<close> appends;
  \<^item> \<open>wire_consts\<close>: the numeric values of the protocol constants.
\<close>

unbundle bit_operations_syntax

named_theorems reader_simps "reads from a cursor in front of known bytes"
named_theorems writer_simps "bytes appended by the writer operations"
named_theorems wire_consts "values of the protocol constants"

section \<open>Types\<close>

type_synonym byte = "8 word"
type_synonym bytes = "8 word list"
type_synonym u16 = "16 word"
type_synonym u32 = "32 word"
type_synonym u64 = "64 word"

text \<open>
  The exceptions the code throws, by class and message.  \<open>undefined_behaviour\<close> is no exception of
  the code: it marks an operation the C++ standard leaves undefined, so that the model never gives
  such an execution a defined result.
\<close>

datatype exc =
    out_of_range string
  | invalid_argument string
  | runtime_error string
  | ConversionError string
  | system_error string
  | undefined_behaviour string

type_synonym 'a result = "exc + 'a"

section \<open>Sequencing of fallible code\<close>

text \<open>An exception ends the computation, a value is passed on.\<close>

definition rbind :: "'a result \<Rightarrow> ('a \<Rightarrow> 'b result) \<Rightarrow> 'b result" where
  "rbind m f = (case m of Inl e \<Rightarrow> Inl e | Inr x \<Rightarrow> f x)"

lemma rbind_simps [simp]:
  "rbind (Inl e) f = Inl e"
  "rbind (Inr x) f = f x"
  by (simp_all add: rbind_def)

lemma rbind_cong [fundef_cong]:
  assumes "m = m'" and "\<And>x. m' = Inr x \<Longrightarrow> f x = f' x"
  shows "rbind m f = rbind m' f'"
  using assms by (cases m') simp_all

lemma rbind_Inl_iff: "rbind m f = Inl e \<longleftrightarrow> m = Inl e \<or> (\<exists>x. m = Inr x \<and> f x = Inl e)"
  by (cases m) simp_all

lemma rbind_Inr_iff: "rbind m f = Inr y \<longleftrightarrow> (\<exists>x. m = Inr x \<and> f x = Inr y)"
  by (cases m) auto

lemma rbind_InrE:
  assumes "rbind m f = Inr y"
  obtains x where "m = Inr x" and "f x = Inr y"
  using assms by (cases m) auto

lemma rbind_assoc: "rbind (rbind m f) g = rbind m (\<lambda>x. rbind (f x) g)"
  by (cases m) simp_all

lemma rbind_return [simp]: "rbind m Inr = m"
  by (cases m) simp_all

lemma rbind_if: "rbind (if b then x else y) f = (if b then rbind x f else rbind y f)"
  by simp

text \<open>A \<open>for\<close> loop over a container whose body may throw.\<close>

fun foldM :: "('a \<Rightarrow> 's \<Rightarrow> 's result) \<Rightarrow> 'a list \<Rightarrow> 's \<Rightarrow> 's result" where
  "foldM f [] s = Inr s"
| "foldM f (x # xs) s = rbind (f x s) (foldM f xs)"

lemma foldM_append: "foldM f (xs @ ys) s = rbind (foldM f xs s) (foldM f ys)"
  by (induction xs arbitrary: s) (simp_all add: rbind_assoc cong: rbind_cong)

text \<open>A body that never throws makes the loop a plain fold.\<close>

lemma foldM_total: "(\<And>x s. x \<in> set xs \<Longrightarrow> f x s = Inr (g x s)) \<Longrightarrow> foldM f xs s = Inr (fold g xs s)"
  by (induction xs arbitrary: s) simp_all

text \<open>
  Sequencing of handlers that also do something to the outside, such as starting an operation or
  invoking a callback: the effects are collected in the order in which they happen.
\<close>

definition and_then :: "('a list \<times> 's) result \<Rightarrow> ('s \<Rightarrow> ('a list \<times> 's) result) \<Rightarrow> ('a list \<times> 's) result" where
  "and_then m f = rbind m (\<lambda>(acts, s). rbind (f s) (\<lambda>(acts', s'). Inr (acts @ acts', s')))"

lemma and_then_simps [simp]:
  "and_then (Inl e) f = Inl e"
  "and_then (Inr (acts, s)) f = rbind (f s) (\<lambda>(acts', s'). Inr (acts @ acts', s'))"
  by (simp_all add: and_then_def)

lemma and_then_Inl_iff: "and_then r f = Inl e \<longleftrightarrow> r = Inl e \<or> (\<exists>acts s. r = Inr (acts, s) \<and> f s = Inl e)"
  by (auto simp: and_then_def rbind_Inl_iff)

lemma and_then_Inr_iff:
  "and_then m f = Inr (acts, s) \<longleftrightarrow>
     (\<exists>acts1 s1 acts2. m = Inr (acts1, s1) \<and> f s1 = Inr (acts2, s) \<and> acts = acts1 @ acts2)"
  by (cases m) (auto simp: rbind_Inr_iff split: prod.splits)

lemma and_then_cong [fundef_cong]:
  assumes "m = m'" and "\<And>acts s. m' = Inr (acts, s) \<Longrightarrow> f s = f' s"
  shows "and_then m f = and_then m' f'"
  using assms by (cases m') auto

lemma and_then_assoc: "and_then (and_then m f) g = and_then m (\<lambda>s. and_then (f s) g)"
  by (cases m) (auto simp: and_then_def rbind_assoc case_prod_beta split: prod.split intro!: rbind_cong)

lemma and_then_silent: "and_then (Inr ([], s)) f = f s"
  by (cases "f s") auto

lemma and_then_return [simp]: "and_then m (\<lambda>s. Inr ([], s)) = m"
  by (cases m) auto

section \<open>Catching exceptions\<close>

text \<open>
  \<open>try { x = r; } catch (const E&) { h }\<close> followed by \<open>k x\<close>: the exceptions of class \<open>E\<close>, given by a
  predicate, are handled, others escape.
\<close>

definition try_catch :: "(exc \<Rightarrow> bool) \<Rightarrow> 'a result \<Rightarrow> ('a \<Rightarrow> 'b result) \<Rightarrow> 'b result \<Rightarrow> 'b result" where
  "try_catch caught r k h =
     (case r of Inr x \<Rightarrow> k x | Inl e \<Rightarrow> if caught e then h else Inl e)"

fun is_std_exception :: "exc \<Rightarrow> bool" where
  "is_std_exception (undefined_behaviour s) = False"
| "is_std_exception e = True"

fun is_ConversionError :: "exc \<Rightarrow> bool" where
  "is_ConversionError (ConversionError s) = True"
| "is_ConversionError e = False"

text \<open>\<open>*v\<close> or \<open>v->\<close> on an optional: undefined when it is empty.\<close>

definition deref :: "'a option \<Rightarrow> 'a result" where
  "deref v = (case v of None \<Rightarrow> Inl (undefined_behaviour ''empty optional'') | Some x \<Rightarrow> Inr x)"

text \<open>
  \<open>v[i]\<close> on a vector, and a copy of the range from \<open>begin() + from\<close> to \<open>begin() + to\<close> of it: no check is
  made, and outside of the vector the behaviour is undefined.
\<close>

definition vec_at :: "'a list \<Rightarrow> nat \<Rightarrow> 'a result" where
  "vec_at v i = (if i < length v then Inr (v ! i) else Inl (undefined_behaviour ''vector index''))"

definition vec_range :: "'a list \<Rightarrow> nat \<Rightarrow> nat \<Rightarrow> 'a list result" where
  "vec_range v from to =
     (if from \<le> to \<and> to \<le> length v then Inr (drop from (take to v))
      else Inl (undefined_behaviour ''iterator range past the end''))"

lemma vec_at_ok [simp]: "i < length v \<Longrightarrow> vec_at v i = Inr (v ! i)"
  by (simp add: vec_at_def)

lemma vec_range_ok [simp]: "from \<le> to \<Longrightarrow> to \<le> length v \<Longrightarrow> vec_range v from to = Inr (drop from (take to v))"
  by (simp add: vec_range_def)

text \<open>A computation that does not run into undefined behaviour: whatever it throws can be caught.\<close>

definition no_ub :: "'a result \<Rightarrow> bool" where
  "no_ub r \<longleftrightarrow> (case r of Inl e \<Rightarrow> is_std_exception e | Inr _ \<Rightarrow> True)"

lemma no_ub_simps [simp]: "no_ub (Inr x)" "no_ub (Inl e) = is_std_exception e"
  by (simp_all add: no_ub_def)

lemma no_ub_vec_at: "no_ub (vec_at v i) \<longleftrightarrow> i < length v"
  by (simp add: vec_at_def)

lemma no_ub_rbind: "no_ub m \<Longrightarrow> (\<And>x. m = Inr x \<Longrightarrow> no_ub (f x)) \<Longrightarrow> no_ub (rbind m f)"
  by (cases m) simp_all

lemma no_ub_if: "no_ub x \<Longrightarrow> no_ub y \<Longrightarrow> no_ub (if b then x else y)"
  by simp

lemma no_ub_case_prod: "(\<And>a b. no_ub (f a b)) \<Longrightarrow> no_ub (case x of (a, b) \<Rightarrow> f a b)"
  by (cases x) simp

lemma no_ub_case_option: "no_ub d \<Longrightarrow> (\<And>a. no_ub (f a)) \<Longrightarrow> no_ub (case x of None \<Rightarrow> d | Some a \<Rightarrow> f a)"
  by (cases x) simp_all

lemmas no_ub_intros = no_ub_rbind no_ub_if no_ub_case_prod no_ub_case_option

lemma no_ub_foldM: "(\<And>x s. no_ub (f x s)) \<Longrightarrow> no_ub (foldM f xs s)"
  by (induction xs arbitrary: s) (simp_all add: no_ub_rbind)

lemma try_catch_simps [simp]:
  "try_catch c (Inr x) k h = k x"
  "try_catch c (Inl e) k h = (if c e then h else Inl e)"
  by (simp_all add: try_catch_def)

lemma try_catch_std:
  "no_ub r \<Longrightarrow> try_catch is_std_exception r k h = (case r of Inr x \<Rightarrow> k x | Inl _ \<Rightarrow> h)"
  by (cases r) simp_all

section \<open>Bytes and words\<close>

lemma unat_byte_less [simp]: "unat (b :: byte) < 256"
  using unsigned_less [of b] by simp

lemma unat_byte_of_nat [simp]: "n < 256 \<Longrightarrow> unat (of_nat n :: byte) = n"
  by (simp add: unat_of_nat)

lemma unat_byte_of_nat_le [simp]: "n \<le> 255 \<Longrightarrow> unat (of_nat n :: byte) = n"
  by (simp add: unat_of_nat)

lemma mask_numerals:
  "(15 :: 'a::len word) = mask 4" "(127 :: 'a::len word) = mask 7" "(255 :: 'a::len word) = mask 8"
  by (simp_all add: mask_eq_exp_minus_1)

text \<open>Splitting a word into big-endian bytes and putting it together again.\<close>

lemma be16_join:
  "push_bit 8 (ucast (ucast (drop_bit 8 (v :: u16) AND 255) :: byte)) OR ucast (ucast (v AND 255) :: byte) = v"
  unfolding mask_numerals by (rule bit_word_eqI) (auto simp: bit_simps)

lemma be16_split:
  "ucast (drop_bit 8 (push_bit 8 (ucast (a :: byte)) OR ucast (b :: byte) :: u16) AND 255) = a"
  "ucast ((push_bit 8 (ucast (a :: byte)) OR ucast (b :: byte) :: u16) AND 255) = b"
  unfolding mask_numerals by (rule bit_word_eqI; auto simp: bit_simps dest: bit_imp_le_length)+

lemma be32_join:
  "push_bit 24 (ucast (ucast (drop_bit 24 (v :: u32) AND 255) :: byte)) OR
   push_bit 16 (ucast (ucast (drop_bit 16 v AND 255) :: byte)) OR
   push_bit 8 (ucast (ucast (drop_bit 8 v AND 255) :: byte)) OR
   ucast (ucast (v AND 255) :: byte) = v" (is "?w = v")
proof (rule bit_word_eqI)
  fix n :: nat
  assume "n < LENGTH(32)"
  then consider "n < 8" | "8 \<le> n" "n < 16" | "16 \<le> n" "n < 24" | "24 \<le> n" "n < 32"
    by force
  then show "bit ?w n = bit v n"
    unfolding mask_numerals by cases (auto simp: bit_simps)
qed

end
