(* ===== verification/Buffer.thy ===== *)
theory Buffer
  imports Prelude
begin

text \<open>
  \<open>src/common/Buffer.hpp\<close>: the read cursor and the write buffer every codec is built on.

  A \<open>BufferReader\<close> is the span it reads (\<open>data_\<close>, whose length is \<open>len_\<close>) and the position
  \<open>pos_\<close>.  Every read is preceded by \<open>check\<close>, which throws \<open>std::out_of_range\<close>; the model returns
  the value and the advanced cursor, or the exception.  The accesses behind \<open>check\<close> are unchecked in the
  code and undefined out of range in the model; each definition is followed by the equation that holds
  because \<open>check\<close> came first.  Sizes and positions (\<open>size_t\<close>) are natural
  numbers: the code adds to a position only lengths read from at most four octets, so that no sum
  reaches \<open>2^64\<close> (\<open>BerCodec.readLength_bound\<close>).

  A \<open>BufferWriter\<close> is the vector it fills.
\<close>

section \<open>BufferReader\<close>

record BufferReader =
  rd_data :: bytes
  rd_pos :: nat

definition rd_new :: "bytes \<Rightarrow> BufferReader" where
  "rd_new bs = \<lparr>rd_data = bs, rd_pos = 0\<rparr>"

definition rd_empty :: "BufferReader \<Rightarrow> bool" where
  "rd_empty r \<longleftrightarrow> rd_pos r \<ge> length (rd_data r)"

definition rd_remaining :: "BufferReader \<Rightarrow> nat" where
  "rd_remaining r =
     (if length (rd_data r) > rd_pos r then length (rd_data r) - rd_pos r else 0)"

definition rd_check :: "BufferReader \<Rightarrow> nat \<Rightarrow> unit result" where
  "rd_check r n =
     (if rd_pos r + n > length (rd_data r)
      then Inl (out_of_range ''BufferReader: read past end'') else Inr ())"

definition rd_peek :: "BufferReader \<Rightarrow> byte result" where
  "rd_peek r = rbind (rd_check r 1) (\<lambda>_. vec_at (rd_data r) (rd_pos r))"

definition rd_read8 :: "BufferReader \<Rightarrow> (byte \<times> BufferReader) result" where
  "rd_read8 r = rbind (rd_check r 1) (\<lambda>_.
     rbind (vec_at (rd_data r) (rd_pos r)) (\<lambda>b. Inr (b, r\<lparr>rd_pos := rd_pos r + 1\<rparr>)))"

definition rd_readBE16 :: "BufferReader \<Rightarrow> (u16 \<times> BufferReader) result" where
  "rd_readBE16 r = rbind (rd_check r 2) (\<lambda>_.
     let p = rd_pos r in
     rbind (vec_at (rd_data r) p) (\<lambda>b0.
     rbind (vec_at (rd_data r) (p + 1)) (\<lambda>b1.
     Inr (push_bit 8 (ucast b0) OR ucast b1, r\<lparr>rd_pos := p + 2\<rparr>))))"

definition rd_readBE32 :: "BufferReader \<Rightarrow> (u32 \<times> BufferReader) result" where
  "rd_readBE32 r = rbind (rd_check r 4) (\<lambda>_.
     let p = rd_pos r in
     rbind (vec_at (rd_data r) p) (\<lambda>b0.
     rbind (vec_at (rd_data r) (p + 1)) (\<lambda>b1.
     rbind (vec_at (rd_data r) (p + 2)) (\<lambda>b2.
     rbind (vec_at (rd_data r) (p + 3)) (\<lambda>b3.
     Inr (push_bit 24 (ucast b0) OR push_bit 16 (ucast b1) OR push_bit 8 (ucast b2) OR ucast b3,
          r\<lparr>rd_pos := p + 4\<rparr>))))))"

definition rd_readBytes :: "BufferReader \<Rightarrow> nat \<Rightarrow> (bytes \<times> BufferReader) result" where
  "rd_readBytes r n = rbind (rd_check r n) (\<lambda>_.
     rbind (vec_range (rd_data r) (rd_pos r) (rd_pos r + n)) (\<lambda>out. Inr (out, r\<lparr>rd_pos := rd_pos r + n\<rparr>)))"

definition rd_slice :: "BufferReader \<Rightarrow> nat \<Rightarrow> (BufferReader \<times> BufferReader) result" where
  "rd_slice r n = rbind (rd_check r n) (\<lambda>_.
     rbind (vec_range (rd_data r) (rd_pos r) (rd_pos r + n)) (\<lambda>sub. Inr (rd_new sub, r\<lparr>rd_pos := rd_pos r + n\<rparr>)))"

lemma rd_checked:
  "rd_peek r = rbind (rd_check r 1) (\<lambda>_. Inr (rd_data r ! rd_pos r))"
  "rd_read8 r = rbind (rd_check r 1) (\<lambda>_. Inr (rd_data r ! rd_pos r, r\<lparr>rd_pos := rd_pos r + 1\<rparr>))"
  "rd_readBE16 r = rbind (rd_check r 2) (\<lambda>_.
     Inr (push_bit 8 (ucast (rd_data r ! rd_pos r)) OR ucast (rd_data r ! (rd_pos r + 1)), r\<lparr>rd_pos := rd_pos r + 2\<rparr>))"
  "rd_readBE32 r = rbind (rd_check r 4) (\<lambda>_.
     Inr (push_bit 24 (ucast (rd_data r ! rd_pos r)) OR push_bit 16 (ucast (rd_data r ! (rd_pos r + 1))) OR
          push_bit 8 (ucast (rd_data r ! (rd_pos r + 2))) OR ucast (rd_data r ! (rd_pos r + 3)), r\<lparr>rd_pos := rd_pos r + 4\<rparr>))"
  "rd_readBytes r n = rbind (rd_check r n) (\<lambda>_. Inr (take n (drop (rd_pos r) (rd_data r)), r\<lparr>rd_pos := rd_pos r + n\<rparr>))"
  "rd_slice r n = rbind (rd_check r n) (\<lambda>_. Inr (rd_new (take n (drop (rd_pos r) (rd_data r))), r\<lparr>rd_pos := rd_pos r + n\<rparr>))"
  by (simp_all add: rd_peek_def rd_read8_def rd_readBE16_def rd_readBE32_def rd_readBytes_def rd_slice_def rd_check_def take_drop
      add.commute Let_def)

section \<open>BufferWriter\<close>

record BufferWriter =
  wr_buf :: bytes

definition wr_new :: BufferWriter where
  "wr_new = \<lparr>wr_buf = []\<rparr>"

definition wr_write8 :: "BufferWriter \<Rightarrow> byte \<Rightarrow> BufferWriter" where
  "wr_write8 w v = w\<lparr>wr_buf := wr_buf w @ [v]\<rparr>"

definition wr_writeBE16 :: "BufferWriter \<Rightarrow> u16 \<Rightarrow> BufferWriter" where
  "wr_writeBE16 w v = w\<lparr>wr_buf := wr_buf w @ [ucast (drop_bit 8 v AND 0xFF), ucast (v AND 0xFF)]\<rparr>"

definition wr_writeBE32 :: "BufferWriter \<Rightarrow> u32 \<Rightarrow> BufferWriter" where
  "wr_writeBE32 w v = w\<lparr>wr_buf := wr_buf w @
     [ucast (drop_bit 24 v AND 0xFF), ucast (drop_bit 16 v AND 0xFF),
      ucast (drop_bit 8 v AND 0xFF), ucast (v AND 0xFF)]\<rparr>"

definition wr_writeBytes :: "BufferWriter \<Rightarrow> bytes \<Rightarrow> BufferWriter" where
  "wr_writeBytes w b = w\<lparr>wr_buf := wr_buf w @ b\<rparr>"

definition wr_reserveLen8 :: "BufferWriter \<Rightarrow> nat \<times> BufferWriter" where
  "wr_reserveLen8 w = (length (wr_buf w), w\<lparr>wr_buf := wr_buf w @ [0]\<rparr>)"

text \<open>\<open>buf_[offset] = v\<close> is undefined outside the vector; \<open>patch8\<close> has no check of its own.\<close>

definition wr_patch8 :: "BufferWriter \<Rightarrow> nat \<Rightarrow> byte \<Rightarrow> BufferWriter result" where
  "wr_patch8 w off v =
     (if off < length (wr_buf w) then Inr (w\<lparr>wr_buf := (wr_buf w)[off := v]\<rparr>)
      else Inl (undefined_behaviour ''vector index''))"

definition wr_size :: "BufferWriter \<Rightarrow> nat" where
  "wr_size w = length (wr_buf w)"

section \<open>Cursors in front of known bytes\<close>

text \<open>
  \<open>rd_at pre xs\<close> is the cursor that has passed \<open>pre\<close> and has \<open>xs\<close> in front of it.  Every cursor
  that has not run past its span is of this form, and on this form each read is one equation.
\<close>

definition rd_at :: "bytes \<Rightarrow> bytes \<Rightarrow> BufferReader" where
  "rd_at pre xs = \<lparr>rd_data = pre @ xs, rd_pos = length pre\<rparr>"

lemma rd_new_at: "rd_new bs = rd_at [] bs"
  by (simp add: rd_new_def rd_at_def)

lemma rd_at_fields [simp]:
  "rd_data (rd_at pre xs) = pre @ xs" "rd_pos (rd_at pre xs) = length pre"
  by (simp_all add: rd_at_def)

lemma rd_at_exists: "rd_pos r \<le> length (rd_data r) \<Longrightarrow>
    r = rd_at (take (rd_pos r) (rd_data r)) (drop (rd_pos r) (rd_data r))"
  by (cases r) (simp add: rd_at_def)

lemma rd_at_advance: "(rd_at pre (ys @ xs))\<lparr>rd_pos := length pre + length ys\<rparr> = rd_at (pre @ ys) xs"
  by (simp add: rd_at_def)

lemma rd_empty_at [reader_simps]: "rd_empty (rd_at pre xs) \<longleftrightarrow> xs = []"
  by (auto simp: rd_empty_def)

lemma rd_remaining_at [reader_simps]: "rd_remaining (rd_at pre xs) = length xs"
  by (simp add: rd_remaining_def)

lemma rd_check_at [reader_simps]:
  "rd_check (rd_at pre xs) n =
     (if n > length xs then Inl (out_of_range ''BufferReader: read past end'') else Inr ())"
  by (simp add: rd_check_def)

lemma rd_read8_at [reader_simps]: "rd_read8 (rd_at pre (b # xs)) = Inr (b, rd_at (pre @ [b]) xs)"
  using rd_at_advance [of pre "[b]" xs] by (simp add: rd_checked rd_check_at nth_append)

lemma rd_read8_at_end [reader_simps]:
  "rd_read8 (rd_at pre []) = Inl (out_of_range ''BufferReader: read past end'')"
  by (simp add: rd_checked rd_check_at)

lemma rd_readBytes_at:
  "length v = n \<Longrightarrow> rd_readBytes (rd_at pre (v @ xs)) n = Inr (v, rd_at (pre @ v) xs)"
  using rd_at_advance [of pre v xs] by (simp add: rd_checked rd_check_at)

lemma rd_readBytes_at_all [reader_simps]:
  "rd_readBytes (rd_at pre xs) (length xs) = Inr (xs, rd_at (pre @ xs) [])"
  using rd_readBytes_at [of xs "length xs" pre "[]"] by simp

lemma rd_slice_at:
  "length v = n \<Longrightarrow> rd_slice (rd_at pre (v @ xs)) n = Inr (rd_new v, rd_at (pre @ v) xs)"
  using rd_at_advance [of pre v xs] by (simp add: rd_checked rd_check_at)

lemma rd_readBE16_at [reader_simps]:
  "rd_readBE16 (rd_at pre (a # b # xs)) =
     Inr (push_bit 8 (ucast a) OR ucast b, rd_at (pre @ [a, b]) xs)"
  using rd_at_advance [of pre "[a, b]" xs]
  by (simp add: rd_checked rd_check_at nth_append Let_def)

lemma rd_readBE32_at [reader_simps]:
  "rd_readBE32 (rd_at pre (a # b # c # d # xs)) =
     Inr (push_bit 24 (ucast a) OR push_bit 16 (ucast b) OR push_bit 8 (ucast c) OR ucast d,
          rd_at (pre @ [a, b, c, d]) xs)"
  using rd_at_advance [of pre "[a, b, c, d]" xs]
  by (simp add: rd_checked rd_check_at nth_append Let_def)

section \<open>Progress of a cursor\<close>

text \<open>
  No read moves a cursor backwards, changes its span, or leaves it behind the end of the span;
  the loops of the decoders terminate because every round reads at least one byte.
\<close>

definition rd_advances :: "BufferReader \<Rightarrow> BufferReader \<Rightarrow> bool" where
  "rd_advances r r' \<longleftrightarrow> rd_data r' = rd_data r \<and> rd_pos r \<le> rd_pos r' \<and>
     (rd_pos r \<le> length (rd_data r) \<longrightarrow> rd_pos r' \<le> length (rd_data r))"

lemma rd_advances_refl [simp]: "rd_advances r r"
  by (simp add: rd_advances_def)

lemma rd_advances_trans: "rd_advances r s \<Longrightarrow> rd_advances s t \<Longrightarrow> rd_advances r t"
  by (auto simp: rd_advances_def)

lemma rd_check_ok: "rd_check r n = Inr u \<longleftrightarrow> rd_pos r + n \<le> length (rd_data r)"
  by (simp add: rd_check_def)

lemma rd_read8_ok:
  "rd_read8 r = Inr (b, r') \<longleftrightarrow>
     rd_pos r < length (rd_data r) \<and> b = rd_data r ! rd_pos r \<and> r' = r\<lparr>rd_pos := rd_pos r + 1\<rparr>"
  by (auto simp: rd_checked rd_check_def)

lemma rd_readBytes_ok:
  "rd_readBytes r n = Inr (v, r') \<longleftrightarrow>
     rd_pos r + n \<le> length (rd_data r) \<and> v = take n (drop (rd_pos r) (rd_data r)) \<and>
     r' = r\<lparr>rd_pos := rd_pos r + n\<rparr>"
  by (auto simp: rd_checked rd_check_def)

lemma rd_slice_ok:
  "rd_slice r n = Inr (s, r') \<longleftrightarrow>
     rd_pos r + n \<le> length (rd_data r) \<and> s = rd_new (take n (drop (rd_pos r) (rd_data r))) \<and>
     r' = r\<lparr>rd_pos := rd_pos r + n\<rparr>"
  by (auto simp: rd_checked rd_check_def)

lemma rd_readBE16_pos: "rd_readBE16 r = Inr (v, r') \<Longrightarrow> rd_pos r' = rd_pos r + 2"
  by (auto simp: rd_checked rd_check_def Let_def split: if_splits)

lemma rd_read8_advances: "rd_read8 r = Inr (b, r') \<Longrightarrow> rd_advances r r' \<and> rd_pos r < rd_pos r'"
  by (auto simp: rd_read8_ok rd_advances_def)

lemma rd_readBytes_advances: "rd_readBytes r n = Inr (v, r') \<Longrightarrow> rd_advances r r'"
  by (auto simp: rd_readBytes_ok rd_advances_def)

lemma rd_slice_advances: "rd_slice r n = Inr (s, r') \<Longrightarrow> rd_advances r r'"
  by (auto simp: rd_slice_ok rd_advances_def)

lemma rd_remaining_less:
  "rd_advances r r' \<Longrightarrow> rd_pos r < rd_pos r' \<Longrightarrow> \<not> rd_empty r \<Longrightarrow> rd_remaining r' < rd_remaining r"
  by (auto simp: rd_advances_def rd_remaining_def rd_empty_def)

section \<open>What a writer appends\<close>

text \<open>Every operation but \<open>patch8\<close> appends; a run of them appends the concatenation.\<close>

lemma wr_writeBytes_Nil [simp]: "wr_writeBytes w [] = w"
  by (simp add: wr_writeBytes_def)

lemma wr_writeBytes_append [simp]: "wr_writeBytes (wr_writeBytes w a) b = wr_writeBytes w (a @ b)"
  by (simp add: wr_writeBytes_def)

lemma wr_write8_bytes: "wr_write8 w v = wr_writeBytes w [v]"
  by (simp add: wr_writeBytes_def wr_write8_def)

lemma wr_patch8_bytes:
  "off = length (wr_buf w) + length a \<Longrightarrow>
   wr_patch8 (wr_writeBytes w (a @ x # b)) off v = Inr (wr_writeBytes w (a @ v # b))"
  by (simp add: wr_patch8_def wr_writeBytes_def list_update_append)

lemma wr_ext: "wr_buf v = wr_buf w \<Longrightarrow> (v :: BufferWriter) = w"
  by simp

lemma wr_buf_simps [writer_simps]:
  "wr_buf wr_new = []"
  "wr_buf (wr_write8 w v) = wr_buf w @ [v]"
  "wr_buf (wr_writeBytes w b) = wr_buf w @ b"
  "wr_buf (wr_writeBE16 w h) = wr_buf w @ [ucast (drop_bit 8 h AND 0xFF), ucast (h AND 0xFF)]"
  "wr_buf (wr_writeBE32 w q) = wr_buf w @
     [ucast (drop_bit 24 q AND 0xFF), ucast (drop_bit 16 q AND 0xFF),
      ucast (drop_bit 8 q AND 0xFF), ucast (q AND 0xFF)]"
  by (simp_all add: wr_new_def wr_write8_def wr_writeBytes_def wr_writeBE16_def wr_writeBE32_def)

section \<open>No undefined behaviour\<close>

text \<open>Every read is guarded by \<open>check\<close>, so that a failing one throws.\<close>

lemma no_ub_reads [simp]:
  "no_ub (rd_read8 r)" "no_ub (rd_readBytes r n)" "no_ub (rd_slice r n)" "no_ub (rd_readBE16 r)"
  "no_ub (rd_readBE32 r)"
  by (simp_all add: rd_checked rd_check_def Let_def)

end
