(* ===== verification/GsupMessage.thy ===== *)
theory GsupMessage
  imports Buffer
begin

text \<open>
  \<open>src/gsup/GsupTypes.hpp\<close> and \<open>src/gsup/GsupMessage.hpp\<close>: the constants and messages of GSUP.

  The enumerations have the fixed underlying type \<open>uint8_t\<close> and are made by \<open>static_cast\<close> from
  received octets without a check, so every octet is a value of them; they are modelled as octets,
  with one constant for each enumerator.
\<close>

section \<open>Message types\<close>

type_synonym MessageType = byte

definition UpdateLocationRequest :: MessageType where [wire_consts]: "UpdateLocationRequest = 0x04"
definition UpdateLocationError :: MessageType where [wire_consts]: "UpdateLocationError = 0x05"
definition UpdateLocationResult :: MessageType where [wire_consts]: "UpdateLocationResult = 0x06"
definition SendAuthInfoRequest :: MessageType where [wire_consts]: "SendAuthInfoRequest = 0x08"
definition SendAuthInfoError :: MessageType where [wire_consts]: "SendAuthInfoError = 0x09"
definition SendAuthInfoResult :: MessageType where [wire_consts]: "SendAuthInfoResult = 0x0a"
definition PurgeMsRequest :: MessageType where [wire_consts]: "PurgeMsRequest = 0x0c"
definition PurgeMsError :: MessageType where [wire_consts]: "PurgeMsError = 0x0d"
definition PurgeMsResult :: MessageType where [wire_consts]: "PurgeMsResult = 0x0e"
definition InsertDataRequest :: MessageType where [wire_consts]: "InsertDataRequest = 0x10"
definition InsertDataError :: MessageType where [wire_consts]: "InsertDataError = 0x11"
definition InsertDataResult :: MessageType where [wire_consts]: "InsertDataResult = 0x12"
definition DeleteDataRequest :: MessageType where [wire_consts]: "DeleteDataRequest = 0x14"
definition DeleteDataError :: MessageType where [wire_consts]: "DeleteDataError = 0x15"
definition DeleteDataResult :: MessageType where [wire_consts]: "DeleteDataResult = 0x16"
definition LocationCancelRequest :: MessageType where [wire_consts]: "LocationCancelRequest = 0x1c"
definition LocationCancelError :: MessageType where [wire_consts]: "LocationCancelError = 0x1d"
definition LocationCancelResult :: MessageType where [wire_consts]: "LocationCancelResult = 0x1e"
definition MessageType_Unknown :: MessageType where [wire_consts]: "MessageType_Unknown = 0xFF"

section \<open>Information element tags\<close>

type_synonym IeTag = byte

definition IeTag_Imsi :: IeTag where [wire_consts]: "IeTag_Imsi = 0x01"
definition IeTag_Cause :: IeTag where [wire_consts]: "IeTag_Cause = 0x02"
definition IeTag_AuthTuple :: IeTag where [wire_consts]: "IeTag_AuthTuple = 0x03"
definition IeTag_PdpInfoComplete :: IeTag where [wire_consts]: "IeTag_PdpInfoComplete = 0x04"
definition IeTag_PdpInfo :: IeTag where [wire_consts]: "IeTag_PdpInfo = 0x05"
definition IeTag_CancelType :: IeTag where [wire_consts]: "IeTag_CancelType = 0x06"
definition IeTag_FreezePtmsi :: IeTag where [wire_consts]: "IeTag_FreezePtmsi = 0x07"
definition IeTag_Msisdn :: IeTag where [wire_consts]: "IeTag_Msisdn = 0x08"
definition IeTag_HlrNumber :: IeTag where [wire_consts]: "IeTag_HlrNumber = 0x09"
definition IeTag_Pc :: IeTag where [wire_consts]: "IeTag_Pc = 0x0a"
definition IeTag_ImeiResult :: IeTag where [wire_consts]: "IeTag_ImeiResult = 0x0f"
definition IeTag_NumVectorsReq :: IeTag where [wire_consts]: "IeTag_NumVectorsReq = 0x10"
definition IeTag_Rand :: IeTag where [wire_consts]: "IeTag_Rand = 0x20"
definition IeTag_Sres :: IeTag where [wire_consts]: "IeTag_Sres = 0x21"
definition IeTag_Kc :: IeTag where [wire_consts]: "IeTag_Kc = 0x22"
definition IeTag_Ik :: IeTag where [wire_consts]: "IeTag_Ik = 0x23"
definition IeTag_Ck :: IeTag where [wire_consts]: "IeTag_Ck = 0x24"
definition IeTag_Autn :: IeTag where [wire_consts]: "IeTag_Autn = 0x25"
definition IeTag_Auts :: IeTag where [wire_consts]: "IeTag_Auts = 0x26"
definition IeTag_Res :: IeTag where [wire_consts]: "IeTag_Res = 0x27"
definition IeTag_CnDomain :: IeTag where [wire_consts]: "IeTag_CnDomain = 0x28"
definition IeTag_PdpContextId :: IeTag where [wire_consts]: "IeTag_PdpContextId = 0x60"
definition IeTag_PdpType :: IeTag where [wire_consts]: "IeTag_PdpType = 0x61"
definition IeTag_AccessPointName :: IeTag where [wire_consts]: "IeTag_AccessPointName = 0x62"
definition IeTag_PdpAddress :: IeTag where [wire_consts]: "IeTag_PdpAddress = 0x63"
definition IeTag_PdpQos :: IeTag where [wire_consts]: "IeTag_PdpQos = 0x64"

section \<open>Cancel type and CN domain\<close>

type_synonym CancelType = byte

definition CancelType_UpdateProcedure :: CancelType where [wire_consts]: "CancelType_UpdateProcedure = 0"
definition CancelType_Withdraw :: CancelType where [wire_consts]: "CancelType_Withdraw = 1"

type_synonym CnDomain = byte

definition CnDomain_Cs :: CnDomain where [wire_consts]: "CnDomain_Cs = 0"
definition CnDomain_Ps :: CnDomain where [wire_consts]: "CnDomain_Ps = 1"

section \<open>Messages\<close>

record AuthTuple =
  at_rand :: bytes
  at_sres :: bytes
  at_kc :: bytes
  at_ik :: "bytes option"
  at_ck :: "bytes option"
  at_autn :: "bytes option"
  at_res :: "bytes option"

definition AuthTuple_init :: AuthTuple where
  "AuthTuple_init = \<lparr>at_rand = [], at_sres = [], at_kc = [],
     at_ik = None, at_ck = None, at_autn = None, at_res = None\<rparr>"

record PdpInfo =
  contextId :: byte
  pdpType :: "u16 option"
  apn :: "string option"
  pdpAddress :: "bytes option"
  qos :: "bytes option"

definition PdpInfo_init :: PdpInfo where
  "PdpInfo_init = \<lparr>contextId = 0, pdpType = None, apn = None, pdpAddress = None, qos = None\<rparr>"

record GsupMessage =
  g_type :: MessageType
  g_imsi :: string
  g_cause :: "byte option"
  g_numVectorsRequested :: "byte option"
  g_authTuples :: "AuthTuple list"
  g_msisdn :: "bytes option"
  g_hlrNumber :: "bytes option"
  g_cnDomain :: "CnDomain option"
  g_pdpInfoList :: "PdpInfo list"
  g_pdpInfoComplete :: bool
  g_cancelType :: "CancelType option"
  g_freezePtmsi :: bool
  g_freezePtmsiResult :: bool

definition GsupMessage_init :: GsupMessage where
  "GsupMessage_init = \<lparr>g_type = MessageType_Unknown, g_imsi = [], g_cause = None,
     g_numVectorsRequested = None, g_authTuples = [], g_msisdn = None, g_hlrNumber = None,
     g_cnDomain = None, g_pdpInfoList = [], g_pdpInfoComplete = False, g_cancelType = None,
     g_freezePtmsi = False, g_freezePtmsiResult = False\<rparr>"

end
