(* ===== verification/Bcd.thy ===== *)
theory Bcd
  imports Buffer
begin

text \<open>
  Packed BCD digit strings.  The packing loop appears with the same text in \<open>imsiToBcd\<close> and
  \<open>isdnToBcd\<close> of \<open>src/gsup/GsupCodec.cpp\<close>, in \<open>imsiToBcd\<close> of \<open>src/map/MapCodec.cpp\<close> and in
  \<open>packBcd\<close> of \<open>src/transport/ScccpCodec.cpp\<close>; the unpacking loop with its digit checks in the two
  \<open>bcdToImsi\<close>, which differ only in the exception.  Both are modelled here once.
\<close>

text \<open>\<open>static_cast<uint8_t>(c - '0')\<close>, which wraps below \<open>'0'\<close>, and \<open>static_cast<char>('0' + v)\<close>.\<close>

definition digitVal :: "char \<Rightarrow> byte" where
  "digitVal c = of_char c - 48"

definition digitChar :: "byte \<Rightarrow> char" where
  "digitChar v = char_of (48 + unat v)"

definition isDigit :: "char \<Rightarrow> bool" where
  "isDigit c \<longleftrightarrow> \<not> (of_char c < (48 :: nat) \<or> of_char c > (57 :: nat))"

text \<open>The loop \<open>for (i = 0; i < size; i += 2)\<close>: low nibble first, filler \<open>0xF\<close> after an odd digit.\<close>

fun packDigits :: "string \<Rightarrow> bytes" where
  "packDigits [] = []"
| "packDigits [c] = [push_bit 4 0x0F OR digitVal c]"
| "packDigits (c # d # cs) = (push_bit 4 (digitVal d) OR digitVal c) # packDigits cs"

fun unpackDigits :: "exc \<Rightarrow> bytes \<Rightarrow> string result" where
  "unpackDigits e [] = Inr []"
| "unpackDigits e (b # bs) =
     (let lo = b AND 0x0F; hi = drop_bit 4 b AND 0x0F in
      if lo > 9 then Inl e
      else if hi \<noteq> 0x0F then
        (if hi > 9 then Inl e
         else rbind (unpackDigits e bs) (\<lambda>s. Inr (digitChar lo # digitChar hi # s)))
      else rbind (unpackDigits e bs) (\<lambda>s. Inr (digitChar lo # s)))"

section \<open>Nibbles\<close>

lemma nibble_take_bit: "v < 16 \<Longrightarrow> take_bit 4 v = (v :: byte)"
  by (simp add: word_unat_eq_iff unsigned_take_bit_eq word_less_nat_alt take_bit_nat_eq_self)

lemma nibble_low: "lo < 16 \<Longrightarrow> (push_bit 4 hi OR lo) AND 15 = (lo :: byte)"
proof -
  assume "lo < 16"
  then have "take_bit 4 lo = lo" by (simp add: nibble_take_bit)
  then have "bit lo n \<Longrightarrow> n < 4" for n by (metis bit_take_bit_iff)
  then show ?thesis
    unfolding mask_numerals by (intro bit_word_eqI) (auto simp: bit_simps)
qed

lemma nibble_high: "lo < 16 \<Longrightarrow> hi < 16 \<Longrightarrow> drop_bit 4 (push_bit 4 hi OR lo) AND 15 = (hi :: byte)"
proof -
  assume "lo < 16" "hi < 16"
  then have "take_bit 4 lo = lo" "take_bit 4 hi = hi" by (simp_all add: nibble_take_bit)
  then have "bit lo n \<Longrightarrow> n < 4" "bit hi n \<Longrightarrow> n < 4" for n by (metis bit_take_bit_iff)+
  then show ?thesis
    unfolding mask_numerals by (intro bit_word_eqI) (force simp: bit_simps)
qed

lemma unat_digitVal: "isDigit c \<Longrightarrow> unat (digitVal c) = of_char c - 48"
proof -
  assume "isDigit c"
  then have c: "48 \<le> (of_char c :: nat)" "(of_char c :: nat) \<le> 57" by (auto simp: isDigit_def)
  then have small: "(of_char c - 48 :: nat) < 256" by arith
  have "digitVal c = of_nat (of_char c) - of_nat 48"
    by (simp add: digitVal_def of_nat_of_char)
  also have "\<dots> = of_nat (of_char c - 48)" using c by (simp add: of_nat_diff)
  finally show ?thesis by (simp only: unat_byte_of_nat [OF small])
qed

lemma digitVal_bounds:
  assumes "isDigit c"
  shows "digitVal c < 16" "\<not> digitVal c > 9" "digitVal c \<noteq> 15"
proof -
  have "unat (digitVal c) \<le> 9"
    using assms by (auto simp: unat_digitVal isDigit_def)
  then show "digitVal c < 16" "\<not> digitVal c > 9" "digitVal c \<noteq> 15"
    by (auto simp: word_less_nat_alt)
qed

lemma digitChar_Val: "isDigit c \<Longrightarrow> digitChar (digitVal c) = c"
  by (simp add: digitChar_def unat_digitVal isDigit_def)

section \<open>Round trip\<close>

lemma unpackDigits_packDigits:
  "list_all isDigit s \<Longrightarrow> unpackDigits e (packDigits s) = Inr s"
proof (induction s rule: packDigits.induct)
  case (2 c)
  then have "isDigit c" by simp
  note digitVal_bounds [OF this] digitChar_Val [OF this]
  moreover from this have "(240 OR digitVal c) AND 15 = digitVal c"
    "drop_bit 4 (240 OR digitVal c) AND 15 = 15"
    using nibble_low [of "digitVal c" 15] nibble_high [of "digitVal c" 15] by simp_all
  ultimately show ?case by (simp add: Let_def)
next
  case (3 c d cs)
  then have "isDigit c" "isDigit d" by simp_all
  note digitVal_bounds [OF this(1)] digitVal_bounds [OF this(2)]
    digitChar_Val [OF this(1)] digitChar_Val [OF this(2)]
  with 3 show ?case by (simp add: Let_def nibble_low nibble_high del: drop_bit_or)
qed simp

lemma length_packDigits: "length (packDigits s) = (length s + 1) div 2"
  by (induction s rule: packDigits.induct) simp_all

text \<open>A string that was unpacked consists of digits.\<close>

lemma isDigit_digitChar: "\<not> v > 9 \<Longrightarrow> isDigit (digitChar v)"
  by (simp add: isDigit_def digitChar_def word_less_nat_alt)

lemma unpackDigits_digits: "unpackDigits e bs = Inr s \<Longrightarrow> list_all isDigit s"
  by (induction e bs arbitrary: s rule: unpackDigits.induct)
    (auto simp: Let_def rbind_Inr_iff isDigit_digitChar split: if_splits)

lemma no_ub_unpackDigits: "is_std_exception e \<Longrightarrow> no_ub (unpackDigits e bs)"
  by (induction e bs rule: unpackDigits.induct) (auto simp: Let_def intro: no_ub_rbind)

end
