(* ===== verification/Tlv.thy ===== *)
theory Tlv
  imports Buffer
begin

text \<open>
  Every message body of the protocols is a sequence of tag-length-value elements, and every decoder
  is a loop \<open>while (!r.empty()) { ... }\<close> that reads one element and updates the message under
  construction.  The locale \<open>tlv_loop\<close> is the interface between such a loop and the round-trip
  proofs: an encoder emits a number of byte strings, each of which the loop turns into one update
  of its state, and the updates compose in the order of the bytes.
\<close>

locale tlv_loop =
  fixes loop :: "BufferReader \<Rightarrow> 's \<Rightarrow> 's result"
  assumes loop_done: "loop (rd_at pre []) s = Inr s"
begin

text \<open>The loop passes over \<open>bs\<close> and updates its state by \<open>f\<close>, whatever follows.\<close>

definition consumes :: "bytes \<Rightarrow> ('s \<Rightarrow> 's) \<Rightarrow> bool" where
  "consumes bs f \<longleftrightarrow>
     (\<forall>pre rest s. loop (rd_at pre (bs @ rest)) s = loop (rd_at (pre @ bs) rest) (f s))"

lemma consumesI:
  "(\<And>pre rest s. loop (rd_at pre (bs @ rest)) s = loop (rd_at (pre @ bs) rest) (f s)) \<Longrightarrow> consumes bs f"
  by (simp add: consumes_def)

lemma consumesD:
  "consumes bs f \<Longrightarrow> loop (rd_at pre (bs @ rest)) s = loop (rd_at (pre @ bs) rest) (f s)"
  by (simp add: consumes_def)

lemma consumes_Nil: "consumes [] (\<lambda>s. s)"
  by (simp add: consumes_def)

lemma consumes_append:
  assumes "consumes bs f" and "consumes cs g"
  shows "consumes (bs @ cs) (\<lambda>s. g (f s))"
  using assms by (simp add: consumes_def)

lemma consumes_option:
  assumes "\<And>x. v = Some x \<Longrightarrow> consumes (enc x) (f x)"
  shows "consumes (case v of None \<Rightarrow> [] | Some x \<Rightarrow> enc x) (case v of None \<Rightarrow> \<lambda>s. s | Some x \<Rightarrow> f x)"
  using assms by (cases v) (simp_all add: consumes_Nil)

lemma consumes_if:
  assumes "b \<Longrightarrow> consumes bs f"
  shows "consumes (if b then bs else []) (if b then f else (\<lambda>s. s))"
  using assms by (simp add: consumes_Nil)

lemma consumes_concat:
  assumes "\<And>x. x \<in> set xs \<Longrightarrow> consumes (enc x) (f x)"
  shows "consumes (concat (map enc xs)) (fold f xs)"
  using assms
proof (induction xs)
  case Nil
  then show ?case using consumes_Nil by (simp add: id_def)
next
  case (Cons x xs)
  then have "consumes (enc x) (f x)" and "consumes (concat (map enc xs)) (fold f xs)" by simp_all
  then show ?case using consumes_append by (fastforce simp: comp_def)
qed

text \<open>A loop that consumes all of its input returns the updated state.\<close>

lemma loop_consumes: "consumes bs f \<Longrightarrow> loop (rd_at pre bs) s = Inr (f s)"
  using loop_done by (simp add: consumes_def) (metis append.right_neutral)

lemma loop_new: "consumes bs f \<Longrightarrow> loop (rd_new bs) s = Inr (f s)"
  using loop_consumes [of bs f "[]" s] by (simp add: rd_new_at)

end

end
