(* ===== verification/GsupCodec.thy ===== *)
theory GsupCodec
  imports GsupMessage Bcd Tlv
begin

text \<open>
  \<open>src/gsup/GsupCodec.cpp\<close>: digit strings, decoder and encoder of GSUP messages.  A message is the
  type octet followed by information elements: tag, one-octet length, value.  Authentication tuples
  and PDP contexts are elements whose value is again a sequence of elements.
\<close>

section \<open>BCD utilities\<close>

definition gsup_imsiToBcd :: "string \<Rightarrow> bytes result" where
  "gsup_imsiToBcd imsi =
     (if imsi = [] \<or> length imsi > 15 then Inl (invalid_argument ''IMSI must be 1-15 digits'')
      else if \<not> list_all isDigit imsi then
        Inl (invalid_argument ''IMSI contains non-digit character'')
      else Inr (packDigits imsi))"

definition gsup_bcdToImsi :: "bytes \<Rightarrow> string result" where
  "gsup_bcdToImsi bcd = unpackDigits (runtime_error ''Invalid BCD nibble in IMSI'') bcd"

definition isdnToBcd :: "string \<Rightarrow> bytes" where
  "isdnToBcd digits = 0x91 # packDigits digits"

definition isdnOctetDigits :: "byte \<Rightarrow> string" where
  "isdnOctetDigits b =
     (let lo = b AND 0x0F; hi = drop_bit 4 b AND 0x0F
      in digitChar lo # (if hi \<noteq> 0x0F then [digitChar hi] else []))"

definition bcdToIsdn :: "bytes \<Rightarrow> string" where
  "bcdToIsdn bcd = (if bcd = [] then [] else concat (map isdnOctetDigits (tl bcd)))"

section \<open>Decoder\<close>

text \<open>The round of \<open>decodeAuthTuple\<close> for one sub-element; unknown ones are ignored.\<close>

definition authTuple_ie :: "IeTag \<Rightarrow> bytes \<Rightarrow> AuthTuple \<Rightarrow> AuthTuple" where
  "authTuple_ie tag val t =
     (if tag = IeTag_Rand then t\<lparr>at_rand := val\<rparr>
      else if tag = IeTag_Sres then t\<lparr>at_sres := val\<rparr>
      else if tag = IeTag_Kc then t\<lparr>at_kc := val\<rparr>
      else if tag = IeTag_Ik then t\<lparr>at_ik := Some val\<rparr>
      else if tag = IeTag_Ck then t\<lparr>at_ck := Some val\<rparr>
      else if tag = IeTag_Autn then t\<lparr>at_autn := Some val\<rparr>
      else if tag = IeTag_Res then t\<lparr>at_res := Some val\<rparr>
      else t)"

definition pdpInfo_ie :: "IeTag \<Rightarrow> bytes \<Rightarrow> PdpInfo \<Rightarrow> PdpInfo result" where
  "pdpInfo_ie tag val p =
     (if tag = IeTag_PdpContextId then
        rbind (if val = [] then Inr 0 else vec_at val 0) (\<lambda>v. Inr (p\<lparr>contextId := v\<rparr>))
      else if tag = IeTag_PdpType then
        (if length val \<ge> 2
         then rbind (vec_at val 0) (\<lambda>b0. rbind (vec_at val 1) (\<lambda>b1.
                Inr (p\<lparr>pdpType := Some (push_bit 8 (ucast b0) OR ucast b1)\<rparr>)))
         else Inr p)
      else if tag = IeTag_AccessPointName then
        Inr (p\<lparr>apn := Some (map (\<lambda>b. char_of (unat b)) val)\<rparr>)
      else if tag = IeTag_PdpAddress then Inr (p\<lparr>pdpAddress := Some val\<rparr>)
      else if tag = IeTag_PdpQos then Inr (p\<lparr>qos := Some val\<rparr>)
      else Inr p)"

text \<open>
  The loop both sub-decoders run: tag, length, value, one round of the \<open>switch\<close>.  It ends because
  every round reads at least the tag.
\<close>

function sub_ies :: "(IeTag \<Rightarrow> bytes \<Rightarrow> 's \<Rightarrow> 's result) \<Rightarrow> BufferReader \<Rightarrow> 's \<Rightarrow> 's result" where
  "sub_ies upd r s =
     (if rd_empty r then Inr s
      else rbind (rd_read8 r) (\<lambda>(tag, r1).
           rbind (rd_read8 r1) (\<lambda>(len, r2).
           rbind (rd_readBytes r2 (unat len)) (\<lambda>(val, r3).
           rbind (upd tag val s) (sub_ies upd r3)))))"
  by pat_completeness auto
termination
  by (relation "measure (\<lambda>(upd, r, s). rd_remaining r)")
    (auto simp: rd_read8_ok rd_readBytes_ok rd_remaining_def)

declare sub_ies.simps [simp del]

definition decodeAuthTuple :: "BufferReader \<Rightarrow> AuthTuple result" where
  "decodeAuthTuple r = sub_ies (\<lambda>tag val t. Inr (authTuple_ie tag val t)) r AuthTuple_init"

definition decodePdpInfo :: "BufferReader \<Rightarrow> PdpInfo result" where
  "decodePdpInfo r = sub_ies pdpInfo_ie r PdpInfo_init"

text \<open>\<open>if (ieLen > 1) r.readBytes(ieLen - 1)\<close>: skip what follows the first octet of an element.\<close>

definition skip_tail :: "byte \<Rightarrow> BufferReader \<Rightarrow> BufferReader result" where
  "skip_tail ieLen r =
     (if ieLen > 1 then rbind (rd_readBytes r (unat ieLen - 1)) (\<lambda>(_, r'). Inr r') else Inr r)"

text \<open>An element with one octet of value: \<open>if (ieLen >= 1) ... = r.read8()\<close>, then the tail.\<close>

definition octet_ie :: "byte \<Rightarrow> BufferReader \<Rightarrow> (byte \<Rightarrow> 's \<Rightarrow> 's) \<Rightarrow> 's \<Rightarrow> ('s \<times> BufferReader) result" where
  "octet_ie ieLen r upd s =
     (if ieLen \<ge> 1 then rbind (rd_read8 r) (\<lambda>(v, r1). rbind (skip_tail ieLen r1) (\<lambda>r2. Inr (upd v s, r2)))
      else rbind (skip_tail ieLen r) (\<lambda>r2. Inr (s, r2)))"

text \<open>
  The \<open>switch\<close> of \<open>decode\<close>.  The cause element is read without the guard \<open>ieLen >= 1\<close> the other
  one-octet elements have.
\<close>

definition gsup_ie :: "IeTag \<Rightarrow> byte \<Rightarrow> BufferReader \<Rightarrow> GsupMessage \<Rightarrow> (GsupMessage \<times> BufferReader) result" where
  "gsup_ie tag ieLen r msg =
     (if tag = IeTag_Imsi then
        rbind (rd_readBytes r (unat ieLen)) (\<lambda>(bcd, r1).
        rbind (gsup_bcdToImsi bcd) (\<lambda>s. Inr (msg\<lparr>g_imsi := s\<rparr>, r1)))
      else if tag = IeTag_Cause then
        rbind (rd_read8 r) (\<lambda>(c, r1).
        rbind (skip_tail ieLen r1) (\<lambda>r2. Inr (msg\<lparr>g_cause := Some c\<rparr>, r2)))
      else if tag = IeTag_AuthTuple then
        rbind (rd_slice r (unat ieLen)) (\<lambda>(sub, r1).
        rbind (decodeAuthTuple sub) (\<lambda>t. Inr (msg\<lparr>g_authTuples := g_authTuples msg @ [t]\<rparr>, r1)))
      else if tag = IeTag_PdpInfoComplete then
        rbind (rd_readBytes r (unat ieLen)) (\<lambda>(_, r1). Inr (msg\<lparr>g_pdpInfoComplete := True\<rparr>, r1))
      else if tag = IeTag_PdpInfo then
        rbind (rd_slice r (unat ieLen)) (\<lambda>(sub, r1).
        rbind (decodePdpInfo sub) (\<lambda>p. Inr (msg\<lparr>g_pdpInfoList := g_pdpInfoList msg @ [p]\<rparr>, r1)))
      else if tag = IeTag_CancelType then
        octet_ie ieLen r (\<lambda>v m. m\<lparr>g_cancelType := Some v\<rparr>) msg
      else if tag = IeTag_FreezePtmsi then
        rbind (rd_readBytes r (unat ieLen)) (\<lambda>(_, r1). Inr (msg\<lparr>g_freezePtmsi := True\<rparr>, r1))
      else if tag = IeTag_Msisdn then
        rbind (rd_readBytes r (unat ieLen)) (\<lambda>(v, r1). Inr (msg\<lparr>g_msisdn := Some v\<rparr>, r1))
      else if tag = IeTag_HlrNumber then
        rbind (rd_readBytes r (unat ieLen)) (\<lambda>(v, r1). Inr (msg\<lparr>g_hlrNumber := Some v\<rparr>, r1))
      else if tag = IeTag_NumVectorsReq then
        octet_ie ieLen r (\<lambda>v m. m\<lparr>g_numVectorsRequested := Some v\<rparr>) msg
      else if tag = IeTag_CnDomain then
        octet_ie ieLen r (\<lambda>v m. m\<lparr>g_cnDomain := Some v\<rparr>) msg
      else
        rbind (rd_readBytes r (unat ieLen)) (\<lambda>(_, r1). Inr (msg, r1)))"

lemma skip_tail_advances: "skip_tail n r = Inr r' \<Longrightarrow> rd_advances r r'"
  by (auto simp: skip_tail_def rbind_Inr_iff dest: rd_readBytes_advances split: if_splits)

lemma octet_ie_advances: "octet_ie n r upd s = Inr (s', r') \<Longrightarrow> rd_advances r r'"
  by (auto simp: octet_ie_def rbind_Inr_iff split: if_splits
      dest!: skip_tail_advances rd_read8_advances intro: rd_advances_trans)

lemma gsup_ie_advances: "gsup_ie tag n r m = Inr (m', r') \<Longrightarrow> rd_advances r r'"
  unfolding gsup_ie_def
  by (auto simp: rbind_Inr_iff split: if_splits
      dest!: skip_tail_advances rd_read8_advances rd_readBytes_advances rd_slice_advances
        octet_ie_advances intro: rd_advances_trans)

function gsup_ies :: "BufferReader \<Rightarrow> GsupMessage \<Rightarrow> GsupMessage result" where
  "gsup_ies r msg =
     (if rd_empty r then Inr msg
      else if rd_remaining r < 2 then Inl (runtime_error ''GSUP: truncated IE header'')
      else rbind (rd_read8 r) (\<lambda>(tag, r1).
           rbind (rd_read8 r1) (\<lambda>(ieLen, r2).
           if rd_remaining r2 < unat ieLen then
             Inl (runtime_error ''GSUP: IE length exceeds payload'')
           else rbind (gsup_ie tag ieLen r2 msg) (\<lambda>(msg', r3). gsup_ies r3 msg'))))"
  by pat_completeness auto
termination
proof (relation "measure (\<lambda>(r, m). rd_remaining r)", goal_cases)
  case (2 r msg x tag r1 y ieLen r2 z msg' r3)
  then have "rd_advances r r1 \<and> rd_pos r < rd_pos r1" "rd_advances r1 r2" "rd_advances r2 r3"
    using rd_read8_advances gsup_ie_advances by blast+
  then have "rd_advances r r3" "rd_pos r < rd_pos r3"
    by (auto simp: rd_advances_def)
  with 2 show ?case by (simp add: rd_remaining_less)
qed simp

declare gsup_ies.simps [simp del]

definition gsup_decode :: "bytes \<Rightarrow> GsupMessage result" where
  "gsup_decode data =
     (if length data < 1 then Inl (runtime_error ''GSUP: empty payload'')
      else rbind (rd_read8 (rd_new data)) (\<lambda>(t, r). gsup_ies r (GsupMessage_init\<lparr>g_type := t\<rparr>)))"

section \<open>Encoder\<close>

definition gsup_writeTlv :: "BufferWriter \<Rightarrow> IeTag \<Rightarrow> bytes \<Rightarrow> BufferWriter result" where
  "gsup_writeTlv w tag val =
     (if length val > 255 then Inl (runtime_error ''GSUP IE value too large'')
      else Inr (wr_writeBytes (wr_write8 (wr_write8 w tag) (of_nat (length val))) val))"

definition gsup_writeTlv1 :: "BufferWriter \<Rightarrow> IeTag \<Rightarrow> byte \<Rightarrow> BufferWriter" where
  "gsup_writeTlv1 w tag val = wr_write8 (wr_write8 (wr_write8 w tag) 1) val"

text \<open>\<open>if (v) writeTlv(w, tag, *v)\<close>\<close>

definition gsup_writeOpt :: "IeTag \<Rightarrow> bytes option \<Rightarrow> BufferWriter \<Rightarrow> BufferWriter result" where
  "gsup_writeOpt tag v w = (case v of None \<Rightarrow> Inr w | Some x \<Rightarrow> gsup_writeTlv w tag x)"

definition encodeAuthTuple :: "AuthTuple \<Rightarrow> BufferWriter \<Rightarrow> BufferWriter result" where
  "encodeAuthTuple t w0 =
     (let w1 = wr_write8 w0 IeTag_AuthTuple;
          (lenOff, w2) = wr_reserveLen8 w1;
          start = wr_size w2
      in rbind (gsup_writeTlv w2 IeTag_Rand (at_rand t)) (\<lambda>w.
         rbind (gsup_writeTlv w IeTag_Sres (at_sres t)) (\<lambda>w.
         rbind (gsup_writeTlv w IeTag_Kc (at_kc t)) (\<lambda>w.
         rbind (gsup_writeOpt IeTag_Ik (at_ik t) w) (\<lambda>w.
         rbind (gsup_writeOpt IeTag_Ck (at_ck t) w) (\<lambda>w.
         rbind (gsup_writeOpt IeTag_Autn (at_autn t) w) (\<lambda>w.
         rbind (gsup_writeOpt IeTag_Res (at_res t) w) (\<lambda>w.
         wr_patch8 w lenOff (of_nat (wr_size w - start))))))))))"

definition encodePdpInfo :: "PdpInfo \<Rightarrow> BufferWriter \<Rightarrow> BufferWriter result" where
  "encodePdpInfo p w0 =
     (let w1 = wr_write8 w0 IeTag_PdpInfo;
          (lenOff, w2) = wr_reserveLen8 w1;
          start = wr_size w2;
          w3 = gsup_writeTlv1 w2 IeTag_PdpContextId (contextId p)
      in rbind (gsup_writeOpt IeTag_PdpType
                 (map_option (\<lambda>t. [ucast (drop_bit 8 t), ucast (t AND 0xFF)]) (pdpType p)) w3) (\<lambda>w.
         rbind (gsup_writeOpt IeTag_AccessPointName (map_option (map of_char) (apn p)) w) (\<lambda>w.
         rbind (gsup_writeOpt IeTag_PdpAddress (pdpAddress p) w) (\<lambda>w.
         rbind (gsup_writeOpt IeTag_PdpQos (qos p) w) (\<lambda>w.
         wr_patch8 w lenOff (of_nat (wr_size w - start)))))))"

text \<open>\<open>if (v) writeTlv1(w, tag, *v)\<close> and a flag, which is an element of length zero.\<close>

definition gsup_writeOpt1 :: "IeTag \<Rightarrow> byte option \<Rightarrow> BufferWriter \<Rightarrow> BufferWriter" where
  "gsup_writeOpt1 tag v w = (case v of None \<Rightarrow> w | Some x \<Rightarrow> gsup_writeTlv1 w tag x)"

definition gsup_writeFlag :: "IeTag \<Rightarrow> bool \<Rightarrow> BufferWriter \<Rightarrow> BufferWriter" where
  "gsup_writeFlag tag b w = (if b then wr_write8 (wr_write8 w tag) 0 else w)"

definition gsup_encode :: "GsupMessage \<Rightarrow> bytes result" where
  "gsup_encode msg =
     (let w0 = wr_write8 wr_new (g_type msg) in
      rbind (if g_imsi msg \<noteq> [] then
               rbind (gsup_imsiToBcd (g_imsi msg)) (\<lambda>bcd. gsup_writeTlv w0 IeTag_Imsi bcd)
             else Inr w0) (\<lambda>w1.
      let w2 = gsup_writeOpt1 IeTag_Cause (g_cause msg) w1;
          w3 = gsup_writeOpt1 IeTag_NumVectorsReq (g_numVectorsRequested msg) w2
      in rbind (foldM encodeAuthTuple (g_authTuples msg) w3) (\<lambda>w4.
         rbind (gsup_writeOpt IeTag_Msisdn (g_msisdn msg) w4) (\<lambda>w5.
         rbind (gsup_writeOpt IeTag_HlrNumber (g_hlrNumber msg) w5) (\<lambda>w6.
         rbind (foldM encodePdpInfo (g_pdpInfoList msg)
                  (gsup_writeFlag IeTag_PdpInfoComplete (g_pdpInfoComplete msg) w6)) (\<lambda>w7.
         let w8 = gsup_writeOpt1 IeTag_CancelType (g_cancelType msg) w7;
             w9 = gsup_writeFlag IeTag_FreezePtmsi (g_freezePtmsi msg) w8;
             w10 = gsup_writeOpt1 IeTag_CnDomain (g_cnDomain msg) w9
         in Inr (wr_buf w10)))))))"

section \<open>What the encoder writes\<close>

definition ie_tlv :: "IeTag \<Rightarrow> bytes \<Rightarrow> bytes" where
  "ie_tlv tag val = tag # of_nat (length val) # val"

definition ie_opt :: "IeTag \<Rightarrow> bytes option \<Rightarrow> bytes" where
  "ie_opt tag v = (case v of None \<Rightarrow> [] | Some x \<Rightarrow> ie_tlv tag x)"

definition ie_flag :: "IeTag \<Rightarrow> bool \<Rightarrow> bytes" where
  "ie_flag tag b = (if b then ie_tlv tag [] else [])"

definition fits :: "bytes option \<Rightarrow> bool" where
  "fits v \<longleftrightarrow> (case v of None \<Rightarrow> True | Some x \<Rightarrow> length x \<le> 255)"

lemma length_ie [simp]:
  "length (ie_tlv tag val) = length val + 2"
  "length (ie_opt tag v) = (case v of None \<Rightarrow> 0 | Some x \<Rightarrow> length x + 2)"
  by (simp_all add: ie_tlv_def ie_opt_def split: option.split)

lemma gsup_writeTlv_bytes:
  "length val \<le> 255 \<Longrightarrow> gsup_writeTlv w tag val = Inr (wr_writeBytes w (ie_tlv tag val))"
  by (simp add: gsup_writeTlv_def wr_write8_bytes ie_tlv_def)

lemma gsup_writeTlv_error:
  "length val > 255 \<Longrightarrow> gsup_writeTlv w tag val = Inl (runtime_error ''GSUP IE value too large'')"
  by (simp add: gsup_writeTlv_def)

lemma gsup_writeTlv1_bytes: "gsup_writeTlv1 w tag v = wr_writeBytes w (ie_tlv tag [v])"
  by (simp add: gsup_writeTlv1_def wr_write8_bytes ie_tlv_def)

lemma gsup_writeOpt_bytes:
  "fits v \<Longrightarrow> gsup_writeOpt tag v w = Inr (wr_writeBytes w (ie_opt tag v))"
  by (simp add: gsup_writeOpt_def ie_opt_def fits_def gsup_writeTlv_bytes split: option.splits)

lemma gsup_writeOpt1_bytes:
  "gsup_writeOpt1 tag v w = wr_writeBytes w (ie_opt tag (map_option (\<lambda>x. [x]) v))"
  by (simp add: gsup_writeOpt1_def ie_opt_def gsup_writeTlv1_bytes split: option.split)

lemma gsup_writeFlag_bytes: "gsup_writeFlag tag b w = wr_writeBytes w (ie_flag tag b)"
  by (simp add: gsup_writeFlag_def ie_flag_def ie_tlv_def wr_write8_bytes)

lemmas gsup_write_bytes =
  gsup_writeTlv_bytes gsup_writeTlv1_bytes gsup_writeOpt_bytes gsup_writeOpt1_bytes
  gsup_writeFlag_bytes

subsection \<open>Nested elements\<close>

definition authTuple_body :: "AuthTuple \<Rightarrow> bytes" where
  "authTuple_body t =
     ie_tlv IeTag_Rand (at_rand t) @ ie_tlv IeTag_Sres (at_sres t) @ ie_tlv IeTag_Kc (at_kc t) @
     ie_opt IeTag_Ik (at_ik t) @ ie_opt IeTag_Ck (at_ck t) @ ie_opt IeTag_Autn (at_autn t) @
     ie_opt IeTag_Res (at_res t)"

definition pdpInfo_body :: "PdpInfo \<Rightarrow> bytes" where
  "pdpInfo_body p =
     ie_tlv IeTag_PdpContextId [contextId p] @
     ie_opt IeTag_PdpType (map_option (\<lambda>t. [ucast (drop_bit 8 t), ucast (t AND 0xFF)]) (pdpType p)) @
     ie_opt IeTag_AccessPointName (map_option (map of_char) (apn p)) @
     ie_opt IeTag_PdpAddress (pdpAddress p) @ ie_opt IeTag_PdpQos (qos p)"

text \<open>The back-patched length octet holds the length of the body when that fits an octet.\<close>

lemma nested_patch:
  assumes "w2 = wr_writeBytes w0 [tag, 0]" and "off = length (wr_buf w0) + 1"
    and "start = length (wr_buf w2)"
  shows "wr_patch8 (wr_writeBytes w2 body) off (of_nat (wr_size (wr_writeBytes w2 body) - start)) =
      Inr (wr_writeBytes w0 (ie_tlv tag body))"
  using wr_patch8_bytes [of off w0 "[tag]" 0 body "of_nat (length body)"] assms
  by (simp add: wr_size_def ie_tlv_def writer_simps)

lemma body_fits:
  assumes "length (authTuple_body t) \<le> 255"
  shows "length (at_rand t) \<le> 255" "length (at_sres t) \<le> 255" "length (at_kc t) \<le> 255"
    "fits (at_ik t)" "fits (at_ck t)" "fits (at_autn t)" "fits (at_res t)"
  using assms by (auto simp: authTuple_body_def fits_def split: option.splits)

lemma encodeAuthTuple_bytes:
  assumes "length (at_rand t) \<le> 255" "length (at_sres t) \<le> 255" "length (at_kc t) \<le> 255"
    "fits (at_ik t)" "fits (at_ck t)" "fits (at_autn t)" "fits (at_res t)"
  shows "encodeAuthTuple t w = Inr (wr_writeBytes w (ie_tlv IeTag_AuthTuple (authTuple_body t)))"
proof -
  have "wr_writeBytes (wr_writeBytes w [IeTag_AuthTuple, 0]) (authTuple_body t) =
      wr_writeBytes w (IeTag_AuthTuple # 0 # authTuple_body t)"
    by simp
  then show ?thesis
    using nested_patch [OF refl refl refl, of w IeTag_AuthTuple "authTuple_body t"]
    by (simp add: encodeAuthTuple_def Let_def wr_reserveLen8_def gsup_write_bytes assms
        wr_size_def wr_write8_bytes writer_simps authTuple_body_def flip: wr_writeBytes_def)
qed

lemma pdp_body_fits:
  assumes "length (pdpInfo_body p) \<le> 255"
  shows "fits (map_option (map of_char) (apn p))" "fits (pdpAddress p)" "fits (qos p)"
    "fits (map_option (\<lambda>t. [ucast (drop_bit 8 t), ucast (t AND 0xFF)]) (pdpType p))"
  using assms by (auto simp: pdpInfo_body_def fits_def split: option.splits)

lemma encodePdpInfo_bytes:
  assumes "length (pdpInfo_body p) \<le> 255"
  shows "encodePdpInfo p w = Inr (wr_writeBytes w (ie_tlv IeTag_PdpInfo (pdpInfo_body p)))"
  using nested_patch [OF refl refl refl, of w IeTag_PdpInfo "pdpInfo_body p"]
  by (simp add: encodePdpInfo_def Let_def wr_reserveLen8_def gsup_write_bytes pdp_body_fits [OF assms]
      wr_size_def wr_write8_bytes writer_simps pdpInfo_body_def flip: wr_writeBytes_def)

lemma foldM_writes:
  assumes "\<And>x w. x \<in> set xs \<Longrightarrow> f x w = Inr (wr_writeBytes w (enc x))"
  shows "foldM f xs w = Inr (wr_writeBytes w (concat (map enc xs)))"
  using assms by (induction xs arbitrary: w) simp_all

subsection \<open>Messages the encoder accepts\<close>

text \<open>
  A message the wire format can carry: the IMSI is empty or 1 to 15 digits, every value fits the
  one-octet length of its element, and so does the body of every nested element.
  \<open>freezePtmsiResult\<close> has no element.
\<close>

definition gsup_wf :: "GsupMessage \<Rightarrow> bool" where
  "gsup_wf m \<longleftrightarrow>
     list_all isDigit (g_imsi m) \<and> length (g_imsi m) \<le> 15 \<and>
     list_all (\<lambda>t. length (authTuple_body t) \<le> 255) (g_authTuples m) \<and>
     list_all (\<lambda>p. length (pdpInfo_body p) \<le> 255) (g_pdpInfoList m) \<and>
     fits (g_msisdn m) \<and> fits (g_hlrNumber m) \<and> \<not> g_freezePtmsiResult m"

definition imsi_ie :: "string \<Rightarrow> bytes" where
  "imsi_ie imsi = (if imsi \<noteq> [] then ie_tlv IeTag_Imsi (packDigits imsi) else [])"

definition gsup_body :: "GsupMessage \<Rightarrow> bytes" where
  "gsup_body m =
     imsi_ie (g_imsi m) @
     ie_opt IeTag_Cause (map_option (\<lambda>x. [x]) (g_cause m)) @
     ie_opt IeTag_NumVectorsReq (map_option (\<lambda>x. [x]) (g_numVectorsRequested m)) @
     concat (map (\<lambda>t. ie_tlv IeTag_AuthTuple (authTuple_body t)) (g_authTuples m)) @
     ie_opt IeTag_Msisdn (g_msisdn m) @ ie_opt IeTag_HlrNumber (g_hlrNumber m) @
     ie_flag IeTag_PdpInfoComplete (g_pdpInfoComplete m) @
     concat (map (\<lambda>p. ie_tlv IeTag_PdpInfo (pdpInfo_body p)) (g_pdpInfoList m)) @
     ie_opt IeTag_CancelType (map_option (\<lambda>x. [x]) (g_cancelType m)) @
     ie_flag IeTag_FreezePtmsi (g_freezePtmsi m) @
     ie_opt IeTag_CnDomain (map_option (\<lambda>x. [x]) (g_cnDomain m))"

lemma gsup_imsi_write:
  assumes "list_all isDigit imsi" and "length imsi \<le> 15"
  shows "(if imsi \<noteq> [] then rbind (gsup_imsiToBcd imsi) (\<lambda>bcd. gsup_writeTlv w IeTag_Imsi bcd) else Inr w) =
    Inr (wr_writeBytes w (imsi_ie imsi))"
  using assms by (simp add: gsup_imsiToBcd_def imsi_ie_def gsup_writeTlv_bytes length_packDigits)

lemma gsup_encode_bytes:
  assumes "gsup_wf m"
  shows "gsup_encode m = Inr (g_type m # gsup_body m)"
proof -
  have tuples: "foldM encodeAuthTuple (g_authTuples m) w =
      Inr (wr_writeBytes w (concat (map (\<lambda>t. ie_tlv IeTag_AuthTuple (authTuple_body t)) (g_authTuples m))))" for w
    using assms by (intro foldM_writes encodeAuthTuple_bytes body_fits) (auto simp: gsup_wf_def list_all_iff)
  have pdps: "foldM encodePdpInfo (g_pdpInfoList m) w =
      Inr (wr_writeBytes w (concat (map (\<lambda>p. ie_tlv IeTag_PdpInfo (pdpInfo_body p)) (g_pdpInfoList m))))" for w
    using assms by (intro foldM_writes encodePdpInfo_bytes) (auto simp: gsup_wf_def list_all_iff)
  from assms show ?thesis
    unfolding gsup_encode_def Let_def
    by (subst gsup_imsi_write)
      (simp_all add: gsup_wf_def gsup_write_bytes tuples pdps gsup_body_def wr_write8_bytes writer_simps)
qed

text \<open>Without authentication vectors and PDP contexts a message is short.\<close>

lemma length_gsup_plain:
  assumes "gsup_wf m" and "g_authTuples m = []" and "g_pdpInfoList m = []" and "gsup_encode m = Inr bs"
  shows "length bs \<le> 600"
proof -
  have octet: "length (ie_opt tag (map_option (\<lambda>x. [x]) v)) \<le> 3" for tag v by (simp split: option.split)
  have flag: "length (ie_flag tag b) \<le> 2" for tag b by (simp add: ie_flag_def)
  have opt: "length (ie_opt tag v) \<le> 257" if "fits v" for tag v using that by (simp add: fits_def split: option.splits)
  have imsi: "length (imsi_ie (g_imsi m)) \<le> 10" using assms(1) by (auto simp: imsi_ie_def length_packDigits gsup_wf_def)
  have "fits (g_msisdn m)" "fits (g_hlrNumber m)" using assms(1) by (simp_all add: gsup_wf_def)
  note parts = imsi opt [OF this(1), of IeTag_Msisdn] opt [OF this(2), of IeTag_HlrNumber]
    octet [of IeTag_Cause "g_cause m"] octet [of IeTag_NumVectorsReq "g_numVectorsRequested m"]
    octet [of IeTag_CancelType "g_cancelType m"] octet [of IeTag_CnDomain "g_cnDomain m"]
    flag [of IeTag_PdpInfoComplete "g_pdpInfoComplete m"] flag [of IeTag_FreezePtmsi "g_freezePtmsi m"]
  have "bs = g_type m # gsup_body m" using assms(1,4) by (simp add: gsup_encode_bytes)
  then show ?thesis using parts assms(2,3) by (simp add: gsup_body_def del: length_ie)
qed

section \<open>What the decoder makes of it\<close>

lemma sub_ies_end: "sub_ies upd (rd_at pre []) s = Inr s"
  by (simp add: sub_ies.simps reader_simps)

interpretation sub: tlv_loop "sub_ies upd" for upd
  by unfold_locales (rule sub_ies_end)

lemma sub_ies_tlv:
  assumes "length val \<le> 255"
  shows "sub.consumes (\<lambda>t v s. Inr (upd t v s)) (ie_tlv tag val) (upd tag val)"
proof (rule sub.consumesI)
  fix pre rest s
  have "rd_readBytes (rd_at (pre @ [tag, of_nat (length val)]) (val @ rest)) (length val) =
      Inr (val, rd_at (pre @ [tag, of_nat (length val)] @ val) rest)"
    using rd_readBytes_at [OF refl] by simp
  then show "sub_ies (\<lambda>t v s. Inr (upd t v s)) (rd_at pre (ie_tlv tag val @ rest)) s =
      sub_ies (\<lambda>t v s. Inr (upd t v s)) (rd_at (pre @ ie_tlv tag val) rest) (upd tag val s)"
    using assms by (simp add: sub_ies.simps [of _ "rd_at pre _"] ie_tlv_def reader_simps)
qed

lemma sub_ies_opt:
  assumes "fits v"
  shows "sub.consumes (\<lambda>t v s. Inr (upd t v s)) (ie_opt tag v) (case v of None \<Rightarrow> \<lambda>s. s | Some x \<Rightarrow> upd tag x)"
  unfolding ie_opt_def
  by (rule sub.consumes_option) (use assms in \<open>auto simp: fits_def intro: sub_ies_tlv\<close>)

lemma decodeAuthTuple_body:
  assumes "length (authTuple_body t) \<le> 255"
  shows "decodeAuthTuple (rd_new (authTuple_body t)) = Inr t"
proof -
  note fits = body_fits [OF assms]
  show ?thesis
    unfolding decodeAuthTuple_def rd_new_at authTuple_body_def
    by (simp only: sub.consumesD [OF sub_ies_tlv [OF fits(1)]] sub.consumesD [OF sub_ies_tlv [OF fits(2)]]
        sub.consumesD [OF sub_ies_tlv [OF fits(3)]] sub.consumesD [OF sub_ies_opt [OF fits(4)]]
        sub.consumesD [OF sub_ies_opt [OF fits(5)]] sub.consumesD [OF sub_ies_opt [OF fits(6)]]
        sub.loop_consumes [OF sub_ies_opt [OF fits(7)]])
      (simp add: authTuple_ie_def AuthTuple_init_def wire_consts split: option.split)
qed

lemma be16_octets:
  "push_bit 8 (ucast (ucast (drop_bit 8 (t :: u16)) :: byte)) OR ucast (ucast (t AND 0xFF) :: byte) = t"
  unfolding mask_numerals by (rule bit_word_eqI) (auto simp: bit_simps)

lemma char_of_octet: "char_of (unat (of_char c :: byte)) = (c :: char)"
proof -
  have "unat (of_nat (of_char c) :: byte) = of_char c"
    by (rule unat_byte_of_nat) simp
  then show ?thesis by (simp only: of_nat_of_char) simp
qed

text \<open>The values of a PDP context are read inside the element.\<close>

definition pdpInfo_upd :: "IeTag \<Rightarrow> bytes \<Rightarrow> PdpInfo \<Rightarrow> PdpInfo" where
  "pdpInfo_upd tag val p =
     (if tag = IeTag_PdpContextId then p\<lparr>contextId := (if val = [] then 0 else val ! 0)\<rparr>
      else if tag = IeTag_PdpType then
        (if length val \<ge> 2 then p\<lparr>pdpType := Some (push_bit 8 (ucast (val ! 0)) OR ucast (val ! 1))\<rparr> else p)
      else if tag = IeTag_AccessPointName then p\<lparr>apn := Some (map (\<lambda>b. char_of (unat b)) val)\<rparr>
      else if tag = IeTag_PdpAddress then p\<lparr>pdpAddress := Some val\<rparr>
      else if tag = IeTag_PdpQos then p\<lparr>qos := Some val\<rparr>
      else p)"

lemma pdpInfo_ie_upd: "pdpInfo_ie = (\<lambda>tag val p. Inr (pdpInfo_upd tag val p))"
proof (intro ext)
  show "pdpInfo_ie tag val p = Inr (pdpInfo_upd tag val p)" for tag val p
    by (cases "length val \<ge> 2") (auto simp: pdpInfo_ie_def pdpInfo_upd_def vec_at_def)
qed

lemma decodePdpInfo_body:
  assumes "length (pdpInfo_body p) \<le> 255"
  shows "decodePdpInfo (rd_new (pdpInfo_body p)) = Inr p"
proof -
  note fits = pdp_body_fits [OF assms]
  have "length [contextId p] \<le> 255" by simp
  note ctx = sub_ies_tlv [OF this]
  show ?thesis
    unfolding decodePdpInfo_def pdpInfo_ie_upd rd_new_at pdpInfo_body_def
    by (simp only: sub.consumesD [OF ctx] sub.consumesD [OF sub_ies_opt [OF fits(1)]]
        sub.consumesD [OF sub_ies_opt [OF fits(2)]] sub.consumesD [OF sub_ies_opt [OF fits(4)]]
        sub.loop_consumes [OF sub_ies_opt [OF fits(3)]])
      (simp add: pdpInfo_upd_def PdpInfo_init_def wire_consts be16_octets char_of_octet comp_def
        split: option.split)
qed

subsection \<open>Top-level elements\<close>

lemma gsup_ies_end: "gsup_ies (rd_at pre []) m = Inr m"
  by (simp add: gsup_ies.simps reader_simps)

interpretation gsup: tlv_loop gsup_ies
  by unfold_locales (rule gsup_ies_end)

lemma gsup_ies_head:
  "gsup_ies (rd_at pre (tag # len # xs)) m =
     (if length xs < unat len then Inl (runtime_error ''GSUP: IE length exceeds payload'')
      else rbind (gsup_ie tag len (rd_at (pre @ [tag, len]) xs) m) (\<lambda>(m', r). gsup_ies r m'))"
  by (subst gsup_ies.simps) (simp add: reader_simps)

lemma gsup_ies_short: "gsup_ies (rd_at pre [tag]) m = Inl (runtime_error ''GSUP: truncated IE header'')"
  by (subst gsup_ies.simps) (simp add: reader_simps)

lemma gsup_ies_elem:
  assumes "length val \<le> 255"
    and "\<And>pre rest m. gsup_ie tag (of_nat (length val)) (rd_at pre (val @ rest)) m = Inr (f m, rd_at (pre @ val) rest)"
  shows "gsup.consumes (ie_tlv tag val) f"
proof (rule gsup.consumesI)
  fix pre rest m
  show "gsup_ies (rd_at pre (ie_tlv tag val @ rest)) m = gsup_ies (rd_at (pre @ ie_tlv tag val) rest) (f m)"
    using assms by (simp add: gsup_ies_head ie_tlv_def)
qed

lemma skip_tail_1 [simp]: "skip_tail 1 r = Inr r"
  by (simp add: skip_tail_def)

lemma octet_ie_1: "octet_ie 1 (rd_at pre (v # rest)) upd s = Inr (upd v s, rd_at (pre @ [v]) rest)"
  by (simp add: octet_ie_def reader_simps)

lemma gsup_bytes_elem:
  assumes "length val \<le> 255"
  shows "gsup.consumes (ie_tlv IeTag_Msisdn val) (\<lambda>m. m\<lparr>g_msisdn := Some val\<rparr>)"
    and "gsup.consumes (ie_tlv IeTag_HlrNumber val) (\<lambda>m. m\<lparr>g_hlrNumber := Some val\<rparr>)"
  using assms by (auto intro!: gsup_ies_elem simp: gsup_ie_def wire_consts rd_readBytes_at)

lemma gsup_flag_elem:
  "gsup.consumes (ie_tlv IeTag_PdpInfoComplete []) (\<lambda>m. m\<lparr>g_pdpInfoComplete := True\<rparr>)"
  "gsup.consumes (ie_tlv IeTag_FreezePtmsi []) (\<lambda>m. m\<lparr>g_freezePtmsi := True\<rparr>)"
  using rd_readBytes_at [of "[]" 0]
  by (auto intro!: gsup_ies_elem simp: gsup_ie_def wire_consts)

lemma gsup_octet_elem:
  "gsup.consumes (ie_tlv IeTag_Cause [v]) (\<lambda>m. m\<lparr>g_cause := Some v\<rparr>)"
  "gsup.consumes (ie_tlv IeTag_CancelType [v]) (\<lambda>m. m\<lparr>g_cancelType := Some v\<rparr>)"
  "gsup.consumes (ie_tlv IeTag_NumVectorsReq [v]) (\<lambda>m. m\<lparr>g_numVectorsRequested := Some v\<rparr>)"
  "gsup.consumes (ie_tlv IeTag_CnDomain [v]) (\<lambda>m. m\<lparr>g_cnDomain := Some v\<rparr>)"
  by (auto intro!: gsup_ies_elem simp: gsup_ie_def wire_consts octet_ie_1 reader_simps)

lemma gsup_tuple_elem:
  assumes "length (authTuple_body t) \<le> 255"
  shows "gsup.consumes (ie_tlv IeTag_AuthTuple (authTuple_body t)) (\<lambda>m. m\<lparr>g_authTuples := g_authTuples m @ [t]\<rparr>)"
  using assms decodeAuthTuple_body [OF assms]
  by (intro gsup_ies_elem) (simp_all add: gsup_ie_def wire_consts rd_slice_at)

lemma gsup_pdp_elem:
  assumes "length (pdpInfo_body p) \<le> 255"
  shows "gsup.consumes (ie_tlv IeTag_PdpInfo (pdpInfo_body p)) (\<lambda>m. m\<lparr>g_pdpInfoList := g_pdpInfoList m @ [p]\<rparr>)"
  using assms decodePdpInfo_body [OF assms]
  by (intro gsup_ies_elem) (simp_all add: gsup_ie_def wire_consts rd_slice_at)

lemma gsup_imsi_elem:
  assumes "list_all isDigit imsi" and "length imsi \<le> 15"
  shows "gsup.consumes (imsi_ie imsi) (if imsi \<noteq> [] then (\<lambda>m. m\<lparr>g_imsi := imsi\<rparr>) else (\<lambda>m. m))"
  unfolding imsi_ie_def
proof (rule gsup.consumes_if, rule gsup_ies_elem)
  show "length (packDigits imsi) \<le> 255" using assms(2) by (simp add: length_packDigits)
  then show "gsup_ie IeTag_Imsi (of_nat (length (packDigits imsi))) (rd_at pre (packDigits imsi @ rest)) m =
      Inr (m\<lparr>g_imsi := imsi\<rparr>, rd_at (pre @ packDigits imsi) rest)" for pre rest m
    using assms(1) by (simp add: gsup_ie_def rd_readBytes_at gsup_bcdToImsi_def unpackDigits_packDigits)
qed

lemma gsup_ies_unknown:
  assumes "length val = unat len" and "tag \<in> {0x0a, 0x0f, 0x26, 0x40}"
  shows "gsup_ies (rd_at pre (tag # len # val)) m = Inr m"
proof -
  have read: "rd_readBytes (rd_at (pre @ [tag, len]) val) (unat len) =
      Inr (val, rd_at (pre @ [tag, len] @ val) [])"
    using rd_readBytes_at [OF assms(1), of "pre @ [tag, len]" "[]"] by simp
  have "gsup_ie tag len (rd_at (pre @ [tag, len]) val) m = Inr (m, rd_at (pre @ [tag, len] @ val) [])"
    using assms(2) read by (elim insertE) (simp_all add: gsup_ie_def wire_consts)
  then show ?thesis using assms(1) by (simp add: gsup_ies_head gsup_ies_end)
qed

subsection \<open>Whole messages\<close>

lemma fold_push_tuples:
  "fold (\<lambda>t m. m\<lparr>g_authTuples := g_authTuples m @ [t]\<rparr>) ts m = m\<lparr>g_authTuples := g_authTuples m @ ts\<rparr>"
  by (induction ts arbitrary: m) simp_all

lemma fold_push_pdps:
  "fold (\<lambda>p m. m\<lparr>g_pdpInfoList := g_pdpInfoList m @ [p]\<rparr>) ps m = m\<lparr>g_pdpInfoList := g_pdpInfoList m @ ps\<rparr>"
  by (induction ps arbitrary: m) simp_all

text \<open>An optional element overwrites its field when present; a flag can only set it.\<close>

definition opt_or :: "'a option \<Rightarrow> 'a option \<Rightarrow> 'a option" where
  "opt_or v d = (case v of None \<Rightarrow> d | Some x \<Rightarrow> Some x)"

lemma opt_or_simps [simp]: "opt_or None = (\<lambda>d. d)" "opt_or (Some x) = (\<lambda>_. Some x)" "opt_or v None = v"
  by (simp_all add: opt_or_def fun_eq_iff split: option.split)

lemma gsup_opt_elem:
  assumes "\<And>x. v = Some x \<Longrightarrow> gsup.consumes (ie_tlv tag (g x)) (upd (\<lambda>_. Some x))"
    and "\<And>s. upd (\<lambda>d. d) s = s"
  shows "gsup.consumes (ie_opt tag (map_option g v)) (upd (opt_or v))"
proof (cases v)
  case None
  have "upd (\<lambda>d. d) = (\<lambda>s. s)" using assms(2) by (rule ext)
  with None show ?thesis by (simp add: ie_opt_def gsup.consumes_Nil)
next
  case (Some x)
  with assms(1) show ?thesis by (simp add: ie_opt_def)
qed

lemmas gsup_opt_octet =
  gsup_opt_elem [where g = "\<lambda>x. [x]" and upd = g_cause_update, OF gsup_octet_elem(1)]
  gsup_opt_elem [where g = "\<lambda>x. [x]" and upd = g_cancelType_update, OF gsup_octet_elem(2)]
  gsup_opt_elem [where g = "\<lambda>x. [x]" and upd = g_numVectorsRequested_update, OF gsup_octet_elem(3)]
  gsup_opt_elem [where g = "\<lambda>x. [x]" and upd = g_cnDomain_update, OF gsup_octet_elem(4)]

lemma gsup_opt_bytes:
  assumes "fits v"
  shows "gsup.consumes (ie_opt IeTag_Msisdn v) (g_msisdn_update (opt_or v))"
    and "gsup.consumes (ie_opt IeTag_HlrNumber v) (g_hlrNumber_update (opt_or v))"
proof -
  have "\<And>x. v = Some x \<Longrightarrow> length x \<le> 255" using assms by (simp add: fits_def)
  then show "gsup.consumes (ie_opt IeTag_Msisdn v) (g_msisdn_update (opt_or v))"
    "gsup.consumes (ie_opt IeTag_HlrNumber v) (g_hlrNumber_update (opt_or v))"
    using gsup_opt_elem [where g = "\<lambda>x. x" and v = v and upd = g_msisdn_update, OF gsup_bytes_elem(1)]
      gsup_opt_elem [where g = "\<lambda>x. x" and v = v and upd = g_hlrNumber_update, OF gsup_bytes_elem(2)]
    by (simp_all add: option.map_ident)
qed

lemma gsup_flags:
  "gsup.consumes (ie_flag IeTag_PdpInfoComplete b) (g_pdpInfoComplete_update (\<lambda>x. x \<or> b))"
  "gsup.consumes (ie_flag IeTag_FreezePtmsi b) (g_freezePtmsi_update (\<lambda>x. x \<or> b))"
proof -
  have "g_pdpInfoComplete_update (\<lambda>x. x) = (\<lambda>s. s)" "g_freezePtmsi_update (\<lambda>x. x) = (\<lambda>s. s)"
    by (simp_all add: fun_eq_iff)
  note id = this
  show "gsup.consumes (ie_flag IeTag_PdpInfoComplete b) (g_pdpInfoComplete_update (\<lambda>x. x \<or> b))"
    by (cases b) (simp_all add: ie_flag_def id gsup_flag_elem gsup.consumes_Nil)
  show "gsup.consumes (ie_flag IeTag_FreezePtmsi b) (g_freezePtmsi_update (\<lambda>x. x \<or> b))"
    by (cases b) (simp_all add: ie_flag_def id gsup_flag_elem gsup.consumes_Nil)
qed

lemma gsup_ies_body_rest:
  assumes "gsup_wf m"
  shows "gsup_ies (rd_at pre (gsup_body m @ rest)) (GsupMessage_init\<lparr>g_type := g_type m\<rparr>) =
    gsup_ies (rd_at (pre @ gsup_body m) rest) m"
proof -
  have imsi: "gsup.consumes (imsi_ie (g_imsi m)) (if g_imsi m \<noteq> [] then (\<lambda>x. x\<lparr>g_imsi := g_imsi m\<rparr>) else (\<lambda>x. x))"
    using assms by (intro gsup_imsi_elem) (simp_all add: gsup_wf_def)
  have tuples: "gsup.consumes (concat (map (\<lambda>t. ie_tlv IeTag_AuthTuple (authTuple_body t)) (g_authTuples m)))
      (fold (\<lambda>t m. m\<lparr>g_authTuples := g_authTuples m @ [t]\<rparr>) (g_authTuples m))"
    using assms by (intro gsup.consumes_concat gsup_tuple_elem) (auto simp: gsup_wf_def list_all_iff)
  have pdps: "gsup.consumes (concat (map (\<lambda>p. ie_tlv IeTag_PdpInfo (pdpInfo_body p)) (g_pdpInfoList m)))
      (fold (\<lambda>p m. m\<lparr>g_pdpInfoList := g_pdpInfoList m @ [p]\<rparr>) (g_pdpInfoList m))"
    using assms by (intro gsup.consumes_concat gsup_pdp_elem) (auto simp: gsup_wf_def list_all_iff)
  have fit: "fits (g_msisdn m)" "fits (g_hlrNumber m)" using assms by (simp_all add: gsup_wf_def)
  note elems = imsi tuples pdps gsup_opt_bytes(1) [OF fit(1)] gsup_opt_bytes(2) [OF fit(2)]
    gsup_flags gsup_opt_octet [simplified]
  show ?thesis
    unfolding gsup_body_def append_assoc
    by (simp only: elems [THEN gsup.consumesD] append_assoc)
      (use assms in \<open>cases m; simp add: fold_push_tuples fold_push_pdps GsupMessage_init_def gsup_wf_def\<close>)
qed

lemma gsup_ies_body:
  assumes "gsup_wf m"
  shows "gsup_ies (rd_at pre (gsup_body m)) (GsupMessage_init\<lparr>g_type := g_type m\<rparr>) = Inr m"
  using gsup_ies_body_rest [OF assms, of pre "[]"] by (simp add: gsup_ies_end)

lemma gsup_decode_Cons: "gsup_decode (t # bs) = gsup_ies (rd_at [t] bs) (GsupMessage_init\<lparr>g_type := t\<rparr>)"
  by (simp add: gsup_decode_def rd_new_at reader_simps)

lemma gsup_roundtrip: "gsup_wf m \<Longrightarrow> rbind (gsup_encode m) gsup_decode = Inr m"
  by (simp add: gsup_encode_bytes gsup_decode_Cons gsup_ies_body)

section \<open>ISDN digit strings\<close>

lemma isdn_digits_pack: "list_all isDigit s \<Longrightarrow> concat (map isdnOctetDigits (packDigits s)) = s"
proof (induction s rule: packDigits.induct)
  case (2 c)
  then have "isDigit c" by simp
  note digitVal_bounds [OF this] digitChar_Val [OF this]
  moreover from this have "(240 OR digitVal c) AND 15 = digitVal c"
    "drop_bit 4 (240 OR digitVal c) AND 15 = 15"
    using nibble_low [of "digitVal c" 15] nibble_high [of "digitVal c" 15] by simp_all
  ultimately show ?case by (simp add: Let_def isdnOctetDigits_def)
next
  case (3 c d cs)
  then have "isDigit c" "isDigit d" by simp_all
  note digitVal_bounds [OF this(1)] digitVal_bounds [OF this(2)]
    digitChar_Val [OF this(1)] digitChar_Val [OF this(2)]
  with 3 show ?case by (simp add: Let_def isdnOctetDigits_def nibble_low nibble_high del: drop_bit_or)
qed simp

section \<open>Decoded messages\<close>

text \<open>Whatever is decoded, the IMSI consists of digits only.\<close>

lemma gsup_ie_digits:
  assumes "gsup_ie tag n r m = Inr (m', r')" and "list_all isDigit (g_imsi m)"
  shows "list_all isDigit (g_imsi m')"
  using assms unfolding gsup_ie_def
  by (auto simp: rbind_Inr_iff octet_ie_def gsup_bcdToImsi_def dest: unpackDigits_digits split: if_splits)

lemma gsup_ies_digits:
  "gsup_ies r m = Inr m' \<Longrightarrow> list_all isDigit (g_imsi m) \<Longrightarrow> list_all isDigit (g_imsi m')"
proof (induction r m rule: gsup_ies.induct)
  case (1 r m)
  from "1.prems" show ?case
    by (subst (asm) gsup_ies.simps)
      (auto simp: rbind_Inr_iff split: if_splits intro: "1.IH" [OF _ _ _ refl _ refl] dest: gsup_ie_digits)
qed

section \<open>No undefined behaviour\<close>

lemma no_ub_sub_ies: "(\<And>t v s. no_ub (upd t v s)) \<Longrightarrow> no_ub (sub_ies upd r s)"
proof (induction upd r s rule: sub_ies.induct)
  case (1 upd r s)
  show ?case
    by (subst sub_ies.simps) (auto intro!: no_ub_rbind "1.prems" intro: "1.IH" [OF _ _ refl _ refl _ refl])
qed

lemma no_ub_pdpInfo_ie: "no_ub (pdpInfo_ie tag val p)"
  by (simp add: pdpInfo_ie_upd)

lemma no_ub_gsup_ie: "no_ub (gsup_ie tag n r m)"
  unfolding gsup_ie_def octet_ie_def skip_tail_def gsup_bcdToImsi_def decodeAuthTuple_def decodePdpInfo_def
  by (intro no_ub_intros; simp add: no_ub_unpackDigits no_ub_sub_ies no_ub_pdpInfo_ie)

lemma no_ub_gsup_ies: "no_ub (gsup_ies r m)"
proof (induction r m rule: gsup_ies.induct)
  case (1 r m)
  show ?case
    by (subst gsup_ies.simps) (auto intro!: no_ub_rbind no_ub_gsup_ie intro: 1 [OF _ _ _ refl _ refl])
qed

lemma no_ub_gsup_decode: "no_ub (gsup_decode bs)"
  by (auto simp: gsup_decode_def intro!: no_ub_rbind no_ub_gsup_ies)

text \<open>
  The encoder patches an octet it has reserved: every write in between makes the buffer longer, so
  that the offset stays inside.
\<close>

definition wr_grows :: "BufferWriter \<Rightarrow> BufferWriter result \<Rightarrow> bool" where
  "wr_grows w r \<longleftrightarrow> (case r of Inr w' \<Rightarrow> length (wr_buf w) \<le> length (wr_buf w') | Inl e \<Rightarrow> is_std_exception e)"

lemma wr_grows_rbind:
  "wr_grows w m \<Longrightarrow> (\<And>w'. length (wr_buf w) \<le> length (wr_buf w') \<Longrightarrow> wr_grows w (f w')) \<Longrightarrow> wr_grows w (rbind m f)"
  by (cases m) (simp_all add: wr_grows_def)

lemma wr_grows_no_ub: "wr_grows w r \<Longrightarrow> no_ub r"
  by (cases r) (simp_all add: wr_grows_def)

lemma wr_grows_write:
  "length (wr_buf w) \<le> length (wr_buf w') \<Longrightarrow> wr_grows w (gsup_writeTlv w' tag val)"
  "length (wr_buf w) \<le> length (wr_buf w') \<Longrightarrow> wr_grows w (gsup_writeOpt tag v w')"
  by (simp_all add: wr_grows_def gsup_writeTlv_def gsup_writeOpt_def writer_simps split: option.split)

lemma wr_grows_patch:
  "length (wr_buf w) \<le> length (wr_buf w') \<Longrightarrow> off < length (wr_buf w) \<Longrightarrow> wr_grows w (wr_patch8 w' off v)"
  by (simp add: wr_grows_def wr_patch8_def)

lemma no_ub_encodeAuthTuple: "no_ub (encodeAuthTuple t w)"
  unfolding encodeAuthTuple_def Let_def wr_reserveLen8_def prod.case
  by (rule wr_grows_no_ub [where w = "wr_writeBytes w [0, 0]"])
    (intro wr_grows_rbind wr_grows_write wr_grows_patch; simp add: writer_simps)

lemma no_ub_encodePdpInfo: "no_ub (encodePdpInfo p w)"
  unfolding encodePdpInfo_def Let_def wr_reserveLen8_def prod.case
  by (rule wr_grows_no_ub [where w = "wr_writeBytes w [0, 0]"])
    (intro wr_grows_rbind wr_grows_write wr_grows_patch; simp add: writer_simps gsup_writeTlv1_bytes)

lemma no_ub_gsup_encode: "no_ub (gsup_encode m)"
proof -
  have "no_ub (gsup_writeTlv w tag val)" "no_ub (gsup_writeOpt tag v w)" for w tag val v
    using wr_grows_no_ub wr_grows_write order_refl by blast+
  then show ?thesis
    by (auto simp: gsup_encode_def gsup_imsiToBcd_def Let_def
        intro!: no_ub_rbind no_ub_foldM no_ub_encodeAuthTuple no_ub_encodePdpInfo)
qed

section \<open>Properties\<close>

text \<open>
  C24: Every GSUP message the wire format can carry (IMSI empty or up to 15 digits, every value and
  every nested element within the one-octet length) is encoded without an exception, and decoding
  the bytes gives the message back, with all of its authentication tuples, PDP contexts, optional
  fields and flags.
\<close>

theorem gsup_decode_encode:
  assumes "gsup_wf m"
  shows "\<exists>bs. gsup_encode m = Inr bs \<and> gsup_decode bs = Inr m"
  using gsup_roundtrip [OF assms] by (simp add: rbind_Inr_iff)

theorem gsup_decode_encode_witness:
  "let m = GsupMessage_init\<lparr>g_type := SendAuthInfoResult, g_imsi := ''262010000000001'',
         g_authTuples := [AuthTuple_init\<lparr>at_rand := [1, 2], at_sres := [3], at_res := Some [4]\<rparr>],
         g_pdpInfoList := [PdpInfo_init\<lparr>pdpType := Some 0x121, apn := Some ''internet''\<rparr>],
         g_pdpInfoComplete := True, g_cause := Some 5\<rparr>
   in gsup_wf m \<and> (\<exists>bs. gsup_encode m = Inr bs \<and> gsup_decode bs = Inr m)"
proof -
  let ?m = "GsupMessage_init\<lparr>g_type := SendAuthInfoResult, g_imsi := ''262010000000001'',
         g_authTuples := [AuthTuple_init\<lparr>at_rand := [1, 2], at_sres := [3], at_res := Some [4]\<rparr>],
         g_pdpInfoList := [PdpInfo_init\<lparr>pdpType := Some 0x121, apn := Some ''internet''\<rparr>],
         g_pdpInfoComplete := True, g_cause := Some 5\<rparr>"
  have "gsup_wf ?m" by code_simp
  then show ?thesis unfolding Let_def using gsup_decode_encode [of ?m] by blast
qed

text \<open>
  What follows a well-formed message.  A single trailing octet and an element whose length
  exceeds the rest of the payload are rejected with their two distinct errors, and an element with
  a tag the decoder does not know is skipped without changing the message.
\<close>

lemma gsup_decode_trailing:
  assumes "gsup_wf m" and "gsup_encode m = Inr bs"
  shows "gsup_decode (bs @ [tag]) = Inl (runtime_error ''GSUP: truncated IE header'') \<and>
    (length val < unat len \<longrightarrow>
       gsup_decode (bs @ [tag, len] @ val) = Inl (runtime_error ''GSUP: IE length exceeds payload'')) \<and>
    (length val = unat len \<and> tag \<in> {0x0a, 0x0f, 0x26, 0x40} \<longrightarrow>
       gsup_decode (bs @ [tag, len] @ val) = Inr m)"
proof -
  have bs: "bs = g_type m # gsup_body m"
    using assms by (simp add: gsup_encode_bytes)
  have body: "gsup_ies (rd_at [g_type m] (gsup_body m @ rest)) (GsupMessage_init\<lparr>g_type := g_type m\<rparr>) =
      gsup_ies (rd_at (g_type m # gsup_body m) rest) m" for rest
    using gsup_ies_body_rest [OF assms(1), of "[g_type m]"] by simp
  have "gsup_decode (bs @ tag # len # val) = gsup_ies (rd_at (g_type m # gsup_body m) (tag # len # val)) m"
    by (simp only: bs append_Cons gsup_decode_Cons body)
  moreover have "gsup_decode (bs @ [tag]) = gsup_ies (rd_at (g_type m # gsup_body m) [tag]) m"
    by (simp only: bs append_Cons gsup_decode_Cons body)
  ultimately show ?thesis
    using gsup_ies_unknown [of val len tag] by (simp add: gsup_ies_short) (simp add: gsup_ies_head)
qed

text \<open>
  The IMSI of a decoded message consists of decimal digits only: a nibble above 9 that is not
  the filler is rejected, so no other character reaches the rest of the proxy.
\<close>

lemma gsup_decode_imsi_digits:
  assumes "gsup_decode bs = Inr m"
  shows "list_all isDigit (g_imsi m)"
proof -
  obtain t cs where bs: "bs = t # cs" using assms by (cases bs) (auto simp: gsup_decode_def)
  show ?thesis
    by (rule gsup_ies_digits [OF assms [unfolded bs gsup_decode_Cons]]) (simp add: GsupMessage_init_def)
qed

text \<open>
  C39: A cause element of length zero makes the decoder read past the element.  After the octets of any
  well-formed message, when another element follows the empty cause, the tag of that element is taken as
  the cause value and decoding goes on at its length octet, which is then read as a tag; at the end of
  the payload the read fails with an out-of-range exception.  An empty element of the other three
  one-octet kinds (cancel type, number of vectors, CN domain) is passed over: nothing is set, and
  decoding goes on at the tag of the element that follows.
\<close>

theorem gsup_empty_cause_overreads:
  assumes "gsup_wf m" and "gsup_encode m = Inr bs"
  shows "gsup_decode (bs @ [IeTag_Cause, 0]) = Inl (out_of_range ''BufferReader: read past end'') \<and>
    gsup_decode (bs @ [IeTag_Cause, 0] @ ie_tlv tag val @ rest) =
      gsup_ies (rd_at (bs @ [IeTag_Cause, 0, tag]) (of_nat (length val) # val @ rest)) (m\<lparr>g_cause := Some tag\<rparr>) \<and>
    (\<forall>t \<in> {IeTag_CancelType, IeTag_NumVectorsReq, IeTag_CnDomain}.
       gsup_decode (bs @ [t, 0]) = Inr m \<and>
       gsup_decode (bs @ [t, 0] @ ie_tlv tag val @ rest) = gsup_ies (rd_at (bs @ [t, 0]) (ie_tlv tag val @ rest)) m)"
proof -
  have bs: "bs = g_type m # gsup_body m" using assms by (simp add: gsup_encode_bytes)
  have body: "gsup_decode (bs @ xs) = gsup_ies (rd_at bs xs) m" for xs
    using gsup_ies_body_rest [OF assms(1), of "[g_type m]" xs] by (simp add: bs gsup_decode_Cons)
  show ?thesis
    unfolding body
    by (simp add: gsup_ies_head gsup_ies_end reader_simps gsup_ie_def wire_consts skip_tail_def octet_ie_def ie_tlv_def)
qed

text \<open>The witness: an empty cause, and an empty cancel type, in front of the CN domain.\<close>

theorem gsup_empty_cause_overreads_witness:
  "gsup_decode ([0x08, 0x01, 0x02, 0x21, 0xF3] @ [0x02, 0x00] @ [0x28, 0x01, 0x01]) =
     Inl (runtime_error ''GSUP: IE length exceeds payload'') \<and>
   gsup_decode ([0x08, 0x01, 0x02, 0x21, 0xF3] @ [0x06, 0x00] @ [0x28, 0x01, 0x01]) =
     Inr (GsupMessage_init\<lparr>g_type := 0x08, g_imsi := ''123'', g_cnDomain := Some 1\<rparr>)"
proof -
  let ?m = "GsupMessage_init\<lparr>g_type := 0x08, g_imsi := ''123''\<rparr>" and ?bs = "[0x08, 0x01, 0x02, 0x21, 0xF3] :: bytes"
  have "gsup_wf ?m" by (simp add: gsup_wf_def GsupMessage_init_def isDigit_def fits_def)
  moreover have "gsup_encode ?m = Inr ?bs" by code_simp
  ultimately show ?thesis
    using gsup_empty_cause_overreads [where m = ?m and bs = ?bs and tag = "0x28" and val = "[1]" and rest = "[]"]
    by (simp add: wire_consts ie_tlv_def gsup_ies_head gsup_ies_end gsup_ie_def octet_ie_def skip_tail_def reader_simps)
qed

text \<open>
  The length octet of an authentication tuple is back-patched with the body length reduced
  modulo 256, without a check: whenever each field fits its own element, the encoder succeeds and
  writes the tag, the wrapped length and the body.  From 256 octets of body on, the length on the
  wire is therefore not the length of the body.
\<close>

lemma gsup_tuple_length_wraps:
  assumes "list_all (\<lambda>v. length v \<le> 255) [at_rand t, at_sres t, at_kc t]"
    and "list_all fits [at_ik t, at_ck t, at_autn t, at_res t]"
  shows "\<exists>len. encodeAuthTuple t w =
      Inr (wr_writeBytes w ([IeTag_AuthTuple, len] @ authTuple_body t)) \<and>
      unat len = length (authTuple_body t) mod 256"
  using encodeAuthTuple_bytes [of t w] assms
  by (intro exI [of _ "of_nat (length (authTuple_body t))"]) (simp add: ie_tlv_def unat_of_nat)

text \<open>
  ISDN address strings survive packing: for a string of digits, unpacking the packed form and
  skipping the type-of-number octet gives the string back.
\<close>

lemma isdn_roundtrip:
  assumes "list_all isDigit digits"
  shows "bcdToIsdn (isdnToBcd digits) = digits"
  using assms by (simp add: bcdToIsdn_def isdnToBcd_def isdn_digits_pack)

end
