(* ===== verification/MapMessage.thy ===== *)
theory MapMessage
  imports Buffer
begin

text \<open>
  \<open>src/map/MapTypes.hpp\<close> and \<open>src/map/MapMessage.hpp\<close>: the constants of MAP and TCAP and the one
  message type that stands for requests, results and errors.  \<open>MapOperation\<close> has the fixed
  underlying type \<open>uint8_t\<close> and is made from received integers by \<open>static_cast\<close>, so it is modelled
  as an octet with one constant for each enumerator; \<open>ComponentType\<close> is only ever assigned an
  enumerator and is a datatype.
\<close>

section \<open>Constants\<close>

type_synonym MapOperation = byte

definition UpdateLocation :: MapOperation where [wire_consts]: "UpdateLocation = 2"
definition CancelLocation :: MapOperation where [wire_consts]: "CancelLocation = 3"
definition InsertSubscriberData :: MapOperation where [wire_consts]: "InsertSubscriberData = 7"
definition DeleteSubscriberData :: MapOperation where [wire_consts]: "DeleteSubscriberData = 8"
definition SendAuthenticationInfo :: MapOperation where [wire_consts]: "SendAuthenticationInfo = 56"
definition UpdateGprsLocation :: MapOperation where [wire_consts]: "UpdateGprsLocation = 23"
definition SendRoutingInfoForGprs :: MapOperation where [wire_consts]: "SendRoutingInfoForGprs = 24"
definition PurgeMS :: MapOperation where [wire_consts]: "PurgeMS = 67"
definition MapOperation_Unknown :: MapOperation where [wire_consts]: "MapOperation_Unknown = 0xFF"

definition kTcapTagUnidirectional :: byte where [wire_consts]: "kTcapTagUnidirectional = 0x61"
definition kTcapTagBegin :: byte where [wire_consts]: "kTcapTagBegin = 0x62"
definition kTcapTagEnd :: byte where [wire_consts]: "kTcapTagEnd = 0x64"
definition kTcapTagContinue :: byte where [wire_consts]: "kTcapTagContinue = 0x65"
definition kTcapTagAbort :: byte where [wire_consts]: "kTcapTagAbort = 0x67"
definition kTcapTagOtid :: byte where [wire_consts]: "kTcapTagOtid = 0x48"
definition kTcapTagDtid :: byte where [wire_consts]: "kTcapTagDtid = 0x49"
definition kTcapTagDialogue :: byte where [wire_consts]: "kTcapTagDialogue = 0x6b"
definition kTcapTagComponents :: byte where [wire_consts]: "kTcapTagComponents = 0x6c"
definition kCompTagInvoke :: byte where [wire_consts]: "kCompTagInvoke = 0xa1"
definition kCompTagReturnResult :: byte where [wire_consts]: "kCompTagReturnResult = 0xa2"
definition kCompTagReturnError :: byte where [wire_consts]: "kCompTagReturnError = 0xa3"
definition kCompTagReject :: byte where [wire_consts]: "kCompTagReject = 0xa4"
definition kBerInt :: byte where [wire_consts]: "kBerInt = 0x02"
definition kBerOctetStr :: byte where [wire_consts]: "kBerOctetStr = 0x04"
definition kBerNull :: byte where [wire_consts]: "kBerNull = 0x05"
definition kBerOid :: byte where [wire_consts]: "kBerOid = 0x06"
definition kBerSequence :: byte where [wire_consts]: "kBerSequence = 0x30"
definition kBerSet :: byte where [wire_consts]: "kBerSet = 0x31"

section \<open>Messages\<close>

record MapAuthTriplet =
  t3_rand :: bytes
  t3_sres :: bytes
  t3_kc :: bytes

record MapAuthQuintuplet =
  q5_rand :: bytes
  q5_xres :: bytes
  q5_ck :: bytes
  q5_ik :: bytes
  q5_autn :: bytes

datatype ComponentType = Invoke | ReturnResult | ReturnError | Reject

record MapMessage =
  m_transactionId :: u32
  m_component :: ComponentType
  m_invokeId :: byte
  m_isLastComponent :: bool
  m_operation :: MapOperation
  m_imsi :: string
  m_numRequestedVectors :: "byte option"
  m_authTriplets :: "MapAuthTriplet list"
  m_authQuintuplets :: "MapAuthQuintuplet list"
  m_sgsnNumber :: "bytes option"
  m_sgsnAddress :: "bytes option"
  m_hlrNumber :: "bytes option"
  m_msisdn :: "bytes option"
  m_cancelType :: "byte option"
  m_freezePtmsi :: bool
  m_errorCode :: "byte option"

definition MapMessage_init :: MapMessage where
  "MapMessage_init = \<lparr>m_transactionId = 0, m_component = Invoke, m_invokeId = 1,
     m_isLastComponent = True, m_operation = MapOperation_Unknown, m_imsi = [],
     m_numRequestedVectors = None, m_authTriplets = [], m_authQuintuplets = [], m_sgsnNumber = None,
     m_sgsnAddress = None, m_hlrNumber = None, m_msisdn = None, m_cancelType = None,
     m_freezePtmsi = False, m_errorCode = None\<rparr>"

text \<open>The enumerators are distinct, in either orientation.\<close>

lemma map_ops_distinct:
  "distinct [UpdateLocation, CancelLocation, InsertSubscriberData, DeleteSubscriberData,
     SendAuthenticationInfo, UpdateGprsLocation, SendRoutingInfoForGprs, PurgeMS, MapOperation_Unknown]"
  "distinct [MapOperation_Unknown, PurgeMS, SendRoutingInfoForGprs, UpdateGprsLocation,
     SendAuthenticationInfo, DeleteSubscriberData, InsertSubscriberData, CancelLocation, UpdateLocation]"
  by (simp_all add: wire_consts)

lemmas map_op_neq [simp] = map_ops_distinct [simplified]

end
