(* ===== verification/BerCodec.thy ===== *)
theory BerCodec
  imports Tlv "HOL-Library.While_Combinator"
begin

text \<open>
  \<open>src/map/BerCodec.cpp\<close>: definite-length BER.  Lengths up to 127 take one octet, up to 65535 the
  forms \<open>0x81\<close> and \<open>0x82\<close>; the reader accepts up to four length octets.  INTEGER contents are
  64-bit two's complement values.
\<close>

section \<open>Length\<close>

definition ber_writeLength :: "BufferWriter \<Rightarrow> nat \<Rightarrow> BufferWriter result" where
  "ber_writeLength w len =
     (if len \<le> 0x7F then Inr (wr_write8 w (of_nat len))
      else if len \<le> 0xFF then Inr (wr_write8 (wr_write8 w 0x81) (of_nat len))
      else if len \<le> 0xFFFF then
        Inr (wr_write8 (wr_write8 (wr_write8 w 0x82) (of_nat (drop_bit 8 len AND 0xFF))) (of_nat (len AND 0xFF)))
      else Inl (runtime_error ''BER: length too large for 2-byte form''))"

text \<open>The loop over the length octets.\<close>

fun ber_lengthOctets :: "nat \<Rightarrow> nat \<Rightarrow> BufferReader \<Rightarrow> (nat \<times> BufferReader) result" where
  "ber_lengthOctets 0 len r = Inr (len, r)"
| "ber_lengthOctets (Suc n) len r =
     rbind (rd_read8 r) (\<lambda>(b, r1). ber_lengthOctets n (push_bit 8 len OR unat b) r1)"

definition ber_readLength :: "BufferReader \<Rightarrow> (nat \<times> BufferReader) result" where
  "ber_readLength r =
     rbind (rd_read8 r) (\<lambda>(first, r1).
     if first \<le> 0x7F then Inr (unat first, r1)
     else if first = 0x80 then Inl (runtime_error ''BER: indefinite-length form not supported'')
     else
       let numBytes = first AND 0x7F in
       if numBytes > 4 then Inl (runtime_error ''BER: length field too large'')
       else ber_lengthOctets (unat numBytes) 0 r1)"

section \<open>Integer\<close>

text \<open>
  The octets of a positive value, least significant first; the code reverses them afterwards.
\<close>

function ber_intOctets :: "u64 \<Rightarrow> bytes" where
  "ber_intOctets uv = (if uv > 0 then ucast (uv AND 0xFF) # ber_intOctets (drop_bit 8 uv) else [])"
  by pat_completeness auto
termination
proof (relation "measure unat", goal_cases)
  case (2 uv)
  then have "0 < unat uv" by (simp add: word_less_nat_alt)
  then show ?case by (simp add: drop_bit_eq_div unat_div_distrib)
qed simp

declare ber_intOctets.simps [simp del]

text \<open>
  The \<open>do ... while\<close> loop for a negative value, with the arithmetic shift \<open>tmp >>= 8\<close>: one round,
  then further rounds until \<open>tmp\<close> is \<open>-1\<close> and the last octet has its sign bit set.
\<close>

definition ber_negStep :: "bytes \<times> u64 \<Rightarrow> bytes \<times> u64" where
  "ber_negStep s = (case s of (be, tmp) \<Rightarrow> (be @ [ucast (tmp AND 0xFF)], signed_drop_bit 8 tmp))"

definition ber_negOctets :: "u64 \<Rightarrow> bytes" where
  "ber_negOctets v =
     fst (while (\<lambda>(be, tmp). tmp \<noteq> -1 \<or> last be AND 0x80 = 0) ber_negStep (ber_negStep ([], v)))"

text \<open>
  For a negative value the code first collects the octets of \<open>-(value + 1)\<close>, then clears them and
  starts again with the loop above; only the latter has an effect.
\<close>

definition encodeInt :: "u64 \<Rightarrow> bytes result" where
  "encodeInt v =
     (if v = 0 then Inr [0x00]
      else if sint v < 0 then Inr (rev (ber_negOctets v))
      else
        let be = rev (ber_intOctets v) in
        rbind (vec_at be 0) (\<lambda>b0. Inr (if b0 AND 0x80 \<noteq> 0 then 0x00 # be else be)))"

text \<open>
  \<open>result = (result << 8) | b\<close> on \<open>int64_t\<close>: bits shifted out are lost, as GCC documents it and C++20
  requires; C++17 leaves it undefined.  This concerns contents of more than eight octets only.
\<close>

definition decodeInt :: "bytes \<Rightarrow> u64 result" where
  "decodeInt val =
     (if val = [] then Inl (runtime_error ''BER: empty INTEGER value'')
      else
        rbind (vec_at val 0) (\<lambda>b0.
        let neg = (b0 AND 0x80 \<noteq> 0);
            res = foldl (\<lambda>res b. push_bit 8 res OR ucast b) 0 val;
            bits = length val * 8
        in if neg \<and> bits < 64 then Inr (res OR - push_bit bits 1) else Inr res))"

section \<open>TLV\<close>

definition ber_writeTlv :: "BufferWriter \<Rightarrow> byte \<Rightarrow> bytes \<Rightarrow> BufferWriter result" where
  "ber_writeTlv w tag val =
     rbind (ber_writeLength (wr_write8 w tag) (length val)) (\<lambda>w1. Inr (wr_writeBytes w1 val))"

definition ber_writeTlvInt :: "BufferWriter \<Rightarrow> byte \<Rightarrow> u64 \<Rightarrow> BufferWriter result" where
  "ber_writeTlvInt w tag v = rbind (encodeInt v) (ber_writeTlv w tag)"

definition ber_writeTlvOctet :: "BufferWriter \<Rightarrow> byte \<Rightarrow> byte \<Rightarrow> BufferWriter" where
  "ber_writeTlvOctet w tag v = wr_write8 (wr_write8 (wr_write8 w tag) 1) v"

definition ber_readTlv :: "BufferReader \<Rightarrow> (byte \<times> bytes \<times> BufferReader) result" where
  "ber_readTlv r =
     rbind (rd_read8 r) (\<lambda>(tag, r1).
     rbind (ber_readLength r1) (\<lambda>(len, r2).
     rbind (rd_readBytes r2 len) (\<lambda>(val, r3). Inr (tag, val, r3))))"

definition ber_wrapConstructed :: "BufferWriter \<Rightarrow> byte \<Rightarrow> bytes \<Rightarrow> BufferWriter result" where
  "ber_wrapConstructed w tag inner =
     rbind (ber_writeLength (wr_write8 w tag) (length inner)) (\<lambda>w1. Inr (wr_writeBytes w1 inner))"

section \<open>Progress\<close>

lemma ber_lengthOctets_advances: "ber_lengthOctets n len r = Inr (k, r') \<Longrightarrow> rd_advances r r'"
  by (induction n arbitrary: len r)
    (auto simp: rbind_Inr_iff dest!: rd_read8_advances intro: rd_advances_trans)

lemma ber_readLength_advances: "ber_readLength r = Inr (k, r') \<Longrightarrow> rd_advances r r'"
  unfolding ber_readLength_def
  by (auto simp: rbind_Inr_iff Let_def split: if_splits
      dest!: rd_read8_advances ber_lengthOctets_advances intro: rd_advances_trans)

lemma ber_readLength_moves: "ber_readLength r = Inr (k, r') \<Longrightarrow> rd_pos r < rd_pos r'"
  unfolding ber_readLength_def
  by (auto simp: rbind_Inr_iff Let_def rd_advances_def split: if_splits
      dest!: rd_read8_advances ber_lengthOctets_advances)

lemma ber_readTlv_advances:
  assumes "ber_readTlv r = Inr (tag, val, r')"
  shows "rd_advances r r' \<and> rd_pos r < rd_pos r'"
proof -
  obtain r1 len r2 where "rd_read8 r = Inr (tag, r1)" "ber_readLength r1 = Inr (len, r2)"
    "rd_readBytes r2 len = Inr (val, r')"
    using assms by (auto simp: ber_readTlv_def rbind_Inr_iff)
  then have "rd_advances r r1 \<and> rd_pos r < rd_pos r1" "rd_advances r1 r2" "rd_advances r2 r'"
    using rd_read8_advances ber_readLength_advances rd_readBytes_advances by blast+
  then show ?thesis by (auto simp: rd_advances_def)
qed

section \<open>The TLV loop\<close>

text \<open>\<open>while (!r.empty()) { t = readTlv(r, val); ... }\<close>, with the loop body as an argument.\<close>

function ber_loop :: "(byte \<Rightarrow> bytes \<Rightarrow> 's \<Rightarrow> 's result) \<Rightarrow> BufferReader \<Rightarrow> 's \<Rightarrow> 's result" where
  "ber_loop body r s =
     (if rd_empty r then Inr s
      else rbind (ber_readTlv r) (\<lambda>(t, val, r1). rbind (body t val s) (\<lambda>s1. ber_loop body r1 s1)))"
  by pat_completeness auto
termination
  by (relation "measure (\<lambda>(body, r, s). rd_remaining r)")
    (auto dest!: ber_readTlv_advances simp: rd_remaining_less)

declare ber_loop.simps [simp del]

section \<open>Lengths round trip\<close>

definition ber_lenBytes :: "nat \<Rightarrow> bytes" where
  "ber_lenBytes n =
     (if n \<le> 0x7F then [of_nat n] else if n \<le> 0xFF then [0x81, of_nat n]
      else [0x82, of_nat (n div 256), of_nat (n mod 256)])"

definition ber_tlv :: "byte \<Rightarrow> bytes \<Rightarrow> bytes" where
  "ber_tlv tag val = tag # ber_lenBytes (length val) @ val"

lemma nat_and_255: "(n :: nat) AND 0xFF = n mod 256"
  using take_bit_eq_mask [of 8 n] by (simp add: take_bit_eq_mod mask_eq_exp_minus_1)

lemma nat_shift_octet: "push_bit 8 (x :: nat) OR unat (b :: byte) = x * 256 + unat b"
proof -
  have "\<not> bit b n" if "8 \<le> n" for n
    using that bit_imp_le_length [of b n] by auto
  then have "push_bit 8 x AND unat b = 0"
    by (auto simp: bit_eq_iff bit_simps)
  then have "push_bit 8 x + unat b = push_bit 8 x OR unat b"
    by (rule disjunctive_add_eq_or)
  then show ?thesis by (simp add: push_bit_eq_mult)
qed

lemma ber_writeLength_bytes:
  assumes "n \<le> 0xFFFF"
  shows "ber_writeLength w n = Inr (wr_writeBytes w (ber_lenBytes n))"
  using assms
  by (simp add: ber_writeLength_def ber_lenBytes_def wr_write8_bytes drop_bit_eq_div nat_and_255)

lemma ber_writeLength_error:
  "n > 0xFFFF \<Longrightarrow> ber_writeLength w n = Inl (runtime_error ''BER: length too large for 2-byte form'')"
  by (simp add: ber_writeLength_def)

lemma ber_lengthOctets_num:
  "ber_lengthOctets (Suc 0) len (rd_at pre (a # rest)) = Inr (len * 256 + unat a, rd_at (pre @ [a]) rest)"
  "ber_lengthOctets 2 len (rd_at pre (a # b # rest)) =
     Inr ((len * 256 + unat a) * 256 + unat b, rd_at (pre @ [a, b]) rest)"
  by (simp_all add: numeral_2_eq_2 reader_simps nat_shift_octet)

lemma ber_readLength_bytes:
  assumes "n \<le> 0xFFFF"
  shows "ber_readLength (rd_at pre (ber_lenBytes n @ rest)) = Inr (n, rd_at (pre @ ber_lenBytes n) rest)"
proof -
  consider "n \<le> 127" | "127 < n" "n \<le> 255" | "255 < n" by linarith
  then show ?thesis
  proof cases
    case 1
    then have "(of_nat n :: byte) \<le> 127" by (simp add: word_le_nat_alt)
    with 1 show ?thesis by (simp add: ber_readLength_def ber_lenBytes_def reader_simps)
  next
    case 2
    then show ?thesis
      by (simp add: ber_readLength_def ber_lenBytes_def reader_simps ber_lengthOctets_num)
  next
    case 3
    have "n div 256 \<le> 255" "n mod 256 \<le> 255" using assms by simp_all
    then have "unat (of_nat (n div 256) :: byte) = n div 256" "unat (of_nat (n mod 256) :: byte) = n mod 256"
      by (simp_all only: unat_byte_of_nat_le)
    with 3 show ?thesis
      by (simp add: ber_readLength_def ber_lenBytes_def reader_simps ber_lengthOctets_num)
  qed
qed

lemma ber_readTlv_bytes:
  "length val \<le> 0xFFFF \<Longrightarrow>
   ber_readTlv (rd_at pre (ber_tlv tag val @ rest)) = Inr (tag, val, rd_at (pre @ ber_tlv tag val) rest)"
  by (simp add: ber_readTlv_def ber_tlv_def reader_simps ber_readLength_bytes rd_readBytes_at)

text \<open>The length that is read stays below \<open>2^32\<close>, so that no position arithmetic wraps.\<close>

lemma ber_lengthOctets_bound:
  "ber_lengthOctets n len r = Inr (k, r') \<Longrightarrow> len < 256 ^ m \<Longrightarrow> k < 256 ^ (m + n)"
proof (induction n arbitrary: len r m)
  case (Suc n)
  then obtain b :: byte and r1 where "ber_lengthOctets n (push_bit 8 len OR unat b) r1 = Inr (k, r')"
    by (auto simp: rbind_Inr_iff)
  moreover have "push_bit 8 len OR unat b < 256 ^ Suc m"
  proof -
    have "len * 256 + unat b < (len + 1) * 256" by simp
    also have "\<dots> \<le> 256 ^ m * 256" using Suc.prems(2) by (intro mult_le_mono1) simp
    finally show ?thesis by (simp add: nat_shift_octet)
  qed
  ultimately show ?case using Suc.IH [of _ _ "Suc m"] by simp
qed simp

lemma readLength_bound:
  assumes "ber_readLength r = Inr (k, r')"
  shows "k < 2 ^ 32"
proof -
  from assms consider b where "k = unat (b :: byte)"
    | n r1 where "(n :: byte) \<le> 4" "ber_lengthOctets (unat n) 0 r1 = Inr (k, r')"
    by (auto simp: ber_readLength_def rbind_Inr_iff Let_def not_less split: if_splits)
  then show ?thesis
  proof cases
    case 1
    then have "k < 256" by simp
    then show ?thesis by (rule less_le_trans) simp
  next
    case 2
    then have "k < 256 ^ unat n" using ber_lengthOctets_bound [of "unat n" 0 r1 k r' 0] by simp
    also have "(256 :: nat) ^ unat n \<le> 256 ^ 4"
      using 2(1) by (intro power_increasing) (simp_all add: word_le_nat_alt)
    finally show ?thesis by simp
  qed
qed

section \<open>Integers round trip\<close>

text \<open>The value of big-endian octets modulo \<open>2^64\<close>.\<close>

definition oct_val :: "bytes \<Rightarrow> u64" where
  "oct_val bs = foldl (\<lambda>res b. push_bit 8 res OR ucast b) 0 bs"

lemma word_shift_octet: "push_bit 8 (x :: u64) OR ucast (b :: byte) = x * 256 + ucast b"
proof -
  have "\<not> bit b n" if "8 \<le> n" for n
    using that bit_imp_le_length [of b n] by auto
  then have "push_bit 8 x AND ucast b = 0"
    by (auto intro!: bit_word_eqI simp: bit_simps)
  then have "push_bit 8 x + ucast b = push_bit 8 x OR ucast b"
    by (rule disjunctive_add_eq_or)
  then show ?thesis by (simp add: push_bit_eq_mult)
qed

lemma foldl_octets: "foldl (\<lambda>res b. push_bit 8 res OR ucast b) x bs = x * 256 ^ length bs + oct_val bs"
proof (induction bs arbitrary: x)
  case (Cons b bs)
  have "oct_val (b # bs) = ucast b * 256 ^ length bs + oct_val bs"
    using Cons.IH [of "ucast b"] by (simp add: oct_val_def)
  then show ?case using Cons.IH [of "push_bit 8 x OR ucast b"]
    by (simp add: word_shift_octet algebra_simps)
qed (simp add: oct_val_def)

lemma oct_val_Nil [simp]: "oct_val [] = 0"
  by (simp add: oct_val_def)

lemma oct_val_Cons: "oct_val (b # bs) = ucast b * 256 ^ length bs + oct_val bs"
  using foldl_octets [of "ucast b" bs] by (simp add: oct_val_def)

lemma oct_val_snoc: "oct_val (bs @ [b]) = oct_val bs * 256 + ucast b"
  by (simp add: oct_val_def word_shift_octet)

lemma decodeInt_val:
  "val \<noteq> [] \<Longrightarrow> decodeInt val =
     Inr (if val ! 0 AND 0x80 \<noteq> 0 \<and> length val * 8 < 64
          then oct_val val OR - push_bit (length val * 8) 1 else oct_val val)"
  by (simp add: decodeInt_def oct_val_def Let_def)

lemma low_octet: "push_bit 8 (drop_bit 8 (v :: u64)) OR ucast (ucast (v AND 0xFF) :: byte) = v" (is "?w = v")
proof (rule bit_word_eqI)
  show "bit ?w n = bit v n" if "n < LENGTH(64)" for n
    unfolding mask_numerals using that by (cases "n < 8") (auto simp: bit_simps)
qed

lemma oct_val_intOctets: "oct_val (rev (ber_intOctets v)) = v"
proof (induction v rule: ber_intOctets.induct)
  case (1 v)
  show ?case
  proof (cases "v > 0")
    case True
    with 1 show ?thesis
      using low_octet [of v] by (simp add: ber_intOctets.simps [of v] oct_val_snoc word_shift_octet)
  next
    case False
    then show ?thesis by (simp add: ber_intOctets.simps [of 0] word_gt_0)
  qed
qed

lemma ber_intOctets_nonempty: "v \<noteq> 0 \<Longrightarrow> ber_intOctets v \<noteq> []"
  by (subst ber_intOctets.simps) (simp add: word_gt_0)

text \<open>The octets \<open>encodeInt\<close> returns: a positive value has at least one.\<close>

definition int_bytes :: "u64 \<Rightarrow> bytes" where
  "int_bytes v =
     (if v = 0 then [0x00]
      else if sint v < 0 then rev (ber_negOctets v)
      else if rev (ber_intOctets v) ! 0 AND 0x80 \<noteq> 0 then 0x00 # rev (ber_intOctets v) else rev (ber_intOctets v))"

lemma encodeInt_bytes: "encodeInt v = Inr (int_bytes v)"
  using ber_intOctets_nonempty [of v] by (simp add: encodeInt_def int_bytes_def Let_def)

lemma decodeInt_positive:
  assumes "v \<noteq> 0" and "\<not> sint v < 0"
  shows "decodeInt (int_bytes v) = Inr v"
  using assms ber_intOctets_nonempty [OF assms(1)]
  by (simp add: int_bytes_def Let_def decodeInt_val oct_val_intOctets oct_val_Cons)

subsection \<open>Negative values\<close>

lemma low_octet_signed: "push_bit 8 (signed_drop_bit 8 (v :: u64)) OR ucast (ucast (v AND 0xFF) :: byte) = v" (is "?w = v")
proof (rule bit_word_eqI)
  show "bit ?w n = bit v n" if "n < LENGTH(64)" for n
    unfolding mask_numerals using that by (cases "n < 8") (auto simp: bit_simps)
qed

text \<open>The loop invariant: the octets so far and the remaining value make up the value.\<close>

definition neg_inv :: "u64 \<Rightarrow> bytes \<times> u64 \<Rightarrow> bool" where
  "neg_inv v s \<longleftrightarrow> (case s of (be, tmp) \<Rightarrow>
     be \<noteq> [] \<and> sint tmp < 0 \<and> v = tmp * 256 ^ length be + oct_val (rev be))"

lemma neg_step_value:
  assumes "v = tmp * 256 ^ length be + oct_val (rev be)"
  shows "v = signed_drop_bit 8 tmp * 256 ^ Suc (length be) + oct_val (rev (be @ [ucast (tmp AND 0xFF)]))"
proof -
  have "tmp = signed_drop_bit 8 tmp * 256 + ucast (ucast (tmp AND 0xFF) :: byte)"
    using low_octet_signed [of tmp] by (simp add: word_shift_octet)
  then have "tmp * 256 ^ length be =
      (signed_drop_bit 8 tmp * 256 + ucast (ucast (tmp AND 0xFF) :: byte)) * 256 ^ length be"
    by simp
  then show ?thesis using assms by (simp add: oct_val_Cons algebra_simps)
qed

lemma sint_shift_neg: "sint tmp < 0 \<Longrightarrow> sint (signed_drop_bit 8 tmp :: u64) < 0"
  by (simp add: sint_signed_drop_bit_eq)

lemma neg_inv_start: "sint v < 0 \<Longrightarrow> neg_inv v (ber_negStep ([], v))"
  using neg_step_value [of v v "[]"] by (simp add: neg_inv_def ber_negStep_def sint_shift_neg)

lemma neg_inv_step: "neg_inv v s \<Longrightarrow> neg_inv v (ber_negStep s)"
  using neg_step_value by (auto simp: neg_inv_def ber_negStep_def sint_shift_neg split: prod.splits)

definition neg_rank :: "bytes \<times> u64 \<Rightarrow> nat" where
  "neg_rank s = (case s of (be, tmp) \<Rightarrow>
     if tmp = -1 then (if last be AND 0x80 = 0 then 1 else 0) else nat (- sint tmp) + 1)"

lemma neg_div_256: "t \<le> -2 \<Longrightarrow> t < t div (256 :: int)"
  using mult_div_mod_eq [of 256 t] pos_mod_bound [of 256 t] by linarith

lemma neg_rank_step:
  assumes "neg_inv v s" and "case s of (be, tmp) \<Rightarrow> tmp \<noteq> -1 \<or> last be AND 0x80 = 0"
  shows "neg_rank (ber_negStep s) < neg_rank s"
proof (cases s)
  case (Pair be tmp)
  show ?thesis
  proof (cases "tmp = -1")
    case True
    then show ?thesis using assms(2) Pair by (simp add: neg_rank_def ber_negStep_def)
  next
    case False
    then have "sint tmp \<noteq> -1" by (metis sint_n1 signed_word_eqI)
    with assms(1) Pair have "sint tmp \<le> -2" by (simp add: neg_inv_def)
    moreover have "sint (signed_drop_bit 8 tmp) = sint tmp div 256"
      by (simp add: sint_signed_drop_bit_eq drop_bit_eq_div)
    ultimately have "sint tmp < sint (signed_drop_bit 8 tmp)" by (simp add: neg_div_256)
    with \<open>sint tmp \<le> -2\<close> have "nat (- sint (signed_drop_bit 8 tmp)) < nat (- sint tmp)" and "2 \<le> nat (- sint tmp)"
      by linarith+
    with False Pair show ?thesis by (simp add: neg_rank_def ber_negStep_def)
  qed
qed

lemma ber_negOctets_value:
  assumes "sint v < 0"
  shows "ber_negOctets v \<noteq> [] \<and> last (ber_negOctets v) AND 0x80 \<noteq> 0 \<and>
    v = - (256 ^ length (ber_negOctets v)) + oct_val (rev (ber_negOctets v))"
  unfolding ber_negOctets_def
proof (rule while_rule [where P = "neg_inv v" and r = "measure neg_rank"])
  show "neg_inv v (ber_negStep ([], v))" using assms by (rule neg_inv_start)
  show "neg_inv v (ber_negStep s)" if "neg_inv v s" for s using that by (rule neg_inv_step)
  show "(ber_negStep s, s) \<in> measure neg_rank"
    if "neg_inv v s" "case s of (be, tmp) \<Rightarrow> tmp \<noteq> -1 \<or> last be AND 0x80 = 0" for s
    using neg_rank_step [OF that] by simp
qed (auto simp: neg_inv_def)

lemma oct_val_bits: "bit (oct_val bs) n \<Longrightarrow> n < 8 * length bs"
proof (induction bs arbitrary: n rule: rev_induct)
  case (snoc b bs)
  then consider "8 \<le> n" "bit (oct_val bs) (n - 8)" | "bit b n"
    by (auto simp: oct_val_def bit_simps)
  then show ?case
  proof cases
    case 1
    then show ?thesis using snoc.IH [of "n - 8"] by auto
  next
    case 2
    then show ?thesis using bit_imp_le_length [of b n] by simp
  qed
qed simp

lemma decodeInt_negative:
  assumes "sint v < 0"
  shows "decodeInt (int_bytes v) = Inr v"
proof -
  let ?b = "ber_negOctets v"
  have b: "?b \<noteq> []" "last ?b AND 0x80 \<noteq> 0" "v = - (256 ^ length ?b) + oct_val (rev ?b)"
    using ber_negOctets_value [OF assms] by blast+
  have pow: "(256 :: u64) ^ length ?b = 2 ^ (length ?b * 8)"
    using power_mult [of "2 :: u64" 8 "length ?b"] by (simp add: mult.commute)
  have "oct_val (rev ?b) OR - (2 ^ (length ?b * 8)) = - (2 ^ (length ?b * 8)) + oct_val (rev ?b)"
  proof -
    have "- (2 ^ (length ?b * 8)) AND oct_val (rev ?b) = 0"
      unfolding minus_exp_eq_not_mask
      by (rule bit_word_eqI) (auto simp: bit_simps dest: oct_val_bits)
    then have "- (2 ^ (length ?b * 8)) + oct_val (rev ?b) = - (2 ^ (length ?b * 8)) OR oct_val (rev ?b)"
      by (rule disjunctive_add_eq_or)
    then show ?thesis by (simp only: or.commute)
  qed
  moreover have "oct_val (rev ?b) = v" if "\<not> length ?b * 8 < 64"
  proof -
    have "(2 :: u64) ^ (length ?b * 8) = 0" using that by (simp only: exp_eq_zero_iff) simp
    with b(3) pow show ?thesis by simp
  qed
  moreover have "v \<noteq> 0" using assms by auto
  ultimately show ?thesis
    using assms b pow
    by (simp add: int_bytes_def decodeInt_val rev_nth last_conv_nth push_bit_eq_mult)
qed

lemma int_roundtrip: "decodeInt (int_bytes v) = Inr v"
proof -
  have "decodeInt (int_bytes 0) = Inr 0" by (simp add: int_bytes_def decodeInt_def)
  then show ?thesis using decodeInt_positive decodeInt_negative by (cases "v = 0") blast+
qed

section \<open>The loop over encoded elements\<close>

interpretation ber: tlv_loop "ber_loop body" for body
  by unfold_locales (simp add: ber_loop.simps reader_simps)

lemma ber_loop_cons:
  assumes "length val \<le> 0xFFFF"
  shows "ber_loop body (rd_at pre (ber_tlv tag val @ rest)) s =
      rbind (body tag val s) (ber_loop body (rd_at (pre @ ber_tlv tag val) rest))"
  using assms by (subst ber_loop.simps) (simp add: ber_readTlv_bytes reader_simps, simp add: ber_tlv_def)

lemma ber_loop_last:
  assumes "length val \<le> 0xFFFF"
  shows "ber_loop body (rd_at pre (ber_tlv tag val)) s = body tag val s"
  using ber_loop_cons [OF assms, of body pre tag "[]" s] ber.loop_done [of body] by (simp cong: rbind_cong)

lemma ber_loop_tlv:
  assumes "length val \<le> 0xFFFF" and "\<And>s. body tag val s = Inr (f s)"
  shows "ber.consumes body (ber_tlv tag val) f"
  by (rule ber.consumesI) (simp add: ber_loop_cons assms)

lemma ber_readTlv_last:
  "length val \<le> 0xFFFF \<Longrightarrow>
   ber_readTlv (rd_at pre (ber_tlv tag val)) = Inr (tag, val, rd_at (pre @ ber_tlv tag val) [])"
  using ber_readTlv_bytes [of val pre tag "[]"] by simp

lemmas ber_loop_simps = ber_loop_cons ber_loop_last ber.loop_done ber_readTlv_bytes ber_readTlv_last

section \<open>What the writers append\<close>

lemma ber_writeTlv_bytes:
  "length val \<le> 0xFFFF \<Longrightarrow> ber_writeTlv w tag val = Inr (wr_writeBytes w (ber_tlv tag val))"
  by (simp add: ber_writeTlv_def ber_writeLength_bytes ber_tlv_def wr_write8_bytes)

lemma ber_wrapConstructed_bytes:
  "length val \<le> 0xFFFF \<Longrightarrow> ber_wrapConstructed w tag val = Inr (wr_writeBytes w (ber_tlv tag val))"
  by (simp add: ber_wrapConstructed_def ber_writeLength_bytes ber_tlv_def wr_write8_bytes)

lemma ber_writeTlvOctet_bytes: "ber_writeTlvOctet w tag v = wr_writeBytes w (ber_tlv tag [v])"
  by (simp add: ber_writeTlvOctet_def ber_tlv_def ber_lenBytes_def wr_write8_bytes)

section \<open>No undefined behaviour\<close>

lemma no_ub_lengthOctets: "no_ub (ber_lengthOctets n len r)"
  by (induction n arbitrary: len r) (auto intro!: no_ub_rbind)

lemma no_ub_readTlv [simp]: "no_ub (ber_readTlv r)"
  by (auto simp: ber_readTlv_def ber_readLength_def Let_def no_ub_lengthOctets intro!: no_ub_rbind)

lemma no_ub_ber_loop: "(\<And>t v s. no_ub (body t v s)) \<Longrightarrow> no_ub (ber_loop body r s)"
  by (induction body r s rule: ber_loop.induct) (subst ber_loop.simps, auto intro!: no_ub_rbind)

lemma no_ub_decodeInt [simp]: "no_ub (decodeInt val)"
  by (simp add: decodeInt_def Let_def)

section \<open>Properties\<close>

text \<open>
  \<open>decodeInt(encodeInt(v)) == v\<close> for every \<open>int64_t\<close> \<open>v\<close>, negative values included, and the encoding
  is never empty; the \<open>do ... while\<close> loop of the negative branch terminates.
\<close>

lemma decodeInt_encodeInt: "\<exists>bs. encodeInt v = Inr bs \<and> bs \<noteq> [] \<and> decodeInt bs = Inr v"
  using int_roundtrip [of v] by (auto simp: encodeInt_bytes decodeInt_def)

text \<open>
  A TLV of up to 65535 octets, written anywhere into a buffer, is read back by \<open>readTlv\<close> with
  the same tag and value, and the cursor stands right behind it.  A longer value is refused with an
  exception when it is written, never truncated.
\<close>

lemma ber_readTlv_writeTlv:
  "ber_writeTlv w tag val =
     (if length val \<le> 0xFFFF then Inr (wr_writeBytes w (ber_tlv tag val))
      else Inl (runtime_error ''BER: length too large for 2-byte form'')) \<and>
   (length val \<le> 0xFFFF \<longrightarrow>
      ber_readTlv (rd_at pre (ber_tlv tag val @ rest)) = Inr (tag, val, rd_at (pre @ ber_tlv tag val) rest))"
  by (simp add: ber_writeTlv_bytes ber_readTlv_bytes) (simp add: ber_writeTlv_def ber_writeLength_error)

text \<open>
  Whatever the input, \<open>readTlv\<close> never reads outside its span: when it returns a value, the value
  is the slice of the span that ends at the new position, the cursor has moved forward by at least
  two octets and not past the end, and the length is below \<open>2^32\<close>.
\<close>

lemma ber_readTlv_in_span:
  assumes "ber_readTlv r = Inr (tag, val, r')"
  shows "rd_data r' = rd_data r \<and> rd_pos r + 2 + length val \<le> rd_pos r' \<and> rd_pos r' \<le> length (rd_data r)
    \<and> length val < 2 ^ 32 \<and> val = take (length val) (drop (rd_pos r' - length val) (rd_data r))"
proof -
  obtain r1 len r2 where h: "rd_read8 r = Inr (tag, r1)" "ber_readLength r1 = Inr (len, r2)"
    "rd_readBytes r2 len = Inr (val, r')"
    using assms by (auto simp: ber_readTlv_def rbind_Inr_iff)
  have "rd_advances r1 r2" "rd_pos r1 < rd_pos r2"
    using ber_readLength_advances [OF h(2)] ber_readLength_moves [OF h(2)] by auto
  with h readLength_bound [OF h(2)] show ?thesis
    by (auto simp: rd_read8_ok rd_readBytes_ok rd_advances_def)
qed

end
