(* ===== verification/MapCodec.thy ===== *)
theory MapCodec
  imports MapMessage BerCodec Bcd
begin

text \<open>
  \<open>src/map/MapCodec.cpp\<close>: MAP operations inside TCAP.  A request is a Begin PDU with an Invoke
  component, an answer an End PDU with a ReturnResultLast or ReturnError component.  The encoders
  build the argument of the operation, the component, the component portion and the PDU from the
  inside out; the decoders are loops over the TLVs of each level.
\<close>

definition value_or :: "'a option \<Rightarrow> 'a \<Rightarrow> 'a" where
  "value_or v d = (case v of None \<Rightarrow> d | Some x \<Rightarrow> x)"

section \<open>IMSI\<close>

definition map_imsiToBcd :: "string \<Rightarrow> bytes" where
  "map_imsiToBcd imsi = packDigits imsi"

definition map_bcdToImsi :: "bytes \<Rightarrow> string result" where
  "map_bcdToImsi bcd = unpackDigits (runtime_error ''MAP: invalid BCD in IMSI'') bcd"

section \<open>Operation argument encoders\<close>

text \<open>\<open>if (v) writeTlv(inner, kBerOctetStr, *v)\<close>\<close>

definition map_writeOpt :: "BufferWriter \<Rightarrow> bytes option \<Rightarrow> BufferWriter result" where
  "map_writeOpt w v = (case v of None \<Rightarrow> Inr w | Some x \<Rightarrow> ber_writeTlv w kBerOctetStr x)"

text \<open>\<open>BufferWriter seq; wrapConstructed(seq, kBerSequence, inner.bytes()); return seq.take();\<close>\<close>

definition map_sequence :: "BufferWriter \<Rightarrow> bytes result" where
  "map_sequence inner =
     rbind (ber_wrapConstructed wr_new kBerSequence (wr_buf inner)) (\<lambda>seq. Inr (wr_buf seq))"

definition encodeSendAuthInfoReq :: "MapMessage \<Rightarrow> bytes result" where
  "encodeSendAuthInfoReq m =
     rbind (ber_writeTlv wr_new kBerOctetStr (map_imsiToBcd (m_imsi m))) (\<lambda>inner.
     rbind (ber_writeTlvInt inner kBerInt (ucast (value_or (m_numRequestedVectors m) 1))) (\<lambda>inner.
     map_sequence inner))"

definition encodeTriplet :: "MapAuthTriplet \<Rightarrow> BufferWriter \<Rightarrow> BufferWriter result" where
  "encodeTriplet t tripletSet =
     rbind (ber_writeTlv wr_new kBerOctetStr (t3_rand t)) (\<lambda>trip.
     rbind (ber_writeTlv trip kBerOctetStr (t3_sres t)) (\<lambda>trip.
     rbind (ber_writeTlv trip kBerOctetStr (t3_kc t)) (\<lambda>trip.
     ber_wrapConstructed tripletSet kBerSequence (wr_buf trip))))"

definition encodeQuintuplet :: "MapAuthQuintuplet \<Rightarrow> BufferWriter \<Rightarrow> BufferWriter result" where
  "encodeQuintuplet q tripletSet =
     rbind (ber_writeTlv wr_new kBerOctetStr (q5_rand q)) (\<lambda>quint.
     rbind (ber_writeTlv quint kBerOctetStr (q5_xres q)) (\<lambda>quint.
     rbind (ber_writeTlv quint kBerOctetStr (q5_ck q)) (\<lambda>quint.
     rbind (ber_writeTlv quint kBerOctetStr (q5_ik q)) (\<lambda>quint.
     rbind (ber_writeTlv quint kBerOctetStr (q5_autn q)) (\<lambda>quint.
     ber_wrapConstructed tripletSet kBerSequence (wr_buf quint))))))"

definition encodeSendAuthInfoRes :: "MapMessage \<Rightarrow> bytes result" where
  "encodeSendAuthInfoRes m =
     rbind (foldM encodeTriplet (m_authTriplets m) wr_new) (\<lambda>tripletSet.
     rbind (foldM encodeQuintuplet (m_authQuintuplets m) tripletSet) (\<lambda>tripletSet.
     map_sequence tripletSet))"

definition encodeUpdateGprsLocationReq :: "MapMessage \<Rightarrow> bytes result" where
  "encodeUpdateGprsLocationReq m =
     rbind (ber_writeTlv wr_new kBerOctetStr (map_imsiToBcd (m_imsi m))) (\<lambda>inner.
     rbind (map_writeOpt inner (m_sgsnNumber m)) (\<lambda>inner.
     rbind (map_writeOpt inner (m_sgsnAddress m)) (\<lambda>inner.
     map_sequence inner)))"

definition encodeUpdateGprsLocationRes :: "MapMessage \<Rightarrow> bytes result" where
  "encodeUpdateGprsLocationRes m =
     rbind (map_writeOpt wr_new (m_hlrNumber m)) (\<lambda>inner. map_sequence inner)"

definition encodeCancelLocationReq :: "MapMessage \<Rightarrow> bytes result" where
  "encodeCancelLocationReq m =
     rbind (ber_writeTlv wr_new kBerOctetStr (map_imsiToBcd (m_imsi m))) (\<lambda>inner.
     map_sequence
       (case m_cancelType m of None \<Rightarrow> inner | Some t \<Rightarrow> ber_writeTlvOctet inner kBerInt t))"

definition encodeInsertSubscriberDataReq :: "MapMessage \<Rightarrow> bytes result" where
  "encodeInsertSubscriberDataReq m =
     rbind (ber_writeTlv wr_new kBerOctetStr (map_imsiToBcd (m_imsi m))) (\<lambda>inner.
     rbind (map_writeOpt inner (m_msisdn m)) (\<lambda>inner.
     map_sequence inner))"

definition encodeDeleteSubscriberDataReq :: "MapMessage \<Rightarrow> bytes result" where
  "encodeDeleteSubscriberDataReq m =
     rbind (ber_writeTlv wr_new kBerOctetStr (map_imsiToBcd (m_imsi m))) (\<lambda>inner.
     map_sequence inner)"

definition encodePurgeMsReq :: "MapMessage \<Rightarrow> bytes result" where
  "encodePurgeMsReq m =
     rbind (ber_writeTlv wr_new kBerOctetStr (map_imsiToBcd (m_imsi m))) (\<lambda>inner.
     rbind (map_writeOpt inner (m_sgsnNumber m)) (\<lambda>inner.
     map_sequence inner))"

definition encodePurgeMsRes :: "MapMessage \<Rightarrow> bytes result" where
  "encodePurgeMsRes m =
     map_sequence (if m_freezePtmsi m then wr_write8 (wr_write8 wr_new kBerNull) 0 else wr_new)"

section \<open>Component encoders\<close>

definition encodeInvoke :: "MapMessage \<Rightarrow> bytes \<Rightarrow> bytes result" where
  "encodeInvoke m args =
     rbind (ber_writeTlvInt wr_new kBerInt (ucast (m_invokeId m))) (\<lambda>body.
     rbind (ber_writeTlvInt body kBerInt (ucast (m_operation m))) (\<lambda>body.
     rbind (ber_wrapConstructed wr_new kCompTagInvoke (wr_buf (wr_writeBytes body args))) (\<lambda>comp.
     Inr (wr_buf comp))))"

definition encodeReturnResult :: "MapMessage \<Rightarrow> bytes \<Rightarrow> bytes result" where
  "encodeReturnResult m res =
     rbind (ber_writeTlvInt wr_new kBerInt (ucast (m_operation m))) (\<lambda>resultInner.
     rbind (ber_wrapConstructed wr_new kBerSequence (wr_buf (wr_writeBytes resultInner res))) (\<lambda>resultSeq.
     rbind (ber_writeTlvInt wr_new kBerInt (ucast (m_invokeId m))) (\<lambda>body.
     rbind (ber_wrapConstructed wr_new kCompTagReturnResult
              (wr_buf (wr_writeBytes body (wr_buf resultSeq)))) (\<lambda>comp.
     Inr (wr_buf comp)))))"

definition encodeReturnError :: "MapMessage \<Rightarrow> bytes result" where
  "encodeReturnError m =
     rbind (ber_writeTlvInt wr_new kBerInt (ucast (m_invokeId m))) (\<lambda>body.
     rbind (ber_writeTlvInt body kBerInt (ucast (value_or (m_errorCode m) 34))) (\<lambda>body.
     rbind (ber_wrapConstructed wr_new kCompTagReturnError (wr_buf body)) (\<lambda>comp.
     Inr (wr_buf comp))))"

section \<open>Main encoder\<close>

text \<open>Steps 1 and 2 of \<open>encode\<close>, its two \<open>switch\<close> statements.\<close>

definition map_encodeArgs :: "MapMessage \<Rightarrow> bytes result" where
  "map_encodeArgs m =
     (if m_operation m = SendAuthenticationInfo then
        (if m_component m = Invoke then encodeSendAuthInfoReq m else encodeSendAuthInfoRes m)
      else if m_operation m = UpdateGprsLocation then
        (if m_component m = Invoke then encodeUpdateGprsLocationReq m else encodeUpdateGprsLocationRes m)
      else if m_operation m = CancelLocation then encodeCancelLocationReq m
      else if m_operation m = InsertSubscriberData then encodeInsertSubscriberDataReq m
      else if m_operation m = DeleteSubscriberData then encodeDeleteSubscriberDataReq m
      else if m_operation m = PurgeMS then
        (if m_component m = Invoke then encodePurgeMsReq m else encodePurgeMsRes m)
      else Inr [])"

definition map_encodeComponent :: "MapMessage \<Rightarrow> bytes \<Rightarrow> bytes result" where
  "map_encodeComponent m args =
     (case m_component m of
        Invoke \<Rightarrow> encodeInvoke m args
      | ReturnResult \<Rightarrow> encodeReturnResult m args
      | ReturnError \<Rightarrow> encodeReturnError m
      | Reject \<Rightarrow> Inl (runtime_error ''MAP: unsupported component type''))"

definition tid_bytes :: "u32 \<Rightarrow> bytes" where
  "tid_bytes tid =
     [ucast (drop_bit 24 tid AND 0xFF), ucast (drop_bit 16 tid AND 0xFF),
      ucast (drop_bit 8 tid AND 0xFF), ucast (tid AND 0xFF)]"

definition map_encode :: "MapMessage \<Rightarrow> bytes result" where
  "map_encode m =
     rbind (map_encodeArgs m) (\<lambda>args.
     rbind (map_encodeComponent m args) (\<lambda>component.
     rbind (ber_wrapConstructed wr_new kTcapTagComponents component) (\<lambda>compPortion.
     let tid = tid_bytes (m_transactionId m);
         isRequest = (m_component m = Invoke)
     in rbind (ber_writeTlv wr_new (if isRequest then kTcapTagOtid else kTcapTagDtid) tid) (\<lambda>tcap.
        let pdvTag = if isRequest then kTcapTagBegin else kTcapTagEnd
        in rbind (ber_wrapConstructed wr_new pdvTag (wr_buf (wr_writeBytes tcap (wr_buf compPortion)))) (\<lambda>out.
           Inr (wr_buf out))))))"

section \<open>Argument decoders\<close>

text \<open>\<open>static_cast<uint8_t>(decodeInt(val))\<close>\<close>

definition decodeOctet :: "bytes \<Rightarrow> byte result" where
  "decodeOctet val = rbind (decodeInt val) (\<lambda>v. Inr (ucast v))"

text \<open>The local variable \<open>firstOctet\<close> of four of the loops travels with the message.\<close>

type_synonym first_octet = "MapMessage \<times> bool"

definition sendAuthInfoReq_step :: "byte \<Rightarrow> bytes \<Rightarrow> MapMessage \<Rightarrow> MapMessage result" where
  "sendAuthInfoReq_step t val m =
     (if t = kBerOctetStr \<and> m_imsi m = [] then
        rbind (map_bcdToImsi val) (\<lambda>s. Inr (m\<lparr>m_imsi := s\<rparr>))
      else if t = kBerInt \<and> m_numRequestedVectors m = None then
        rbind (decodeOctet val) (\<lambda>n. Inr (m\<lparr>m_numRequestedVectors := Some n\<rparr>))
      else Inr m)"

definition decodeSendAuthInfoReq :: "BufferReader \<Rightarrow> MapMessage \<Rightarrow> MapMessage result" where
  "decodeSendAuthInfoReq r m =
     (if rd_empty r then Inr m
      else rbind (ber_readTlv r) (\<lambda>(tag, seqVal, _).
        if tag \<noteq> kBerSequence then Inr m else ber_loop sendAuthInfoReq_step (rd_new seqVal) m))"

text \<open>The fields of one authentication set, then the set itself.\<close>

definition authFields_step :: "byte \<Rightarrow> bytes \<Rightarrow> bytes list \<Rightarrow> bytes list result" where
  "authFields_step ft v flds = Inr (if ft = kBerOctetStr then flds @ [v] else flds)"

definition sendAuthInfoRes_step :: "byte \<Rightarrow> bytes \<Rightarrow> MapMessage \<Rightarrow> MapMessage result" where
  "sendAuthInfoRes_step t tripVal m =
     (if t \<noteq> kBerSequence then Inr m
      else rbind (ber_loop authFields_step (rd_new tripVal) []) (\<lambda>flds.
        if length flds \<ge> 3 \<and> length flds < 5 then
          rbind (vec_at flds 0) (\<lambda>f0. rbind (vec_at flds 1) (\<lambda>f1. rbind (vec_at flds 2) (\<lambda>f2.
          Inr (m\<lparr>m_authTriplets := m_authTriplets m @ [\<lparr>t3_rand = f0, t3_sres = f1, t3_kc = f2\<rparr>]\<rparr>))))
        else if length flds \<ge> 5 then
          rbind (vec_at flds 0) (\<lambda>f0. rbind (vec_at flds 1) (\<lambda>f1. rbind (vec_at flds 2) (\<lambda>f2.
          rbind (vec_at flds 3) (\<lambda>f3. rbind (vec_at flds 4) (\<lambda>f4.
          Inr (m\<lparr>m_authQuintuplets := m_authQuintuplets m @
            [\<lparr>q5_rand = f0, q5_xres = f1, q5_ck = f2, q5_ik = f3, q5_autn = f4\<rparr>]\<rparr>))))))
        else Inr m))"

definition decodeSendAuthInfoRes :: "BufferReader \<Rightarrow> MapMessage \<Rightarrow> MapMessage result" where
  "decodeSendAuthInfoRes r m =
     (if rd_empty r then Inr m
      else rbind (ber_readTlv r) (\<lambda>(_, seqVal, _). ber_loop sendAuthInfoRes_step (rd_new seqVal) m))"

definition updateGprsLocationReq_step :: "byte \<Rightarrow> bytes \<Rightarrow> first_octet \<Rightarrow> first_octet result" where
  "updateGprsLocationReq_step t val s = (case s of (m, firstOctet) \<Rightarrow>
     if t = kBerOctetStr then
       (if firstOctet \<and> m_imsi m = [] then
          rbind (map_bcdToImsi val) (\<lambda>i. Inr (m\<lparr>m_imsi := i\<rparr>, False))
        else if m_sgsnNumber m = None then Inr (m\<lparr>m_sgsnNumber := Some val\<rparr>, firstOctet)
        else if m_sgsnAddress m = None then Inr (m\<lparr>m_sgsnAddress := Some val\<rparr>, firstOctet)
        else Inr (m, firstOctet))
     else Inr (m, firstOctet))"

definition decodeUpdateGprsLocationReq :: "BufferReader \<Rightarrow> MapMessage \<Rightarrow> MapMessage result" where
  "decodeUpdateGprsLocationReq r m =
     (if rd_empty r then Inr m
      else rbind (ber_readTlv r) (\<lambda>(_, seqVal, _).
           rbind (ber_loop updateGprsLocationReq_step (rd_new seqVal) (m, True)) (\<lambda>(m', _). Inr m')))"

definition updateGprsLocationRes_step :: "byte \<Rightarrow> bytes \<Rightarrow> MapMessage \<Rightarrow> MapMessage result" where
  "updateGprsLocationRes_step t val m =
     Inr (if t = kBerOctetStr \<and> m_hlrNumber m = None then m\<lparr>m_hlrNumber := Some val\<rparr> else m)"

definition decodeUpdateGprsLocationRes :: "BufferReader \<Rightarrow> MapMessage \<Rightarrow> MapMessage result" where
  "decodeUpdateGprsLocationRes r m =
     (if rd_empty r then Inr m
      else rbind (ber_readTlv r) (\<lambda>(_, seqVal, _). ber_loop updateGprsLocationRes_step (rd_new seqVal) m))"

definition cancelLocationReq_step :: "byte \<Rightarrow> bytes \<Rightarrow> first_octet \<Rightarrow> first_octet result" where
  "cancelLocationReq_step t val s = (case s of (m, firstOctet) \<Rightarrow>
     if t = kBerOctetStr \<and> firstOctet then
       rbind (map_bcdToImsi val) (\<lambda>i. Inr (m\<lparr>m_imsi := i\<rparr>, False))
     else if t = kBerInt then
       rbind (decodeOctet val) (\<lambda>c. Inr (m\<lparr>m_cancelType := Some c\<rparr>, firstOctet))
     else Inr (m, firstOctet))"

definition decodeCancelLocationReq :: "BufferReader \<Rightarrow> MapMessage \<Rightarrow> MapMessage result" where
  "decodeCancelLocationReq r m =
     (if rd_empty r then Inr m
      else rbind (ber_readTlv r) (\<lambda>(_, seqVal, _).
           rbind (ber_loop cancelLocationReq_step (rd_new seqVal) (m, True)) (\<lambda>(m', _). Inr m')))"

definition insertSubscriberDataReq_step :: "byte \<Rightarrow> bytes \<Rightarrow> first_octet \<Rightarrow> first_octet result" where
  "insertSubscriberDataReq_step t val s = (case s of (m, firstOctet) \<Rightarrow>
     if t = kBerOctetStr then
       (if firstOctet then rbind (map_bcdToImsi val) (\<lambda>i. Inr (m\<lparr>m_imsi := i\<rparr>, False))
        else if m_msisdn m = None then Inr (m\<lparr>m_msisdn := Some val\<rparr>, firstOctet)
        else Inr (m, firstOctet))
     else Inr (m, firstOctet))"

definition decodeInsertSubscriberDataReq :: "BufferReader \<Rightarrow> MapMessage \<Rightarrow> MapMessage result" where
  "decodeInsertSubscriberDataReq r m =
     (if rd_empty r then Inr m
      else rbind (ber_readTlv r) (\<lambda>(_, seqVal, _).
           rbind (ber_loop insertSubscriberDataReq_step (rd_new seqVal) (m, True)) (\<lambda>(m', _). Inr m')))"

definition decodeDeleteSubscriberDataReq :: "BufferReader \<Rightarrow> MapMessage \<Rightarrow> MapMessage result" where
  "decodeDeleteSubscriberDataReq r m =
     (if rd_empty r then Inr m
      else rbind (ber_readTlv r) (\<lambda>(_, seqVal, _).
        let sr = rd_new seqVal in
        if rd_empty sr then Inr m
        else rbind (ber_readTlv sr) (\<lambda>(t, val, _).
          if t = kBerOctetStr \<and> m_imsi m = [] then
            rbind (map_bcdToImsi val) (\<lambda>i. Inr (m\<lparr>m_imsi := i\<rparr>))
          else Inr m)))"

definition purgeMsReq_step :: "byte \<Rightarrow> bytes \<Rightarrow> first_octet \<Rightarrow> first_octet result" where
  "purgeMsReq_step t val s = (case s of (m, firstOctet) \<Rightarrow>
     if t = kBerOctetStr then
       (if firstOctet then rbind (map_bcdToImsi val) (\<lambda>i. Inr (m\<lparr>m_imsi := i\<rparr>, False))
        else if m_sgsnNumber m = None then Inr (m\<lparr>m_sgsnNumber := Some val\<rparr>, firstOctet)
        else Inr (m, firstOctet))
     else Inr (m, firstOctet))"

definition decodePurgeMsReq :: "BufferReader \<Rightarrow> MapMessage \<Rightarrow> MapMessage result" where
  "decodePurgeMsReq r m =
     (if rd_empty r then Inr m
      else rbind (ber_readTlv r) (\<lambda>(_, seqVal, _).
           rbind (ber_loop purgeMsReq_step (rd_new seqVal) (m, True)) (\<lambda>(m', _). Inr m')))"

definition purgeMsRes_step :: "byte \<Rightarrow> bytes \<Rightarrow> MapMessage \<Rightarrow> MapMessage result" where
  "purgeMsRes_step t val m = Inr (if t = kBerNull then m\<lparr>m_freezePtmsi := True\<rparr> else m)"

definition decodePurgeMsRes :: "BufferReader \<Rightarrow> MapMessage \<Rightarrow> MapMessage result" where
  "decodePurgeMsRes r m =
     (if rd_empty r then Inr m
      else rbind (ber_readTlv r) (\<lambda>(_, seqVal, _). ber_loop purgeMsRes_step (rd_new seqVal) m))"

section \<open>Main decoder\<close>

definition map_invokeArgs :: "BufferReader \<Rightarrow> MapMessage \<Rightarrow> MapMessage result" where
  "map_invokeArgs cbr msg =
     (if m_operation msg = SendAuthenticationInfo then decodeSendAuthInfoReq cbr msg
      else if m_operation msg = UpdateGprsLocation then decodeUpdateGprsLocationReq cbr msg
      else if m_operation msg = CancelLocation then decodeCancelLocationReq cbr msg
      else if m_operation msg = InsertSubscriberData then decodeInsertSubscriberDataReq cbr msg
      else if m_operation msg = DeleteSubscriberData then decodeDeleteSubscriberDataReq cbr msg
      else if m_operation msg = PurgeMS then decodePurgeMsReq cbr msg
      else Inr msg)"

definition map_resultArgs :: "BufferReader \<Rightarrow> MapMessage \<Rightarrow> MapMessage result" where
  "map_resultArgs rr msg =
     (if m_operation msg = SendAuthenticationInfo then decodeSendAuthInfoRes rr msg
      else if m_operation msg = UpdateGprsLocation then decodeUpdateGprsLocationRes rr msg
      else if m_operation msg = PurgeMS then decodePurgeMsRes rr msg
      else Inr msg)"

definition map_component :: "byte \<Rightarrow> bytes \<Rightarrow> MapMessage \<Rightarrow> MapMessage result" where
  "map_component compTag compVal msg =
     (let cbr = rd_new compVal in
      if compTag = kCompTagInvoke then
        rbind (ber_readTlv cbr) (\<lambda>(_, iv, cbr).
        rbind (decodeOctet iv) (\<lambda>invokeId.
        rbind (ber_readTlv cbr) (\<lambda>(_, ov, cbr).
        rbind (decodeOctet ov) (\<lambda>operation.
        map_invokeArgs cbr (msg\<lparr>m_component := Invoke, m_invokeId := invokeId, m_operation := operation\<rparr>)))))
      else if compTag = kCompTagReturnResult then
        rbind (ber_readTlv cbr) (\<lambda>(_, iv, cbr).
        rbind (decodeOctet iv) (\<lambda>invokeId.
        rbind (ber_readTlv cbr) (\<lambda>(_, resultVal, _).
        rbind (ber_readTlv (rd_new resultVal)) (\<lambda>(_, opVal, rr).
        rbind (decodeOctet opVal) (\<lambda>operation.
        map_resultArgs rr (msg\<lparr>m_component := ReturnResult, m_invokeId := invokeId, m_operation := operation\<rparr>))))))
      else if compTag = kCompTagReturnError then
        rbind (ber_readTlv cbr) (\<lambda>(_, iv, cbr).
        rbind (decodeOctet iv) (\<lambda>invokeId.
        rbind (ber_readTlv cbr) (\<lambda>(_, ev, _).
        rbind (decodeOctet ev) (\<lambda>errorCode.
        Inr (msg\<lparr>m_component := ReturnError, m_invokeId := invokeId, m_errorCode := Some errorCode\<rparr>)))))
      else Inr msg)"

definition map_tcapField :: "byte \<Rightarrow> bytes \<Rightarrow> MapMessage \<Rightarrow> MapMessage result" where
  "map_tcapField t val msg =
     (if t = kTcapTagOtid \<or> t = kTcapTagDtid then
        Inr (msg\<lparr>m_transactionId := foldl (\<lambda>tid b. push_bit 8 tid OR ucast b) 0 val\<rparr>)
      else if t = kTcapTagComponents then ber_loop map_component (rd_new val) msg
      else Inr msg)"

definition map_decode :: "bytes \<Rightarrow> MapMessage result" where
  "map_decode data =
     rbind (ber_readTlv (rd_new data)) (\<lambda>(pdvTag, tcapBody, _).
     ber_loop map_tcapField (rd_new tcapBody) MapMessage_init)"

section \<open>What the encoder writes\<close>

text \<open>
  Every TLV that is written either fits the two-octet length form or makes the encoder throw, so an
  encoder is a pure byte string with a bound on its length.
\<close>

definition ber_error :: exc where
  "ber_error = runtime_error ''BER: length too large for 2-byte form''"

lemma ber_writeTlv_fit:
  "ber_writeTlv w tag val =
     (if length val \<le> 0xFFFF then Inr (wr_writeBytes w (ber_tlv tag val)) else Inl ber_error)"
  by (simp add: ber_writeTlv_bytes ber_error_def) (simp add: ber_writeTlv_def ber_writeLength_error)

lemma ber_wrapConstructed_fit:
  "ber_wrapConstructed w tag val =
     (if length val \<le> 0xFFFF then Inr (wr_writeBytes w (ber_tlv tag val)) else Inl ber_error)"
  by (simp add: ber_wrapConstructed_bytes ber_error_def)
    (simp add: ber_wrapConstructed_def ber_writeLength_error)

lemma length_ber_tlv: "length val + 2 \<le> length (ber_tlv tag val)"
  by (simp add: ber_tlv_def ber_lenBytes_def)

text \<open>An octet, as the integer the code makes of it, is at most two octets of contents.\<close>

lemma octet_64_sint: "\<not> sint (ucast (v :: byte) :: u64) < 0"
proof -
  have "\<not> bit (ucast v :: u64) (LENGTH(64) - Suc 0)"
    using bit_imp_le_length [of v 63] by (auto simp: bit_simps)
  then show ?thesis using bit_last_iff [of "ucast v :: u64"] by blast
qed

lemma octet_shift: "drop_bit 8 (ucast (v :: byte) :: u64) = 0"
  by (rule bit_word_eqI) (auto simp: bit_simps dest: bit_imp_le_length)

lemma octet_mask: "ucast (ucast (v :: byte) AND (0xFF :: u64)) = v"
  unfolding mask_numerals by (rule bit_word_eqI) (auto simp: bit_simps)

lemma octet_contents: "ber_intOctets (ucast (v :: byte)) = (if v = 0 then [] else [v])"
proof (cases "v = 0")
  case False
  then have "(ucast v :: u64) \<noteq> 0" using octet_mask [of v] by auto
  then show ?thesis
    by (simp add: ber_intOctets.simps [of "ucast v"] ber_intOctets.simps [of 0] word_gt_0 octet_shift
        octet_mask False)
qed (simp add: ber_intOctets.simps [of 0])

definition octetInt :: "byte \<Rightarrow> bytes" where
  "octetInt v = int_bytes (ucast v)"

lemma length_octetInt: "length (octetInt v) \<le> 2"
  by (simp add: octetInt_def int_bytes_def octet_64_sint octet_contents Let_def)

lemma ber_writeTlvInt_fit:
  "ber_writeTlvInt w tag (ucast (v :: byte)) = Inr (wr_writeBytes w (ber_tlv tag (octetInt v)))"
  using length_octetInt [of v] by (simp add: ber_writeTlvInt_def encodeInt_bytes ber_writeTlv_fit octetInt_def)

lemma decodeOctet_octetInt: "decodeOctet (octetInt v) = Inr v"
proof -
  have "ucast (ucast v :: u64) = v" by (rule bit_word_eqI) (auto simp: bit_simps)
  then show ?thesis by (simp add: decodeOctet_def octetInt_def int_roundtrip)
qed

lemma octet_or_high: "(\<And>n. n < 8 \<Longrightarrow> \<not> bit c n) \<Longrightarrow> ucast (ucast (v :: byte) OR c :: u64) = v"
  by (rule bit_word_eqI) (auto simp: bit_simps)

lemma decodeOctet_single: "decodeOctet [v] = Inr v"
proof -
  have "\<not> bit (- push_bit 8 1 :: u64) n" if "n < 8" for n
  proof -
    have "\<not> bit (NOT (mask 8) :: u64) n" using that by (simp only: bit_not_iff bit_mask_iff) simp
    then show ?thesis by (simp only: minus_exp_eq_not_mask [symmetric] push_bit_of_1 not_False_eq_True)
  qed
  then have "ucast (ucast v OR - push_bit 8 1 :: u64) = v" by (rule octet_or_high)
  moreover have "ucast (ucast v :: u64) = v" using octet_or_high [of 0 v] by simp
  ultimately show ?thesis by (simp only: decodeOctet_def decodeInt_def Let_def) simp
qed

text \<open>The contents of the argument SEQUENCE of each operation.\<close>

definition str_opt :: "bytes option \<Rightarrow> bytes" where
  "str_opt v = (case v of None \<Rightarrow> [] | Some x \<Rightarrow> ber_tlv kBerOctetStr x)"

definition imsi_str :: "MapMessage \<Rightarrow> bytes" where
  "imsi_str m = ber_tlv kBerOctetStr (packDigits (m_imsi m))"

definition triplet_tlv :: "MapAuthTriplet \<Rightarrow> bytes" where
  "triplet_tlv t = ber_tlv kBerSequence
     (ber_tlv kBerOctetStr (t3_rand t) @ ber_tlv kBerOctetStr (t3_sres t) @ ber_tlv kBerOctetStr (t3_kc t))"

definition quintuplet_tlv :: "MapAuthQuintuplet \<Rightarrow> bytes" where
  "quintuplet_tlv q = ber_tlv kBerSequence
     (ber_tlv kBerOctetStr (q5_rand q) @ ber_tlv kBerOctetStr (q5_xres q) @ ber_tlv kBerOctetStr (q5_ck q) @
      ber_tlv kBerOctetStr (q5_ik q) @ ber_tlv kBerOctetStr (q5_autn q))"

definition map_argBody :: "MapMessage \<Rightarrow> bytes" where
  "map_argBody m =
     (if m_operation m = SendAuthenticationInfo then
        (if m_component m = Invoke
         then imsi_str m @ ber_tlv kBerInt (octetInt (value_or (m_numRequestedVectors m) 1))
         else concat (map triplet_tlv (m_authTriplets m)) @ concat (map quintuplet_tlv (m_authQuintuplets m)))
      else if m_operation m = UpdateGprsLocation then
        (if m_component m = Invoke then imsi_str m @ str_opt (m_sgsnNumber m) @ str_opt (m_sgsnAddress m)
         else str_opt (m_hlrNumber m))
      else if m_operation m = CancelLocation then
        imsi_str m @ (case m_cancelType m of None \<Rightarrow> [] | Some t \<Rightarrow> ber_tlv kBerInt [t])
      else if m_operation m = InsertSubscriberData then imsi_str m @ str_opt (m_msisdn m)
      else if m_operation m = DeleteSubscriberData then imsi_str m
      else if m_operation m = PurgeMS then
        (if m_component m = Invoke then imsi_str m @ str_opt (m_sgsnNumber m)
         else if m_freezePtmsi m then ber_tlv kBerNull [] else [])
      else [])"

text \<open>The operations that have an argument at all.\<close>

definition map_hasArgs :: "MapMessage \<Rightarrow> bool" where
  "map_hasArgs m \<longleftrightarrow> m_operation m \<in> {SendAuthenticationInfo, UpdateGprsLocation, CancelLocation,
     InsertSubscriberData, DeleteSubscriberData, PurgeMS}"

definition map_args :: "MapMessage \<Rightarrow> bytes" where
  "map_args m = (if map_hasArgs m then ber_tlv kBerSequence (map_argBody m) else [])"

text \<open>A SEQUENCE that is written as a whole, or not at all.\<close>

definition seq_fit :: "bytes \<Rightarrow> bytes result" where
  "seq_fit bs = (if length bs \<le> 0xFFFF then Inr (ber_tlv kBerSequence bs) else Inl ber_error)"

lemma map_sequence_fit: "map_sequence w = seq_fit (wr_buf w)"
  by (simp add: map_sequence_def ber_wrapConstructed_fit writer_simps seq_fit_def)

text \<open>
  \<open>writes f bs\<close>: the writer operation \<open>f\<close> appends \<open>bs\<close>, or throws, which it does only when \<open>bs\<close> is
  longer than any surrounding TLV could be.
\<close>

definition writes :: "(BufferWriter \<Rightarrow> BufferWriter result) \<Rightarrow> bytes \<Rightarrow> bool" where
  "writes f bs \<longleftrightarrow>
     (\<forall>w. f w = Inr (wr_writeBytes w bs) \<or> f w = Inl ber_error \<and> length bs > 0xFFFF)"

lemma writes_tlv: "writes (\<lambda>w. ber_writeTlv w tag val) (ber_tlv tag val)"
  using length_ber_tlv [of val tag] by (auto simp: writes_def ber_writeTlv_fit)

lemma writes_wrap: "writes (\<lambda>w. ber_wrapConstructed w tag val) (ber_tlv tag val)"
  using length_ber_tlv [of val tag] by (auto simp: writes_def ber_wrapConstructed_fit)

lemma writes_int: "writes (\<lambda>w. ber_writeTlvInt w tag (ucast (v :: byte))) (ber_tlv tag (octetInt v))"
  by (simp add: writes_def ber_writeTlvInt_fit)

lemma writes_opt: "writes (\<lambda>w. map_writeOpt w v) (str_opt v)"
  using writes_tlv by (cases v) (simp_all add: map_writeOpt_def str_opt_def writes_def)

lemma writes_seq:
  assumes "writes f a" and "writes g b"
  shows "writes (\<lambda>w. rbind (f w) g) (a @ b)"
  unfolding writes_def
proof
  fix w
  consider "f w = Inr (wr_writeBytes w a)" | "f w = Inl ber_error" "length a > 0xFFFF"
    using assms(1) by (auto simp: writes_def)
  then show "rbind (f w) g = Inr (wr_writeBytes w (a @ b)) \<or> rbind (f w) g = Inl ber_error \<and> length (a @ b) > 0xFFFF"
  proof cases
    case 1
    with assms(2) [unfolded writes_def, rule_format, of "wr_writeBytes w a"] show ?thesis by auto
  qed simp
qed

lemma writes_foldM:
  assumes "\<And>x. writes (f x) (enc x)"
  shows "writes (foldM f xs) (concat (map enc xs))"
proof (induction xs)
  case (Cons x xs)
  then show ?case using writes_seq [OF assms Cons, of x] by (simp add: writes_def)
qed (simp add: writes_def)

lemma writes_constructed:
  assumes "writes f inner"
  shows "writes (\<lambda>w. rbind (f wr_new) (\<lambda>i. ber_wrapConstructed w tag (wr_buf i))) (ber_tlv tag inner)"
  using assms [unfolded writes_def, rule_format, of wr_new] writes_wrap [of tag inner]
    length_ber_tlv [of inner tag]
  by (auto simp: writes_def writer_simps)

lemma map_sequence_writes:
  assumes "writes f bs"
  shows "rbind (f wr_new) map_sequence = seq_fit bs"
  using assms [unfolded writes_def, rule_format, of wr_new]
  by (auto simp: map_sequence_fit seq_fit_def writer_simps)

lemma writes_triplet: "writes (encodeTriplet t) (triplet_tlv t)"
  using writes_constructed [OF writes_seq [OF writes_tlv writes_seq [OF writes_tlv writes_tlv]],
      of kBerOctetStr "t3_rand t" kBerOctetStr "t3_sres t" kBerOctetStr "t3_kc t" kBerSequence]
  by (simp add: encodeTriplet_def [abs_def] triplet_tlv_def rbind_assoc)

lemma writes_quintuplet: "writes (encodeQuintuplet q) (quintuplet_tlv q)"
  using writes_constructed [OF writes_seq [OF writes_tlv writes_seq [OF writes_tlv writes_seq
        [OF writes_tlv writes_seq [OF writes_tlv writes_tlv]]]],
      of kBerOctetStr "q5_rand q" kBerOctetStr "q5_xres q" kBerOctetStr "q5_ck q" kBerOctetStr "q5_ik q"
        kBerOctetStr "q5_autn q" kBerSequence]
  by (simp add: encodeQuintuplet_def [abs_def] quintuplet_tlv_def rbind_assoc)

lemmas imsi_opt_writes = writes_seq [OF writes_tlv [of kBerOctetStr "packDigits imsi"] writes_opt [of v]] for imsi v

lemma encode_imsi_only:
  "encodeDeleteSubscriberDataReq m = seq_fit (imsi_str m)"
  "encodeCancelLocationReq m =
     seq_fit (imsi_str m @ (case m_cancelType m of None \<Rightarrow> [] | Some t \<Rightarrow> ber_tlv kBerInt [t]))"
proof -
  show "encodeDeleteSubscriberDataReq m = seq_fit (imsi_str m)"
    using map_sequence_writes [OF writes_tlv]
    by (simp add: encodeDeleteSubscriberDataReq_def imsi_str_def map_imsiToBcd_def)
  have "writes (\<lambda>w. Inr (case m_cancelType m of None \<Rightarrow> w | Some t \<Rightarrow> ber_writeTlvOctet w kBerInt t))
      (case m_cancelType m of None \<Rightarrow> [] | Some t \<Rightarrow> ber_tlv kBerInt [t])"
    by (simp add: writes_def ber_writeTlvOctet_bytes split: option.split)
  from map_sequence_writes [OF writes_seq [OF writes_tlv this], of kBerOctetStr "packDigits (m_imsi m)"]
  show "encodeCancelLocationReq m =
      seq_fit (imsi_str m @ (case m_cancelType m of None \<Rightarrow> [] | Some t \<Rightarrow> ber_tlv kBerInt [t]))"
    by (simp add: encodeCancelLocationReq_def imsi_str_def map_imsiToBcd_def rbind_assoc)
qed

lemma encode_imsi_opt:
  "encodeInsertSubscriberDataReq m = seq_fit (imsi_str m @ str_opt (m_msisdn m))"
  "encodePurgeMsReq m = seq_fit (imsi_str m @ str_opt (m_sgsnNumber m))"
  "encodeUpdateGprsLocationReq m = seq_fit (imsi_str m @ str_opt (m_sgsnNumber m) @ str_opt (m_sgsnAddress m))"
  "encodeUpdateGprsLocationRes m = seq_fit (str_opt (m_hlrNumber m))"
  using map_sequence_writes [OF imsi_opt_writes, of "m_imsi m"] map_sequence_writes [OF writes_opt]
    map_sequence_writes [OF writes_seq [OF imsi_opt_writes writes_opt], of "m_imsi m"]
  by (simp_all add: encodeInsertSubscriberDataReq_def encodePurgeMsReq_def encodeUpdateGprsLocationReq_def
      encodeUpdateGprsLocationRes_def imsi_str_def map_imsiToBcd_def rbind_assoc)

lemma encode_send_auth_info:
  "encodeSendAuthInfoReq m =
     seq_fit (imsi_str m @ ber_tlv kBerInt (octetInt (value_or (m_numRequestedVectors m) 1)))"
  "encodeSendAuthInfoRes m =
     seq_fit (concat (map triplet_tlv (m_authTriplets m)) @ concat (map quintuplet_tlv (m_authQuintuplets m)))"
  using map_sequence_writes [OF writes_seq [OF writes_tlv writes_int], of kBerOctetStr "packDigits (m_imsi m)"]
    map_sequence_writes [OF writes_seq [OF writes_foldM [where f = encodeTriplet, OF writes_triplet]
          writes_foldM [where f = encodeQuintuplet, OF writes_quintuplet]], of "m_authTriplets m" "m_authQuintuplets m"]
  by (simp_all add: encodeSendAuthInfoReq_def encodeSendAuthInfoRes_def imsi_str_def map_imsiToBcd_def rbind_assoc)

lemma encode_purge_res:
  "encodePurgeMsRes m = seq_fit (if m_freezePtmsi m then ber_tlv kBerNull [] else [])"
  by (simp add: encodePurgeMsRes_def map_sequence_fit wr_write8_bytes writer_simps ber_tlv_def ber_lenBytes_def)

lemma map_encodeArgs_fit:
  "map_encodeArgs m = (if map_hasArgs m then seq_fit (map_argBody m) else Inr [])"
  by (auto simp: map_encodeArgs_def map_hasArgs_def map_argBody_def encode_imsi_only encode_imsi_opt
      encode_send_auth_info encode_purge_res)

subsection \<open>Component and PDU\<close>

definition map_componentBody :: "MapMessage \<Rightarrow> bytes" where
  "map_componentBody m = ber_tlv kBerInt (octetInt (m_invokeId m)) @
     (case m_component m of
        Invoke \<Rightarrow> ber_tlv kBerInt (octetInt (m_operation m)) @ map_args m
      | ReturnResult \<Rightarrow> ber_tlv kBerSequence (ber_tlv kBerInt (octetInt (m_operation m)) @ map_args m)
      | _ \<Rightarrow> ber_tlv kBerInt (octetInt (value_or (m_errorCode m) 34)))"

definition map_componentTag :: "ComponentType \<Rightarrow> byte" where
  "map_componentTag c =
     (case c of Invoke \<Rightarrow> kCompTagInvoke | ReturnResult \<Rightarrow> kCompTagReturnResult | _ \<Rightarrow> kCompTagReturnError)"

definition map_pduBody :: "MapMessage \<Rightarrow> bytes" where
  "map_pduBody m =
     ber_tlv (if m_component m = Invoke then kTcapTagOtid else kTcapTagDtid) (tid_bytes (m_transactionId m)) @
     ber_tlv kTcapTagComponents (ber_tlv (map_componentTag (m_component m)) (map_componentBody m))"

definition map_pdu :: "MapMessage \<Rightarrow> bytes" where
  "map_pdu m = ber_tlv (if m_component m = Invoke then kTcapTagBegin else kTcapTagEnd) (map_pduBody m)"

text \<open>What has to fit: the argument (which is built for every component) and the whole PDU.\<close>

definition map_fits :: "MapMessage \<Rightarrow> bool" where
  "map_fits m \<longleftrightarrow> length (map_argBody m) \<le> 0xFFFF \<and> length (map_pduBody m) \<le> 0xFFFF"

lemma length_map_pduBody:
  "length (map_componentBody m) \<le> length (map_pduBody m)"
  "length (ber_tlv (map_componentTag (m_component m)) (map_componentBody m)) \<le> length (map_pduBody m)"
  using length_ber_tlv [of "map_componentBody m" "map_componentTag (m_component m)"]
    length_ber_tlv [of "ber_tlv (map_componentTag (m_component m)) (map_componentBody m)" kTcapTagComponents]
  by (simp_all add: map_pduBody_def)

lemma map_encodeComponent_fit:
  assumes "m_component m \<noteq> Reject"
  shows "map_encodeComponent m (map_args m) =
    (if length (map_componentBody m) \<le> 0xFFFF
     then Inr (ber_tlv (map_componentTag (m_component m)) (map_componentBody m)) else Inl ber_error)"
  using assms length_ber_tlv [of "ber_tlv kBerInt (octetInt (m_operation m)) @ map_args m" kBerSequence]
  by (cases "m_component m")
    (auto simp: map_encodeComponent_def encodeInvoke_def encodeReturnResult_def encodeReturnError_def
      map_componentBody_def map_componentTag_def ber_writeTlvInt_fit ber_wrapConstructed_fit writer_simps)

lemma map_encode_fit:
  assumes "m_component m \<noteq> Reject"
  shows "map_encode m = (if map_fits m then Inr (map_pdu m) else Inl ber_error)"
proof (cases "length (map_argBody m) \<le> 0xFFFF")
  case True
  then have "map_encodeArgs m = Inr (map_args m)"
    by (simp add: map_encodeArgs_fit map_args_def seq_fit_def)
  then have "map_encode m = rbind (map_encodeComponent m (map_args m)) (\<lambda>component.
      rbind (ber_wrapConstructed wr_new kTcapTagComponents component) (\<lambda>compPortion.
      rbind (ber_writeTlv wr_new (if m_component m = Invoke then kTcapTagOtid else kTcapTagDtid)
        (tid_bytes (m_transactionId m))) (\<lambda>tcap.
      rbind (ber_wrapConstructed wr_new (if m_component m = Invoke then kTcapTagBegin else kTcapTagEnd)
        (wr_buf (wr_writeBytes tcap (wr_buf compPortion)))) (\<lambda>out. Inr (wr_buf out)))))"
    by (simp add: map_encode_def)
  also have "\<dots> = (if length (map_pduBody m) \<le> 0xFFFF then Inr (map_pdu m) else Inl ber_error)"
    using length_map_pduBody [of m] assms
    by (simp add: map_encodeComponent_fit ber_wrapConstructed_fit ber_writeTlv_fit tid_bytes_def
        writer_simps map_pdu_def map_pduBody_def)
  finally show ?thesis using True by (simp add: map_fits_def)
next
  case False
  then have "map_hasArgs m" by (auto simp: map_argBody_def map_hasArgs_def split: if_splits)
  with False show ?thesis by (simp add: map_encode_def map_encodeArgs_fit seq_fit_def map_fits_def)
qed

section \<open>What the decoder makes of it\<close>

text \<open>
  \<open>map_view m\<close> is what of a message the wire carries: the envelope and the fields of its operation.
  An absent vector count and an absent error code arrive as the values the encoder fills in; two
  address strings are told apart by their order only, so a lone SGSN address arrives as the SGSN
  number; a ReturnError names no operation.
\<close>

definition map_base :: "MapMessage \<Rightarrow> MapMessage" where
  "map_base m = MapMessage_init\<lparr>m_transactionId := m_transactionId m, m_component := m_component m,
     m_invokeId := m_invokeId m, m_operation := m_operation m\<rparr>"

definition map_view :: "MapMessage \<Rightarrow> MapMessage" where
  "map_view m =
     (case m_component m of
        Invoke \<Rightarrow>
          if m_operation m = SendAuthenticationInfo then
            (map_base m)\<lparr>m_imsi := m_imsi m, m_numRequestedVectors := Some (value_or (m_numRequestedVectors m) 1)\<rparr>
          else if m_operation m = UpdateGprsLocation then
            (case m_sgsnNumber m of
               None \<Rightarrow> (map_base m)\<lparr>m_imsi := m_imsi m, m_sgsnNumber := m_sgsnAddress m\<rparr>
             | Some n \<Rightarrow> (map_base m)\<lparr>m_imsi := m_imsi m, m_sgsnNumber := Some n, m_sgsnAddress := m_sgsnAddress m\<rparr>)
          else if m_operation m = CancelLocation then
            (map_base m)\<lparr>m_imsi := m_imsi m, m_cancelType := m_cancelType m\<rparr>
          else if m_operation m = InsertSubscriberData then
            (map_base m)\<lparr>m_imsi := m_imsi m, m_msisdn := m_msisdn m\<rparr>
          else if m_operation m = DeleteSubscriberData then (map_base m)\<lparr>m_imsi := m_imsi m\<rparr>
          else if m_operation m = PurgeMS then
            (map_base m)\<lparr>m_imsi := m_imsi m, m_sgsnNumber := m_sgsnNumber m\<rparr>
          else map_base m
      | ReturnResult \<Rightarrow>
          if m_operation m = SendAuthenticationInfo then
            (map_base m)\<lparr>m_authTriplets := m_authTriplets m, m_authQuintuplets := m_authQuintuplets m\<rparr>
          else if m_operation m = UpdateGprsLocation then (map_base m)\<lparr>m_hlrNumber := m_hlrNumber m\<rparr>
          else if m_operation m = PurgeMS then (map_base m)\<lparr>m_freezePtmsi := m_freezePtmsi m\<rparr>
          else map_base m
      | _ \<Rightarrow> (map_base m)\<lparr>m_component := ReturnError, m_operation := MapOperation_Unknown,
               m_errorCode := Some (value_or (m_errorCode m) 34)\<rparr>)"

lemma map_base_fields [simp]:
  "m_transactionId (map_base m) = m_transactionId m" "m_component (map_base m) = m_component m"
  "m_invokeId (map_base m) = m_invokeId m" "m_operation (map_base m) = m_operation m"
  "m_imsi (map_base m) = []" "m_numRequestedVectors (map_base m) = None" "m_authTriplets (map_base m) = []"
  "m_authQuintuplets (map_base m) = []" "m_sgsnNumber (map_base m) = None" "m_sgsnAddress (map_base m) = None"
  "m_hlrNumber (map_base m) = None" "m_msisdn (map_base m) = None" "m_cancelType (map_base m) = None"
  "m_freezePtmsi (map_base m) = False" "m_errorCode (map_base m) = None"
  by (simp_all add: map_base_def MapMessage_init_def)

lemma map_base_ids [simp]:
  "(map_base m)\<lparr>m_cancelType := None\<rparr> = map_base m" "(map_base m)\<lparr>m_msisdn := None\<rparr> = map_base m"
  "(map_base m)\<lparr>m_sgsnNumber := None\<rparr> = map_base m" "(map_base m)\<lparr>m_hlrNumber := None\<rparr> = map_base m"
  "(map_base m)\<lparr>m_sgsnAddress := None\<rparr> = map_base m" "(map_base m)\<lparr>m_freezePtmsi := False\<rparr> = map_base m"
  by (simp_all add: map_base_def MapMessage_init_def)

lemma tlv_fits: "length (ber_tlv tag val) \<le> n \<Longrightarrow> length val \<le> n"
  using length_ber_tlv [of val tag] by simp

lemma tlv_fits_append:
  "length (ber_tlv tag val @ rest) \<le> n \<Longrightarrow> length val \<le> n \<and> length rest \<le> n"
  using length_ber_tlv [of val tag] by simp

lemma str_opt_fits: "length (str_opt v) \<le> n \<Longrightarrow> v = Some x \<Longrightarrow> length x \<le> n"
  using length_ber_tlv [of x kBerOctetStr] by (simp add: str_opt_def)

lemma imsi_fits: "length (imsi_str m @ rest) \<le> n \<Longrightarrow> length (packDigits (m_imsi m)) \<le> n \<and> length rest \<le> n"
  using tlv_fits_append by (simp add: imsi_str_def)

subsection \<open>Request arguments\<close>

lemma map_bcd_imsi: "list_all isDigit imsi \<Longrightarrow> map_bcdToImsi (packDigits imsi) = Inr imsi"
  by (simp add: map_bcdToImsi_def unpackDigits_packDigits)

lemma ber_tlv_not_Nil [simp]: "ber_tlv tag val \<noteq> []"
  by (simp add: ber_tlv_def)

lemmas map_arg_simps = ber_loop_simps rd_new_at rd_empty_at map_bcd_imsi imsi_str_def wire_consts

lemma decode_SendAuthInfoReq:
  assumes "list_all isDigit (m_imsi m)" and "length (imsi_str m @ ber_tlv kBerInt (octetInt n)) \<le> 0xFFFF"
  shows "decodeSendAuthInfoReq (rd_at pre (ber_tlv kBerSequence (imsi_str m @ ber_tlv kBerInt (octetInt n)))) (map_base m)
    = Inr ((map_base m)\<lparr>m_imsi := m_imsi m, m_numRequestedVectors := Some n\<rparr>)"
  using assms imsi_fits [OF assms(2)] tlv_fits [of kBerInt "octetInt n" "0xFFFF"]
  by (simp add: decodeSendAuthInfoReq_def map_arg_simps sendAuthInfoReq_step_def decodeOctet_octetInt)

lemma decode_UpdateGprsLocationReq:
  assumes "list_all isDigit (m_imsi m)" and "length (imsi_str m @ str_opt a @ str_opt b) \<le> 0xFFFF"
  shows "decodeUpdateGprsLocationReq (rd_at pre (ber_tlv kBerSequence (imsi_str m @ str_opt a @ str_opt b))) (map_base m)
    = Inr (case a of
        None \<Rightarrow> (map_base m)\<lparr>m_imsi := m_imsi m, m_sgsnNumber := b\<rparr>
      | Some n \<Rightarrow> (map_base m)\<lparr>m_imsi := m_imsi m, m_sgsnNumber := Some n, m_sgsnAddress := b\<rparr>)"
proof -
  have "length (packDigits (m_imsi m)) \<le> 0xFFFF" "length (str_opt a) \<le> 0xFFFF" "length (str_opt b) \<le> 0xFFFF"
    using imsi_fits [OF assms(2)] by simp_all
  moreover from this have "\<And>x. a = Some x \<Longrightarrow> length x \<le> 0xFFFF" "\<And>x. b = Some x \<Longrightarrow> length x \<le> 0xFFFF"
    using str_opt_fits by blast+
  ultimately show ?thesis
    using assms
    by (cases a; cases b)
      (simp_all add: decodeUpdateGprsLocationReq_def map_arg_simps updateGprsLocationReq_step_def str_opt_def)
qed

lemma decode_CancelLocationReq:
  assumes "list_all isDigit (m_imsi m)" and 
    "length (imsi_str m @ (case c of None \<Rightarrow> [] | Some t \<Rightarrow> ber_tlv kBerInt [t])) \<le> 0xFFFF"
  shows "decodeCancelLocationReq (rd_at pre (ber_tlv kBerSequence
      (imsi_str m @ (case c of None \<Rightarrow> [] | Some t \<Rightarrow> ber_tlv kBerInt [t])))) (map_base m)
    = Inr ((map_base m)\<lparr>m_imsi := m_imsi m, m_cancelType := c\<rparr>)"
  using assms imsi_fits [OF assms(2)]
  by (cases c)
    (simp_all add: decodeCancelLocationReq_def map_arg_simps cancelLocationReq_step_def decodeOctet_single)

lemma decode_InsertSubscriberDataReq:
  assumes "list_all isDigit (m_imsi m)" and "length (imsi_str m @ str_opt a) \<le> 0xFFFF"
  shows "decodeInsertSubscriberDataReq (rd_at pre (ber_tlv kBerSequence (imsi_str m @ str_opt a))) (map_base m)
    = Inr ((map_base m)\<lparr>m_imsi := m_imsi m, m_msisdn := a\<rparr>)"
  using assms imsi_fits [OF assms(2)] str_opt_fits [of a "0xFFFF"]
  by (cases a)
    (simp_all add: decodeInsertSubscriberDataReq_def map_arg_simps insertSubscriberDataReq_step_def str_opt_def)

lemma decode_DeleteSubscriberDataReq:
  assumes "list_all isDigit (m_imsi m)" and "length (imsi_str m) \<le> 0xFFFF"
  shows "decodeDeleteSubscriberDataReq (rd_at pre (ber_tlv kBerSequence (imsi_str m))) (map_base m)
    = Inr ((map_base m)\<lparr>m_imsi := m_imsi m\<rparr>)"
  using assms imsi_fits [of m "[]" "0xFFFF"]
  by (simp add: decodeDeleteSubscriberDataReq_def map_arg_simps)

lemma decode_PurgeMsReq:
  assumes "list_all isDigit (m_imsi m)" and "length (imsi_str m @ str_opt a) \<le> 0xFFFF"
  shows "decodePurgeMsReq (rd_at pre (ber_tlv kBerSequence (imsi_str m @ str_opt a))) (map_base m)
    = Inr ((map_base m)\<lparr>m_imsi := m_imsi m, m_sgsnNumber := a\<rparr>)"
  using assms imsi_fits [OF assms(2)] str_opt_fits [of a "0xFFFF"]
  by (cases a) (simp_all add: decodePurgeMsReq_def map_arg_simps purgeMsReq_step_def str_opt_def)

subsection \<open>Result arguments\<close>

text \<open>Within a string whose length is bounded, every element of a concatenation is.\<close>

lemma concat_fits: "length (concat (map enc xs)) \<le> n \<Longrightarrow> x \<in> set xs \<Longrightarrow> length (enc x) \<le> n"
  by (induction xs) auto

lemma fold_push_triplets:
  "fold (\<lambda>t m. m\<lparr>m_authTriplets := m_authTriplets m @ [t]\<rparr>) ts m = m\<lparr>m_authTriplets := m_authTriplets m @ ts\<rparr>"
  by (induction ts arbitrary: m) simp_all

lemma fold_push_quintuplets:
  "fold (\<lambda>q m. m\<lparr>m_authQuintuplets := m_authQuintuplets m @ [q]\<rparr>) qs m =
     m\<lparr>m_authQuintuplets := m_authQuintuplets m @ qs\<rparr>"
  by (induction qs arbitrary: m) simp_all

lemma triplet_consumed:
  assumes "length (triplet_tlv t) \<le> 0xFFFF"
  shows "ber.consumes sendAuthInfoRes_step (triplet_tlv t) (\<lambda>m. m\<lparr>m_authTriplets := m_authTriplets m @ [t]\<rparr>)"
  unfolding triplet_tlv_def
proof (rule ber_loop_tlv)
  let ?body = "ber_tlv kBerOctetStr (t3_rand t) @ ber_tlv kBerOctetStr (t3_sres t) @ ber_tlv kBerOctetStr (t3_kc t)"
  show body: "length ?body \<le> 0xFFFF"
    using assms tlv_fits [of kBerSequence ?body] by (simp only: triplet_tlv_def)
  then have len: "length (t3_rand t) \<le> 0xFFFF" "length (t3_sres t) \<le> 0xFFFF" "length (t3_kc t) \<le> 0xFFFF"
    using length_ber_tlv [of "t3_rand t" kBerOctetStr] length_ber_tlv [of "t3_sres t" kBerOctetStr]
      length_ber_tlv [of "t3_kc t" kBerOctetStr] by simp_all
  show "sendAuthInfoRes_step kBerSequence ?body m = Inr (m\<lparr>m_authTriplets := m_authTriplets m @ [t]\<rparr>)" for m
    by (simp add: sendAuthInfoRes_step_def rd_new_at ber_loop_simps len authFields_step_def)
qed

lemma quintuplet_consumed:
  assumes "length (quintuplet_tlv q) \<le> 0xFFFF"
  shows "ber.consumes sendAuthInfoRes_step (quintuplet_tlv q)
    (\<lambda>m. m\<lparr>m_authQuintuplets := m_authQuintuplets m @ [q]\<rparr>)"
  unfolding quintuplet_tlv_def
proof (rule ber_loop_tlv)
  let ?body = "ber_tlv kBerOctetStr (q5_rand q) @ ber_tlv kBerOctetStr (q5_xres q) @ ber_tlv kBerOctetStr (q5_ck q) @
      ber_tlv kBerOctetStr (q5_ik q) @ ber_tlv kBerOctetStr (q5_autn q)"
  show body: "length ?body \<le> 0xFFFF"
    using assms tlv_fits [of kBerSequence ?body] by (simp only: quintuplet_tlv_def)
  then have len: "length (q5_rand q) \<le> 0xFFFF" "length (q5_xres q) \<le> 0xFFFF" "length (q5_ck q) \<le> 0xFFFF"
    "length (q5_ik q) \<le> 0xFFFF" "length (q5_autn q) \<le> 0xFFFF"
    using length_ber_tlv [of "q5_rand q" kBerOctetStr] length_ber_tlv [of "q5_xres q" kBerOctetStr]
      length_ber_tlv [of "q5_ck q" kBerOctetStr] length_ber_tlv [of "q5_ik q" kBerOctetStr]
      length_ber_tlv [of "q5_autn q" kBerOctetStr] by simp_all
  show "sendAuthInfoRes_step kBerSequence ?body m = Inr (m\<lparr>m_authQuintuplets := m_authQuintuplets m @ [q]\<rparr>)" for m
    by (simp add: sendAuthInfoRes_step_def rd_new_at ber_loop_simps len authFields_step_def)
qed

lemma decode_SendAuthInfoRes:
  assumes "length (concat (map triplet_tlv ts) @ concat (map quintuplet_tlv qs)) \<le> 0xFFFF"
  shows "decodeSendAuthInfoRes
      (rd_at pre (ber_tlv kBerSequence (concat (map triplet_tlv ts) @ concat (map quintuplet_tlv qs)))) (map_base m)
    = Inr ((map_base m)\<lparr>m_authTriplets := ts, m_authQuintuplets := qs\<rparr>)"
proof -
  have "ber.consumes sendAuthInfoRes_step (concat (map triplet_tlv ts))
      (fold (\<lambda>t m. m\<lparr>m_authTriplets := m_authTriplets m @ [t]\<rparr>) ts)"
    using assms concat_fits [of triplet_tlv ts "0xFFFF"]
    by (intro ber.consumes_concat triplet_consumed) simp
  moreover have "ber.consumes sendAuthInfoRes_step (concat (map quintuplet_tlv qs))
      (fold (\<lambda>q m. m\<lparr>m_authQuintuplets := m_authQuintuplets m @ [q]\<rparr>) qs)"
    using assms concat_fits [of quintuplet_tlv qs "0xFFFF"]
    by (intro ber.consumes_concat quintuplet_consumed) simp
  ultimately have "ber.consumes sendAuthInfoRes_step (concat (map triplet_tlv ts) @ concat (map quintuplet_tlv qs))
      (\<lambda>m. fold (\<lambda>q m. m\<lparr>m_authQuintuplets := m_authQuintuplets m @ [q]\<rparr>) qs
         (fold (\<lambda>t m. m\<lparr>m_authTriplets := m_authTriplets m @ [t]\<rparr>) ts m))"
    by (rule ber.consumes_append)
  from ber.loop_new [OF this] show ?thesis
    using assms
    by (simp add: decodeSendAuthInfoRes_def ber_readTlv_last rd_empty_at fold_push_triplets fold_push_quintuplets)
qed

lemma decode_UpdateGprsLocationRes:
  assumes "length (str_opt a) \<le> 0xFFFF"
  shows "decodeUpdateGprsLocationRes (rd_at pre (ber_tlv kBerSequence (str_opt a))) (map_base m)
    = Inr ((map_base m)\<lparr>m_hlrNumber := a\<rparr>)"
  using assms str_opt_fits [OF assms]
  by (cases a)
    (simp_all add: decodeUpdateGprsLocationRes_def map_arg_simps updateGprsLocationRes_step_def str_opt_def)

lemma decode_PurgeMsRes:
  "decodePurgeMsRes (rd_at pre (ber_tlv kBerSequence (if b then ber_tlv kBerNull [] else []))) (map_base m)
    = Inr ((map_base m)\<lparr>m_freezePtmsi := b\<rparr>)"
proof -
  have "length (ber_tlv kBerNull []) \<le> 0xFFFF" by (simp add: ber_tlv_def ber_lenBytes_def)
  then show ?thesis
    by (cases b) (simp_all add: decodePurgeMsRes_def map_arg_simps purgeMsRes_step_def)
qed

subsection \<open>Messages\<close>

lemma map_invokeArgs_args:
  assumes "list_all isDigit (m_imsi m)" and "length (map_argBody m) \<le> 0xFFFF" and "m_component m = Invoke"
  shows "map_invokeArgs (rd_at pre (map_args m)) (map_base m) = Inr (map_view m)"
  using assms decode_SendAuthInfoReq [OF assms(1)] decode_UpdateGprsLocationReq [OF assms(1)]
    decode_CancelLocationReq [OF assms(1)] decode_InsertSubscriberDataReq [OF assms(1)]
    decode_DeleteSubscriberDataReq [OF assms(1)] decode_PurgeMsReq [OF assms(1)]
  by (auto simp: map_invokeArgs_def map_args_def map_hasArgs_def map_argBody_def map_view_def)

lemma map_resultArgs_args:
  assumes "length (map_argBody m) \<le> 0xFFFF" and "m_component m = ReturnResult"
  shows "map_resultArgs (rd_at pre (map_args m)) (map_base m) = Inr (map_view m)"
  using assms decode_SendAuthInfoRes [of "m_authTriplets m" "m_authQuintuplets m" pre m]
    decode_UpdateGprsLocationRes [of "m_hlrNumber m" pre m]
    decode_PurgeMsRes [of pre "m_freezePtmsi m" m]
  by (auto simp: map_resultArgs_def map_args_def map_hasArgs_def map_argBody_def map_view_def)

lemma tid_fold: "foldl (\<lambda>tid b. push_bit 8 tid OR ucast b) 0 (tid_bytes tid) = (tid :: u32)"
  using be32_join [of tid] by (simp add: tid_bytes_def or.assoc)

lemma map_component_body:
  assumes "list_all isDigit (m_imsi m)" and "length (map_argBody m) \<le> 0xFFFF" and "m_component m \<noteq> Reject"
    and "length (map_componentBody m) \<le> 0xFFFF"
  shows "map_component (map_componentTag (m_component m)) (map_componentBody m)
      (MapMessage_init\<lparr>m_transactionId := m_transactionId m\<rparr>) = Inr (map_view m)"
proof -
  have int: "length (octetInt v) \<le> 0xFFFF" for v using length_octetInt [of v] by simp
  let ?inner = "ber_tlv kBerInt (octetInt (m_operation m)) @ map_args m"
  have inner: "length ?inner \<le> 0xFFFF" if "m_component m = ReturnResult"
    using assms(4) that tlv_fits [of kBerSequence ?inner "0xFFFF"] by (simp add: map_componentBody_def)
  have base: "m_component m = c \<Longrightarrow> MapMessage_init\<lparr>m_transactionId := m_transactionId m,
      m_component := c, m_invokeId := m_invokeId m, m_operation := m_operation m\<rparr> = map_base m" for c
    by (simp add: map_base_def)
  have tags: "kCompTagReturnResult \<noteq> kCompTagInvoke" "kCompTagReturnError \<noteq> kCompTagInvoke"
    "kCompTagReturnError \<noteq> kCompTagReturnResult" by (simp_all add: wire_consts)
  note simps = map_component_def map_componentBody_def map_componentTag_def rd_new_at ber_loop_simps int
    decodeOctet_octetInt base tags
  consider "m_component m = Invoke" | "m_component m = ReturnResult" | "m_component m = ReturnError"
    using assms(3) by (cases "m_component m") auto
  then show ?thesis
  proof cases
    case 1
    then show ?thesis using map_invokeArgs_args [OF assms(1,2)] by (simp add: simps)
  next
    case 2
    then show ?thesis using map_resultArgs_args [OF assms(2)] inner by (simp add: simps)
  next
    case 3
    then show ?thesis by (simp add: simps) (simp add: map_view_def map_base_def MapMessage_init_def)
  qed
qed

lemma map_tcapField_tid:
  "map_tcapField (if req then kTcapTagOtid else kTcapTagDtid) (tid_bytes tid) m = Inr (m\<lparr>m_transactionId := tid\<rparr>)"
  by (simp add: map_tcapField_def tid_fold)

lemma map_tcapField_components:
  "map_tcapField kTcapTagComponents val m = ber_loop map_component (rd_new val) m"
  by (simp add: map_tcapField_def wire_consts)

lemma map_decode_pdu:
  assumes "list_all isDigit (m_imsi m)" and "map_fits m" and "m_component m \<noteq> Reject"
  shows "map_decode (map_pdu m) = Inr (map_view m)"
proof -
  let ?comp = "ber_tlv (map_componentTag (m_component m)) (map_componentBody m)"
  have len: "length (map_argBody m) \<le> 0xFFFF" "length (map_pduBody m) \<le> 0xFFFF"
    "length (map_componentBody m) \<le> 0xFFFF" "length ?comp \<le> 0xFFFF" "length (tid_bytes t) \<le> 0xFFFF" for t
    using assms(2) length_map_pduBody [of m] by (simp_all add: map_fits_def tid_bytes_def)
  have "map_decode (map_pdu m) = ber_loop map_tcapField (rd_at [] (map_pduBody m)) MapMessage_init"
    using len(2) by (simp add: map_decode_def map_pdu_def rd_new_at ber_readTlv_last)
  also have "\<dots> = ber_loop map_component (rd_new ?comp) (MapMessage_init\<lparr>m_transactionId := m_transactionId m\<rparr>)"
    unfolding map_pduBody_def
    by (simp only: ber_loop_cons [OF len(5)] ber_loop_last [OF len(4)] map_tcapField_tid
        map_tcapField_components rbind_simps)
  also have "\<dots> = Inr (map_view m)"
    by (simp only: rd_new_at ber_loop_last [OF len(3)] map_component_body [OF assms(1) len(1) assms(3) len(3)])
  finally show ?thesis .
qed

section \<open>Messages that fit\<close>

text \<open>Every message without authentication vectors whose fields stay below 1000 octets fits.\<close>

definition map_small :: "MapMessage \<Rightarrow> bool" where
  "map_small m \<longleftrightarrow> length (m_imsi m) \<le> 1000 \<and> m_authTriplets m = [] \<and> m_authQuintuplets m = [] \<and>
     list_all (\<lambda>v. case v of None \<Rightarrow> True | Some x \<Rightarrow> length x \<le> 1000)
       [m_sgsnNumber m, m_sgsnAddress m, m_hlrNumber m, m_msisdn m]"

lemma length_ber_tlv_le: "length (ber_tlv tag val) \<le> length val + 4"
  by (simp add: ber_tlv_def ber_lenBytes_def)

lemma tlv_le: "length val \<le> n \<Longrightarrow> length (ber_tlv tag val) \<le> n + 4"
  using length_ber_tlv_le [of tag val] by simp

lemma length_map_argBody:
  assumes "map_small m"
  shows "length (map_argBody m) \<le> 4000"
proof -
  have opt: "length (str_opt v) \<le> 1004" if "case v of None \<Rightarrow> True | Some x \<Rightarrow> length x \<le> 1000" for v
    using that length_ber_tlv_le [of kBerOctetStr] by (force simp: str_opt_def split: option.splits dest: tlv_le)
  have int: "length (ber_tlv tag (octetInt v)) \<le> 6" for tag v
    using length_octetInt [of v] length_ber_tlv_le [of tag "octetInt v"] by simp
  have "length (imsi_str m) \<le> 1004"
    using assms tlv_le [of "packDigits (m_imsi m)" 1000 kBerOctetStr]
    by (auto simp: imsi_str_def map_small_def length_packDigits)
  moreover have "length (case m_cancelType m of None \<Rightarrow> [] | Some t \<Rightarrow> ber_tlv kBerInt [t]) \<le> 5"
    by (simp add: ber_tlv_def ber_lenBytes_def split: option.split)
  moreover have "length (str_opt (m_sgsnNumber m)) \<le> 1004" "length (str_opt (m_sgsnAddress m)) \<le> 1004"
    "length (str_opt (m_hlrNumber m)) \<le> 1004" "length (str_opt (m_msisdn m)) \<le> 1004"
    using assms opt by (simp_all add: map_small_def)
  moreover have "length (ber_tlv kBerNull []) \<le> 4" using length_ber_tlv_le [of kBerNull "[]"] by simp
  ultimately show ?thesis
    using assms int [of kBerInt "value_or (m_numRequestedVectors m) 1"]
    by (simp add: map_argBody_def map_small_def)
qed

text \<open>Everything around the argument takes at most 40 octets.\<close>

lemma length_map_pdu_le:
  assumes body: "length (map_argBody m) \<le> n"
  shows "length (map_pduBody m) \<le> n + 36" "length (map_pdu m) \<le> n + 40"
proof -
  have int: "length (ber_tlv tag (octetInt v)) \<le> 6" for tag v
    using length_octetInt [of v] length_ber_tlv_le [of tag "octetInt v"] by simp
  have "length (map_args m) \<le> n + 4" using tlv_le [OF body, of kBerSequence] by (simp add: map_args_def)
  then have inner: "length (ber_tlv kBerInt (octetInt (m_operation m)) @ map_args m) \<le> n + 10"
    using int [of kBerInt "m_operation m"] by simp
  then have "length (map_componentBody m) \<le> n + 20"
    using tlv_le [OF inner, of kBerSequence] int [of kBerInt "m_invokeId m"]
      int [of kBerInt "value_or (m_errorCode m) 34"]
    by (simp add: map_componentBody_def split: ComponentType.split)
  then have "length (ber_tlv kTcapTagComponents (ber_tlv (map_componentTag (m_component m)) (map_componentBody m))) \<le> n + 28"
    using tlv_le [of "ber_tlv (map_componentTag (m_component m)) (map_componentBody m)" "n + 24" kTcapTagComponents]
      tlv_le [of "map_componentBody m" "n + 20"] by (simp add: add.commute)
  moreover have "length (ber_tlv (if m_component m = Invoke then kTcapTagOtid else kTcapTagDtid)
      (tid_bytes (m_transactionId m))) \<le> 8"
    using tlv_le [of "tid_bytes (m_transactionId m)" 4] by (simp add: tid_bytes_def)
  ultimately show pdu: "length (map_pduBody m) \<le> n + 36"
    unfolding map_pduBody_def length_append by linarith
  show "length (map_pdu m) \<le> n + 40" using tlv_le [OF pdu] by (simp add: map_pdu_def add.commute)
qed

lemma map_small_fits: "map_small m \<Longrightarrow> map_fits m"
  using length_map_argBody [of m] length_map_pdu_le(1) [of m 4000] by (simp add: map_fits_def)

section \<open>No undefined behaviour\<close>

lemma no_ub_leaves [simp]: "no_ub (map_bcdToImsi bcd)" "no_ub (decodeOctet val)"
  by (auto simp: map_bcdToImsi_def decodeOctet_def no_ub_unpackDigits intro: no_ub_rbind)

lemma no_ub_steps:
  "no_ub (sendAuthInfoReq_step t v m)" "no_ub (authFields_step t v fs)" "no_ub (updateGprsLocationReq_step t v s)"
  "no_ub (updateGprsLocationRes_step t v m)" "no_ub (cancelLocationReq_step t v s)"
  "no_ub (insertSubscriberDataReq_step t v s)" "no_ub (purgeMsReq_step t v s)" "no_ub (purgeMsRes_step t v m)"
  by (auto simp: sendAuthInfoReq_step_def authFields_step_def updateGprsLocationReq_step_def
      updateGprsLocationRes_step_def cancelLocationReq_step_def insertSubscriberDataReq_step_def
      purgeMsReq_step_def purgeMsRes_step_def intro!: no_ub_intros)

lemma no_ub_sendAuthInfoRes_step: "no_ub (sendAuthInfoRes_step t v m)"
  by (auto simp: sendAuthInfoRes_step_def no_ub_steps no_ub_vec_at intro!: no_ub_rbind no_ub_ber_loop)

lemmas no_ub_arg_simps = no_ub_steps no_ub_sendAuthInfoRes_step no_ub_ber_loop

lemma no_ub_map_args:
  "no_ub (decodeSendAuthInfoReq r m)" "no_ub (decodeSendAuthInfoRes r m)" "no_ub (decodeUpdateGprsLocationReq r m)"
  "no_ub (decodeUpdateGprsLocationRes r m)" "no_ub (decodeCancelLocationReq r m)"
  "no_ub (decodeInsertSubscriberDataReq r m)" "no_ub (decodeDeleteSubscriberDataReq r m)"
  "no_ub (decodePurgeMsReq r m)" "no_ub (decodePurgeMsRes r m)"
  by (auto simp: decodeSendAuthInfoReq_def decodeSendAuthInfoRes_def decodeUpdateGprsLocationReq_def
      decodeUpdateGprsLocationRes_def decodeCancelLocationReq_def decodeInsertSubscriberDataReq_def
      decodeDeleteSubscriberDataReq_def decodePurgeMsReq_def decodePurgeMsRes_def Let_def no_ub_arg_simps
      intro!: no_ub_rbind)

lemma no_ub_map_component: "no_ub (map_component t v m)"
  unfolding map_component_def map_invokeArgs_def map_resultArgs_def Let_def
  by (intro no_ub_intros; simp add: no_ub_map_args)

lemma no_ub_map_decode: "no_ub (map_decode bs)"
  by (auto simp: map_decode_def map_tcapField_def no_ub_map_component intro!: no_ub_rbind no_ub_ber_loop)

section \<open>Properties\<close>

lemma map_encode_cases:
  "map_encode m =
     (if length (map_argBody m) > 0xFFFF then Inl ber_error
      else if m_component m = Reject then Inl (runtime_error ''MAP: unsupported component type'')
      else if length (map_pduBody m) > 0xFFFF then Inl ber_error
      else Inr (map_pdu m))"
proof -
  have "map_encode m = Inl (runtime_error ''MAP: unsupported component type'')"
    if "m_component m = Reject" "length (map_argBody m) \<le> 0xFFFF"
    using that by (simp add: map_encode_def map_encodeArgs_fit seq_fit_def map_encodeComponent_def)
  moreover have "map_encode m = Inl ber_error" if "length (map_argBody m) > 0xFFFF"
  proof -
    have "map_hasArgs m" using that by (auto simp: map_argBody_def map_hasArgs_def split: if_splits)
    with that show ?thesis by (simp add: map_encode_def map_encodeArgs_fit seq_fit_def)
  qed
  ultimately show ?thesis using map_encode_fit [of m] by (auto simp: map_fits_def)
qed

lemma no_ub_map_encode: "no_ub (map_encode m)"
  by (simp add: map_encode_cases ber_error_def)

text \<open>
  C23: Whatever message is encoded, if the IMSI consists of digits, decoding the PDU succeeds and
  gives the message reduced to what its component and operation carry (\<open>map_view\<close>): envelope,
  invoke ID, and every field of the argument, with all authentication vectors in order.
\<close>

theorem map_decode_encode:
  assumes "map_encode m = Inr bs" and "list_all isDigit (m_imsi m)"
  shows "map_decode bs = Inr (map_view m)"
proof -
  have "m_component m \<noteq> Reject"
    using assms(1) by (auto simp: map_encode_def map_encodeComponent_def rbind_Inr_iff)
  with assms show ?thesis by (auto simp: map_encode_fit map_decode_pdu split: if_splits)
qed

theorem map_decode_encode_witness:
  "let m = MapMessage_init\<lparr>m_transactionId := 0x01020304, m_component := ReturnResult, m_invokeId := 200,
         m_operation := SendAuthenticationInfo,
         m_authTriplets := [\<lparr>t3_rand = [1], t3_sres = [2], t3_kc = []\<rparr>],
         m_authQuintuplets := [\<lparr>q5_rand = [1], q5_xres = [2], q5_ck = [3], q5_ik = [4], q5_autn = [5]\<rparr>]\<rparr>
   in map_encode m = Inr (map_pdu m) \<and> map_decode (map_pdu m) = Inr m"
proof -
  let ?m = "MapMessage_init\<lparr>m_transactionId := 0x01020304, m_component := ReturnResult, m_invokeId := 200,
         m_operation := SendAuthenticationInfo,
         m_authTriplets := [\<lparr>t3_rand = [1], t3_sres = [2], t3_kc = []\<rparr>],
         m_authQuintuplets := [\<lparr>q5_rand = [1], q5_xres = [2], q5_ck = [3], q5_ik = [4], q5_autn = [5]\<rparr>]\<rparr>"
  have "map_encode ?m = Inr (map_pdu ?m)" "list_all isDigit (m_imsi ?m)" "map_view ?m = ?m"
    by code_simp+
  with map_decode_encode [OF this(1,2)] show ?thesis unfolding Let_def by simp
qed

text \<open>
  The encoder is total up to the length bound of the BER writer: a Reject component is never
  encoded, every other message is encoded exactly when its argument and its PDU body fit the two
  octet length form, and otherwise throws; nothing is truncated.  In particular every message
  without authentication vectors and with fields of at most 1000 octets is encoded.
\<close>

lemma map_encode_total:
  "map_encode m =
     (if length (map_argBody m) > 0xFFFF then Inl (runtime_error ''BER: length too large for 2-byte form'')
      else if m_component m = Reject then Inl (runtime_error ''MAP: unsupported component type'')
      else if length (map_pduBody m) > 0xFFFF then Inl (runtime_error ''BER: length too large for 2-byte form'')
      else Inr (map_pdu m)) \<and>
   (map_small m \<and> m_component m \<noteq> Reject \<longrightarrow> map_encode m = Inr (map_pdu m))"
  using map_encode_cases [of m] map_small_fits [of m] by (auto simp: map_fits_def ber_error_def)

end
