(* ===== verification/Converter.thy ===== *)
theory Converter
  imports GsupMessage MapCodec
begin

text \<open>
  \<open>src/proxy/Converter.cpp\<close>: the translation between GSUP and MAP messages in both directions.
  The \<open>switch\<close> statements over message types and operations become chains of conditionals in the
  order of their cases; a \<open>default\<close> branch that throws is the error value.  Log output is left out.
\<close>

section \<open>GSUP request to MAP Invoke\<close>

definition gsupToMap :: "GsupMessage \<Rightarrow> u32 \<Rightarrow> byte \<Rightarrow> MapMessage result" where
  "gsupToMap g transactionId invokeId =
     (let m = MapMessage_init\<lparr>m_transactionId := transactionId, m_invokeId := invokeId,
                m_component := Invoke, m_imsi := g_imsi g\<rparr> in
      if g_type g = SendAuthInfoRequest then
        Inr (m\<lparr>m_operation := SendAuthenticationInfo,
               m_numRequestedVectors := Some (value_or (g_numVectorsRequested g) 1)\<rparr>)
      else if g_type g = UpdateLocationRequest then
        Inr (m\<lparr>m_operation := UpdateGprsLocation\<rparr>)
      else if g_type g = LocationCancelRequest then
        Inr (let m1 = m\<lparr>m_operation := CancelLocation\<rparr> in
             case g_cancelType g of None \<Rightarrow> m1 | Some c \<Rightarrow> m1\<lparr>m_cancelType := Some c\<rparr>)
      else if g_type g = InsertDataRequest then
        Inr (m\<lparr>m_operation := InsertSubscriberData, m_msisdn := g_msisdn g\<rparr>)
      else if g_type g = PurgeMsRequest then
        Inr (m\<lparr>m_operation := PurgeMS\<rparr>)
      else Inl (ConversionError ''gsupToMap: unsupported GSUP message type''))"

section \<open>MAP answer to GSUP result or error\<close>

definition mapErrorToGsup :: "MapMessage \<Rightarrow> GsupMessage \<Rightarrow> GsupMessage result" where
  "mapErrorToGsup m g =
     rbind (if m_operation m = SendAuthenticationInfo then Inr (g\<lparr>g_type := SendAuthInfoError\<rparr>)
            else if m_operation m = UpdateGprsLocation then Inr (g\<lparr>g_type := UpdateLocationError\<rparr>)
            else if m_operation m = CancelLocation then Inr (g\<lparr>g_type := LocationCancelError\<rparr>)
            else if m_operation m = InsertSubscriberData then Inr (g\<lparr>g_type := InsertDataError\<rparr>)
            else if m_operation m = PurgeMS then Inr (g\<lparr>g_type := PurgeMsError\<rparr>)
            else Inl (ConversionError ''mapToGsup: unknown operation in ReturnError''))
       (\<lambda>g1. Inr (g1\<lparr>g_cause := m_errorCode m\<rparr>))"

definition tripletTuple :: "MapAuthTriplet \<Rightarrow> AuthTuple" where
  "tripletTuple t = AuthTuple_init\<lparr>at_rand := t3_rand t, at_sres := t3_sres t, at_kc := t3_kc t\<rparr>"

definition quintupletTuple :: "MapAuthQuintuplet \<Rightarrow> AuthTuple" where
  "quintupletTuple q = AuthTuple_init\<lparr>at_rand := q5_rand q, at_sres := [], at_kc := [],
     at_ik := Some (q5_ik q), at_ck := Some (q5_ck q), at_autn := Some (q5_autn q),
     at_res := Some (q5_xres q)\<rparr>"

definition push_tuple :: "AuthTuple \<Rightarrow> GsupMessage \<Rightarrow> GsupMessage" where
  "push_tuple t g = g\<lparr>g_authTuples := g_authTuples g @ [t]\<rparr>"

definition mapToGsup :: "MapMessage \<Rightarrow> GsupMessage result" where
  "mapToGsup m =
     (let g = GsupMessage_init\<lparr>g_imsi := m_imsi m\<rparr> in
      if m_component m = ReturnError then mapErrorToGsup m g
      else if m_operation m = SendAuthenticationInfo then
        Inr (fold (\<lambda>q. push_tuple (quintupletTuple q)) (m_authQuintuplets m)
              (fold (\<lambda>t. push_tuple (tripletTuple t)) (m_authTriplets m)
                (g\<lparr>g_type := SendAuthInfoResult\<rparr>)))
      else if m_operation m = UpdateGprsLocation then
        Inr (g\<lparr>g_type := UpdateLocationResult, g_hlrNumber := m_hlrNumber m\<rparr>)
      else if m_operation m = CancelLocation then Inr (g\<lparr>g_type := LocationCancelResult\<rparr>)
      else if m_operation m = InsertSubscriberData then Inr (g\<lparr>g_type := InsertDataResult\<rparr>)
      else if m_operation m = PurgeMS then
        Inr (g\<lparr>g_type := PurgeMsResult, g_freezePtmsi := m_freezePtmsi m\<rparr>)
      else Inl (ConversionError ''mapToGsup: unsupported MAP operation''))"

section \<open>MAP Invoke from the HLR to GSUP request\<close>

definition mapInvokeToGsup :: "MapMessage \<Rightarrow> GsupMessage result" where
  "mapInvokeToGsup m =
     (if m_component m \<noteq> Invoke then Inl (ConversionError ''mapInvokeToGsup: expected Invoke component'')
      else
        let g = GsupMessage_init\<lparr>g_imsi := m_imsi m\<rparr> in
        if m_operation m = InsertSubscriberData then
          Inr (g\<lparr>g_type := InsertDataRequest, g_msisdn := m_msisdn m\<rparr>)
        else if m_operation m = CancelLocation then
          Inr (let g1 = g\<lparr>g_type := LocationCancelRequest\<rparr> in
               case m_cancelType m of None \<Rightarrow> g1 | Some c \<Rightarrow> g1\<lparr>g_cancelType := Some c\<rparr>)
        else if m_operation m = DeleteSubscriberData then Inr (g\<lparr>g_type := DeleteDataRequest\<rparr>)
        else if m_operation m = PurgeMS then Inr (g\<lparr>g_type := PurgeMsRequest\<rparr>)
        else Inl (ConversionError ''mapInvokeToGsup: unsupported MAP operation''))"

section \<open>GSUP answer of the SGSN to MAP\<close>

definition gsupToMapResult :: "GsupMessage \<Rightarrow> u32 \<Rightarrow> byte \<Rightarrow> MapMessage result" where
  "gsupToMapResult g transactionId invokeId =
     (let m = MapMessage_init\<lparr>m_transactionId := transactionId, m_invokeId := invokeId,
                m_imsi := g_imsi g, m_isLastComponent := True\<rparr>;
          isError = (g_type g = InsertDataError \<or> g_type g = LocationCancelError \<or>
                     g_type g = DeleteDataError \<or> g_type g = PurgeMsError);
          m = m\<lparr>m_component := (if isError then ReturnError else ReturnResult)\<rparr>;
          m = (if isError then m\<lparr>m_errorCode := g_cause g\<rparr> else m)
      in if g_type g = InsertDataResult \<or> g_type g = InsertDataError then
           Inr (m\<lparr>m_operation := InsertSubscriberData\<rparr>)
         else if g_type g = LocationCancelResult \<or> g_type g = LocationCancelError then
           Inr (m\<lparr>m_operation := CancelLocation\<rparr>)
         else if g_type g = DeleteDataResult \<or> g_type g = DeleteDataError then
           Inr (m\<lparr>m_operation := DeleteSubscriberData\<rparr>)
         else if g_type g = PurgeMsResult \<or> g_type g = PurgeMsError then
           Inr (m\<lparr>m_operation := PurgeMS\<rparr>)
         else Inl (ConversionError ''gsupToMapResult: not an HLR-initiated result type''))"

definition isHlrInitiatedGsupType :: "MessageType \<Rightarrow> bool" where
  "isHlrInitiatedGsupType t \<longleftrightarrow>
     t = InsertDataResult \<or> t = InsertDataError \<or> t = LocationCancelResult \<or> t = LocationCancelError \<or>
     t = DeleteDataResult \<or> t = DeleteDataError \<or> t = PurgeMsResult \<or> t = PurgeMsError"

section \<open>Expected answer types\<close>

definition expectedGsupResult :: "MessageType \<Rightarrow> MessageType result" where
  "expectedGsupResult req =
     (if req = SendAuthInfoRequest then Inr SendAuthInfoResult
      else if req = UpdateLocationRequest then Inr UpdateLocationResult
      else if req = LocationCancelRequest then Inr LocationCancelResult
      else if req = InsertDataRequest then Inr InsertDataResult
      else if req = PurgeMsRequest then Inr PurgeMsResult
      else Inl (ConversionError ''expectedGsupResult: not a request type''))"

definition expectedGsupError :: "MessageType \<Rightarrow> MessageType result" where
  "expectedGsupError req =
     (if req = SendAuthInfoRequest then Inr SendAuthInfoError
      else if req = UpdateLocationRequest then Inr UpdateLocationError
      else if req = LocationCancelRequest then Inr LocationCancelError
      else if req = InsertDataRequest then Inr InsertDataError
      else if req = PurgeMsRequest then Inr PurgeMsError
      else Inl (ConversionError ''expectedGsupError: not a request type''))"

section \<open>What the conversions keep\<close>

text \<open>The five requests the proxy forwards to the HLR, and the operations they become.\<close>

definition sgsn_requests :: "(MessageType \<times> MapOperation) list" where
  "sgsn_requests =
     [(SendAuthInfoRequest, SendAuthenticationInfo), (UpdateLocationRequest, UpdateGprsLocation),
      (LocationCancelRequest, CancelLocation), (InsertDataRequest, InsertSubscriberData),
      (PurgeMsRequest, PurgeMS)]"

lemma gsupToMap_operation:
  "gsupToMap g tid iid = Inr m \<Longrightarrow> (g_type g, m_operation m) \<in> set sgsn_requests"
  by (auto simp: gsupToMap_def sgsn_requests_def Let_def split: if_splits option.splits)

lemma gsupToMap_envelope:
  "gsupToMap g tid iid = Inr m \<Longrightarrow>
     m_transactionId m = tid \<and> m_invokeId m = iid \<and> m_component m = Invoke \<and> m_imsi m = g_imsi g"
  by (auto simp: gsupToMap_def Let_def split: if_splits option.splits)

lemma gsupToMap_total:
  "(g_type g, op) \<in> set sgsn_requests \<Longrightarrow> \<exists>m. gsupToMap g tid iid = Inr m \<and> m_operation m = op"
  by (auto simp: gsupToMap_def sgsn_requests_def Let_def wire_consts split: option.splits)

lemma fold_push_tuple:
  "fold (\<lambda>x. push_tuple (f x)) xs g = g\<lparr>g_authTuples := g_authTuples g @ map f xs\<rparr>"
  by (induction xs arbitrary: g) (simp_all add: push_tuple_def)

text \<open>What the HLR decodes is exactly the message the converter built.\<close>

lemma gsupToMap_view: "gsupToMap g tid iid = Inr m \<Longrightarrow> map_view m = m"
  by (auto simp: gsupToMap_def Let_def map_view_def map_base_def MapMessage_init_def value_or_def
      split: if_splits option.splits)

lemma gsupToMap_small:
  "gsupToMap g tid iid = Inr m \<Longrightarrow> length (g_imsi g) \<le> 1000 \<Longrightarrow>
     (\<And>x. g_msisdn g = Some x \<Longrightarrow> length x \<le> 1000) \<Longrightarrow> map_small m"
  by (auto simp: gsupToMap_def Let_def map_small_def MapMessage_init_def split: if_splits option.splits)

lemma gsupToMap_argBody:
  assumes "gsupToMap g tid iid = Inr m" and "length (g_imsi g) \<le> 15" and "\<And>x. g_msisdn g = Some x \<Longrightarrow> length x \<le> 100"
  shows "length (map_argBody m) \<le> 116"
proof -
  have "m_imsi m = g_imsi g" using assms(1) by (auto simp: gsupToMap_def Let_def split: if_splits option.splits)
  then have imsi: "length (imsi_str m) \<le> 12"
    using assms(2) tlv_le [of "packDigits (m_imsi m)" 8 kBerOctetStr] by (simp add: imsi_str_def length_packDigits)
  have fields: "m_component m = Invoke \<and> m_sgsnNumber m = None \<and> m_sgsnAddress m = None \<and>
      (m_operation m = SendAuthenticationInfo \<or> m_operation m = UpdateGprsLocation \<and> m_cancelType m = None \<or>
       m_operation m = CancelLocation \<or> m_operation m = InsertSubscriberData \<and> m_msisdn m = g_msisdn g \<or>
       m_operation m = PurgeMS \<and> m_cancelType m = None)"
    using assms(1) by (auto simp: gsupToMap_def Let_def MapMessage_init_def split: if_splits option.splits)
  have ops: "distinct [SendAuthenticationInfo, UpdateGprsLocation, CancelLocation, InsertSubscriberData, DeleteSubscriberData, PurgeMS]"
    by (simp add: wire_consts)
  let ?extra = "if m_operation m = InsertSubscriberData then str_opt (g_msisdn g)
       else if m_operation m = SendAuthenticationInfo then ber_tlv kBerInt (octetInt (value_or (m_numRequestedVectors m) 1))
       else case m_cancelType m of None \<Rightarrow> [] | Some t \<Rightarrow> ber_tlv kBerInt [t]"
  have tlv: "length (ber_tlv kBerInt v) \<le> 104" if "length v \<le> 2" for v using tlv_le [OF that, of kBerInt] by simp
  have "length (str_opt (g_msisdn g)) \<le> 104"
    using assms(3) tlv_le [of _ 100 kBerOctetStr] by (auto simp: str_opt_def split: option.split)
  then have "length ?extra \<le> 104" using tlv [OF length_octetInt] tlv by (simp split: option.split)
  moreover have "map_argBody m = imsi_str m @ ?extra"
    using fields ops by (auto simp: map_argBody_def str_opt_def)
  ultimately show ?thesis using imsi by simp
qed

lemma gsupToMapResult_envelope:
  "gsupToMapResult g tid iid = Inr m \<Longrightarrow>
     m_transactionId m = tid \<and> m_invokeId m = iid \<and> m_component m \<noteq> Invoke \<and> m_component m \<noteq> Reject \<and>
     m_imsi m = g_imsi g"
  by (auto simp: gsupToMapResult_def Let_def split: if_splits)

lemma gsupToMapResult_small:
  "gsupToMapResult g tid iid = Inr m \<Longrightarrow> length (g_imsi g) \<le> 1000 \<Longrightarrow> map_small m"
  by (auto simp: gsupToMapResult_def Let_def map_small_def MapMessage_init_def split: if_splits)

lemma gsupToMapResult_argBody:
  assumes "gsupToMapResult g tid iid = Inr m" and "length (g_imsi g) \<le> 15"
  shows "length (map_argBody m) \<le> 12"
proof -
  have fields: "m_component m \<noteq> Invoke \<and> m_imsi m = g_imsi g \<and> m_cancelType m = None \<and> m_msisdn m = None \<and> \<not> m_freezePtmsi m \<and>
      m_operation m \<in> {InsertSubscriberData, CancelLocation, DeleteSubscriberData, PurgeMS}"
    using assms(1) by (auto simp: gsupToMapResult_def Let_def MapMessage_init_def split: if_splits)
  then have "length (imsi_str m) \<le> 12"
    using assms(2) tlv_le [of "packDigits (m_imsi m)" 8 kBerOctetStr] by (simp add: imsi_str_def length_packDigits)
  then show ?thesis using fields by (auto simp: map_argBody_def str_opt_def wire_consts)
qed

lemma mapToGsup_imsi: "mapToGsup m = Inr g \<Longrightarrow> g_imsi g = m_imsi m"
  by (auto simp: mapToGsup_def mapErrorToGsup_def Let_def fold_push_tuple split: if_splits)

lemma answer_types:
  assumes "(t, op) \<in> set sgsn_requests" and "m_operation r = op"
  shows "m_component r = ReturnError \<Longrightarrow>
      \<exists>a. mapToGsup r = Inr a \<and> expectedGsupError t = Inr (g_type a) \<and> g_cause a = m_errorCode r"
    and "m_component r = ReturnResult \<Longrightarrow>
      \<exists>a. mapToGsup r = Inr a \<and> expectedGsupResult t = Inr (g_type a) \<and> g_cause a = None"
  using assms
  by (auto simp: sgsn_requests_def mapToGsup_def mapErrorToGsup_def expectedGsupError_def expectedGsupResult_def
      wire_consts fold_push_tuple GsupMessage_init_def)

text \<open>HLR-initiated requests: request type, operation, result type, error type.\<close>

definition hlr_requests :: "(MessageType \<times> MapOperation \<times> MessageType \<times> MessageType) list" where
  "hlr_requests =
     [(InsertDataRequest, InsertSubscriberData, InsertDataResult, InsertDataError),
      (LocationCancelRequest, CancelLocation, LocationCancelResult, LocationCancelError),
      (DeleteDataRequest, DeleteSubscriberData, DeleteDataResult, DeleteDataError),
      (PurgeMsRequest, PurgeMS, PurgeMsResult, PurgeMsError)]"

lemma mapInvokeToGsup_ok:
  "mapInvokeToGsup m = Inr g \<Longrightarrow>
     (\<exists>res err. (g_type g, m_operation m, res, err) \<in> set hlr_requests) \<and> g_imsi g = m_imsi m"
  by (auto simp: mapInvokeToGsup_def hlr_requests_def Let_def split: if_splits option.splits)

lemma mapInvokeToGsup_total:
  "m_component m = Invoke \<Longrightarrow> (t, m_operation m, res, err) \<in> set hlr_requests \<Longrightarrow>
     \<exists>g. mapInvokeToGsup m = Inr g \<and> g_type g = t \<and> g_imsi g = m_imsi m"
  by (auto simp: mapInvokeToGsup_def hlr_requests_def Let_def split: option.splits)

lemma hlr_answer:
  assumes "(t, op, res, err) \<in> set hlr_requests"
  shows "g_type a = res \<Longrightarrow> \<exists>r. gsupToMapResult a tid iid = Inr r \<and> m_component r = ReturnResult \<and> m_operation r = op"
    and "g_type a = err \<Longrightarrow> \<exists>r. gsupToMapResult a tid iid = Inr r \<and> m_component r = ReturnError \<and>
           m_operation r = op \<and> m_errorCode r = g_cause a"
  using assms by (auto simp: hlr_requests_def gsupToMapResult_def Let_def wire_consts)

text \<open>The conversions throw nothing but \<open>ConversionError\<close>.\<close>

lemma conversion_errors:
  "gsupToMap g tid iid = Inl e \<Longrightarrow> is_ConversionError e"
  "mapToGsup m = Inl e \<Longrightarrow> is_ConversionError e"
  "mapInvokeToGsup m = Inl e \<Longrightarrow> is_ConversionError e"
  "gsupToMapResult g tid iid = Inl e \<Longrightarrow> is_ConversionError e"
  by (auto simp: gsupToMap_def mapToGsup_def mapErrorToGsup_def mapInvokeToGsup_def gsupToMapResult_def Let_def
      split: if_splits)

lemma conversion_error_std: "is_ConversionError e \<Longrightarrow> is_std_exception e"
  by (cases e) simp_all

text \<open>Reading the authentication vectors back from GSUP tuples: RES marks a quintuplet.\<close>

fun tuple_triplets :: "AuthTuple list \<Rightarrow> MapAuthTriplet list" where
  "tuple_triplets [] = []"
| "tuple_triplets (t # ts) =
     (if at_res t = None then [\<lparr>t3_rand = at_rand t, t3_sres = at_sres t, t3_kc = at_kc t\<rparr>] else []) @
     tuple_triplets ts"

fun tuple_quintuplets :: "AuthTuple list \<Rightarrow> MapAuthQuintuplet list" where
  "tuple_quintuplets [] = []"
| "tuple_quintuplets (t # ts) =
     (case (at_res t, at_ck t, at_ik t, at_autn t) of
        (Some res, Some ck, Some ik, Some autn) \<Rightarrow>
          [\<lparr>q5_rand = at_rand t, q5_xres = res, q5_ck = ck, q5_ik = ik, q5_autn = autn\<rparr>]
      | _ \<Rightarrow> []) @ tuple_quintuplets ts"

lemma tuples_append:
  "tuple_triplets (xs @ ys) = tuple_triplets xs @ tuple_triplets ys"
  "tuple_quintuplets (xs @ ys) = tuple_quintuplets xs @ tuple_quintuplets ys"
  by (induction xs) simp_all

lemma tuples_of_triplets:
  "tuple_triplets (map tripletTuple ts) = ts" "tuple_quintuplets (map tripletTuple ts) = []"
  by (induction ts) (simp_all add: tripletTuple_def AuthTuple_init_def)

lemma tuples_of_quintuplets:
  "tuple_triplets (map quintupletTuple qs) = []" "tuple_quintuplets (map quintupletTuple qs) = qs"
  by (induction qs) (simp_all add: quintupletTuple_def AuthTuple_init_def)

section \<open>Properties\<close>

text \<open>
  C32: Requests and answers match.  Whenever \<open>gsupToMap\<close> translates a GSUP request, every MAP answer
  for the resulting operation is translated back without an exception: a ReturnResult to the GSUP
  type \<open>expectedGsupResult\<close> names for the request, a ReturnError to the one of \<open>expectedGsupError\<close>,
  with the MAP error code as the cause and the IMSI of the answer.
\<close>

theorem converter_answers_match:
  assumes "gsupToMap g tid iid = Inr m" and "m_operation r = m_operation m"
  shows "(m_component r = ReturnResult \<longrightarrow>
      (\<exists>a. mapToGsup r = Inr a \<and> expectedGsupResult (g_type g) = Inr (g_type a) \<and> g_imsi a = m_imsi r \<and>
        g_cause a = None)) \<and>
    (m_component r = ReturnError \<longrightarrow>
      (\<exists>a. mapToGsup r = Inr a \<and> expectedGsupError (g_type g) = Inr (g_type a) \<and> g_imsi a = m_imsi r \<and>
        g_cause a = m_errorCode r))"
  using answer_types [OF gsupToMap_operation [OF assms(1)] assms(2)] mapToGsup_imsi by blast

theorem converter_answers_match_witness:
  "\<exists>a. mapToGsup (MapMessage_init\<lparr>m_component := ReturnError, m_operation := PurgeMS, m_errorCode := Some 1\<rparr>) = Inr a \<and>
     expectedGsupError PurgeMsRequest = Inr (g_type a) \<and> g_cause a = Some 1"
proof -
  let ?g = "GsupMessage_init\<lparr>g_type := PurgeMsRequest, g_imsi := ''001''\<rparr>"
  let ?m = "MapMessage_init\<lparr>m_transactionId := 7, m_invokeId := 1, m_imsi := ''001'', m_operation := PurgeMS\<rparr>"
  have h: "gsupToMap ?g 7 1 = Inr ?m" by code_simp
  from converter_answers_match [OF h, of "MapMessage_init\<lparr>m_component := ReturnError, m_operation := PurgeMS, m_errorCode := Some 1\<rparr>"]
  show ?thesis by auto
qed

text \<open>
  A translated request survives the wire unchanged: for an IMSI of up to 1000 digits and an
  MSISDN of up to 1000 octets the MAP Invoke is encoded, and decoding it gives exactly the message
  that was built, with the TCAP transaction ID, the invoke ID and the IMSI of the request.
\<close>

lemma converter_request_wire:
  assumes "gsupToMap g tid iid = Inr m" and "list_all isDigit (g_imsi g)" and "length (g_imsi g) \<le> 1000"
    and "\<And>x. g_msisdn g = Some x \<Longrightarrow> length x \<le> 1000"
  shows "\<exists>bs. map_encode m = Inr bs \<and> map_decode bs = Inr m \<and> m_transactionId m = tid \<and>
    m_invokeId m = iid \<and> m_imsi m = g_imsi g \<and> m_component m = Invoke"
proof -
  have env: "m_transactionId m = tid \<and> m_invokeId m = iid \<and> m_component m = Invoke \<and> m_imsi m = g_imsi g"
    using assms(1) by (rule gsupToMap_envelope)
  have fits: "map_fits m" using gsupToMap_small [OF assms(1,3,4)] by (rule map_small_fits)
  then have "map_encode m = Inr (map_pdu m)" using env by (simp add: map_encode_fit)
  moreover have "map_decode (map_pdu m) = Inr m"
    using map_decode_pdu [OF _ fits] env assms(2) gsupToMap_view [OF assms(1)] by simp
  ultimately show ?thesis using env by blast
qed

text \<open>
  HLR-initiated requests.  Every MAP Invoke that \<open>mapInvokeToGsup\<close> accepts becomes a GSUP request
  for the same IMSI, whose result and error types \<open>gsupToMapResult\<close> translates back to a
  ReturnResult, or a ReturnError with the cause as error code, of the same operation and with the
  given transaction and invoke IDs.
\<close>

lemma converter_hlr_answers_match:
  assumes "mapInvokeToGsup m = Inr g"
  shows "g_imsi g = m_imsi m \<and>
    (\<exists>res err. \<forall>a tid iid.
      (g_type a = res \<longrightarrow> (\<exists>r. gsupToMapResult a tid iid = Inr r \<and> m_component r = ReturnResult \<and>
         m_operation r = m_operation m \<and> m_transactionId r = tid \<and> m_invokeId r = iid)) \<and>
      (g_type a = err \<longrightarrow> (\<exists>r. gsupToMapResult a tid iid = Inr r \<and> m_component r = ReturnError \<and>
         m_operation r = m_operation m \<and> m_errorCode r = g_cause a \<and> m_transactionId r = tid \<and> m_invokeId r = iid)))"
proof -
  obtain res err where req: "(g_type g, m_operation m, res, err) \<in> set hlr_requests"
    using mapInvokeToGsup_ok [OF assms] by blast
  show ?thesis
    using mapInvokeToGsup_ok [OF assms] hlr_answer [OF req] gsupToMapResult_envelope by blast
qed

text \<open>
  \<open>isHlrInitiatedGsupType\<close> decides exactly which GSUP messages \<open>gsupToMapResult\<close> can translate, and
  none of those is a request that \<open>gsupToMap\<close> would translate: the two directions never mix.
\<close>

lemma hlr_types_exact:
  "(isHlrInitiatedGsupType (g_type g) \<longleftrightarrow> (\<exists>m. gsupToMapResult g tid iid = Inr m)) \<and>
   \<not> (isHlrInitiatedGsupType (g_type g) \<and> (\<exists>m. gsupToMap g tid iid = Inr m))"
  by (auto simp: isHlrInitiatedGsupType_def gsupToMapResult_def gsupToMap_def Let_def wire_consts)

text \<open>
  C33: No authentication vector is lost or mixed up on the way from the HLR to the SGSN: from the
  authentication tuples of the GSUP result, the ones without RES are the triplets and the ones with
  RES, CK, IK and AUTN the quintuplets of the MAP result, in order and with every field.
\<close>

theorem auth_vectors_preserved:
  assumes "m_operation m = SendAuthenticationInfo" and "m_component m = ReturnResult"
  shows "\<exists>g. mapToGsup m = Inr g \<and> g_type g = SendAuthInfoResult \<and>
    tuple_triplets (g_authTuples g) = m_authTriplets m \<and> tuple_quintuplets (g_authTuples g) = m_authQuintuplets m"
proof -
  let ?tuples = "map tripletTuple (m_authTriplets m) @ map quintupletTuple (m_authQuintuplets m)"
  have "mapToGsup m = Inr (GsupMessage_init\<lparr>g_imsi := m_imsi m, g_type := SendAuthInfoResult, g_authTuples := ?tuples\<rparr>)"
    using assms by (simp add: mapToGsup_def fold_push_tuple GsupMessage_init_def)
  then show ?thesis
    by (simp add: tuples_append tuples_of_triplets tuples_of_quintuplets)
qed

theorem auth_vectors_preserved_witness:
  "\<exists>g. mapToGsup (MapMessage_init\<lparr>m_operation := SendAuthenticationInfo, m_component := ReturnResult,
        m_authTriplets := [\<lparr>t3_rand = [1], t3_sres = [2], t3_kc = [3]\<rparr>]\<rparr>) = Inr g \<and>
     tuple_triplets (g_authTuples g) = [\<lparr>t3_rand = [1], t3_sres = [2], t3_kc = [3]\<rparr>]"
  using auth_vectors_preserved [of "MapMessage_init\<lparr>m_operation := SendAuthenticationInfo,
      m_component := ReturnResult, m_authTriplets := [\<lparr>t3_rand = [1], t3_sres = [2], t3_kc = [3]\<rparr>]\<rparr>"]
  by auto

end
