(* ===== verification/TransactionManager.thy ===== *)
theory TransactionManager
  imports Prelude
begin

text \<open>
  \<open>src/proxy/TransactionManager.cpp\<close>: the pending requests of the SGSNs, keyed by the TCAP
  transaction ID the proxy chose.

  The hash table is a map; its iteration order, which the standard leaves unspecified, is an
  argument of the one operation that iterates, a list of the keys.  The steady clock is an argument
  of the operations that read it, in clock ticks (nanoseconds).  \<open>tidCounter_\<close> and
  \<open>invokeIdCounter_\<close> wrap at their widths.
\<close>

record PendingTransaction =
  mapTransactionId :: u32
  mapInvokeId :: byte
  tx_imsi :: string
  clientContext :: u64
  createdAt :: int

record TransactionManager =
  tidCounter :: u32
  invokeIdCounter :: byte
  timeout :: int
  transactions :: "u32 \<rightharpoonup> PendingTransaction"

definition ticks_per_second :: int where
  "ticks_per_second = 1000000000"

definition tm_new :: "int \<Rightarrow> TransactionManager" where
  "tm_new t = \<lparr>tidCounter = 1, invokeIdCounter = 1, timeout = t, transactions = Map.empty\<rparr>"

definition nextTid :: "TransactionManager \<Rightarrow> u32 \<times> TransactionManager" where
  "nextTid tm =
     (let c = (if tidCounter tm = 0 then 1 else tidCounter tm)
      in (c, tm\<lparr>tidCounter := c + 1\<rparr>))"

definition nextInvokeId :: "TransactionManager \<Rightarrow> byte \<times> TransactionManager" where
  "nextInvokeId tm =
     (let c = (if invokeIdCounter tm > 127 then 1 else invokeIdCounter tm)
      in (c, tm\<lparr>invokeIdCounter := c + 1\<rparr>))"

text \<open>\<open>emplace\<close> leaves an existing entry as it is.\<close>

definition emplace :: "'k \<Rightarrow> 'v \<Rightarrow> ('k \<rightharpoonup> 'v) \<Rightarrow> ('k \<rightharpoonup> 'v)" where
  "emplace k v m = (case m k of None \<Rightarrow> m(k \<mapsto> v) | Some _ \<Rightarrow> m)"

definition allocate :: "string \<Rightarrow> u64 \<Rightarrow> int \<Rightarrow> TransactionManager \<Rightarrow> u32 \<times> TransactionManager" where
  "allocate imsi ctx now tm =
     (case nextTid tm of (tid, tm1) \<Rightarrow>
      case nextInvokeId tm1 of (iid, tm2) \<Rightarrow>
        let t = \<lparr>mapTransactionId = tid, mapInvokeId = iid, tx_imsi = imsi, clientContext = ctx, createdAt = now\<rparr>
        in (tid, tm2\<lparr>transactions := emplace tid t (transactions tm2)\<rparr>))"

definition find_tx :: "TransactionManager \<Rightarrow> u32 \<Rightarrow> PendingTransaction option" where
  "find_tx tm tid = transactions tm tid"

definition complete :: "TransactionManager \<Rightarrow> u32 \<Rightarrow> TransactionManager" where
  "complete tm tid = tm\<lparr>transactions := (transactions tm)(tid := None)\<rparr>"

definition is_stale :: "int \<Rightarrow> int \<Rightarrow> int \<Rightarrow> bool" where
  "is_stale now limit created \<longleftrightarrow> now - created > limit * ticks_per_second"

text \<open>The loop of \<open>expireStale\<close>: visit the entries in iteration order, erase and collect the stale ones.\<close>

fun expireLoop :: "int \<Rightarrow> u32 list \<Rightarrow> TransactionManager \<Rightarrow> PendingTransaction list \<times> TransactionManager" where
  "expireLoop now [] tm = ([], tm)"
| "expireLoop now (k # ks) tm =
     (case transactions tm k of
        None \<Rightarrow> expireLoop now ks tm
      | Some t \<Rightarrow>
          if is_stale now (timeout tm) (createdAt t) then
            (case expireLoop now ks (complete tm k) of (es, tm') \<Rightarrow> (t # es, tm'))
          else expireLoop now ks tm)"

definition expireStale :: "int \<Rightarrow> u32 list \<Rightarrow> TransactionManager \<Rightarrow> PendingTransaction list \<times> TransactionManager" where
  "expireStale now order tm = expireLoop now order tm"

definition tm_size :: "TransactionManager \<Rightarrow> nat" where
  "tm_size tm = card (dom (transactions tm))"

section \<open>The interface of a transaction store\<close>

text \<open>
  What a client relies on: a request is registered under the next key with its own entry unless the
  key is taken, everything else stays; completing a key removes that entry only.
\<close>

locale tx_store =
  fixes find :: "'s \<Rightarrow> 'k \<Rightarrow> 't option"
    and put :: "'a \<Rightarrow> 's \<Rightarrow> 'k \<times> 's"
    and remove :: "'s \<Rightarrow> 'k \<Rightarrow> 's"
    and next_key :: "'s \<Rightarrow> 'k"
    and entry :: "'a \<Rightarrow> 's \<Rightarrow> 't"
  assumes put_key: "fst (put a s) = next_key s"
    and find_put: "find (snd (put a s)) k =
          (if k = next_key s \<and> find s k = None then Some (entry a s) else find s k)"
    and find_remove: "find (remove s k) j = (if j = k then None else find s j)"
begin

lemma put_found: "\<exists>t. find (snd (put a s)) (fst (put a s)) = Some t"
  by (cases "find s (next_key s)") (simp_all add: find_put put_key)

lemma put_fresh: "find s (next_key s) = None \<Longrightarrow> find (snd (put a s)) (fst (put a s)) = Some (entry a s)"
  by (simp add: find_put put_key)

lemma put_keeps: "find s k = Some t \<Longrightarrow> find (snd (put a s)) k = Some t"
  by (simp add: find_put)

text \<open>A request that is withdrawn at once leaves no trace.\<close>

lemma put_remove: "find s (next_key s) = None \<Longrightarrow> find (remove (snd (put a s)) (fst (put a s))) = find s"
  by (rule ext) (simp add: find_put find_remove put_key)

lemma put_dom: "dom (find (snd (put a s))) = insert (next_key s) (dom (find s))"
  by (auto simp: dom_def find_put split: if_splits)

lemma remove_dom: "dom (find (remove s k)) = dom (find s) - {k}"
  by (auto simp: dom_def find_remove split: if_splits)

end

text \<open>The key and the entry the next request gets.\<close>

definition next_tid :: "TransactionManager \<Rightarrow> u32" where
  "next_tid tm = fst (nextTid tm)"

definition next_entry :: "string \<times> u64 \<times> int \<Rightarrow> TransactionManager \<Rightarrow> PendingTransaction" where
  "next_entry a tm = (case a of (imsi, ctx, now) \<Rightarrow>
     \<lparr>mapTransactionId = next_tid tm, mapInvokeId = fst (nextInvokeId tm), tx_imsi = imsi,
      clientContext = ctx, createdAt = now\<rparr>)"

interpretation tx: tx_store find_tx "\<lambda>(imsi, ctx, now). allocate imsi ctx now" complete next_tid next_entry
  by unfold_locales
    (auto simp: find_tx_def allocate_def complete_def next_tid_def next_entry_def emplace_def
      nextTid_def nextInvokeId_def Let_def split: option.splits if_splits)

lemma allocate_fields [simp]:
  "fst (allocate imsi ctx now tm) = next_tid tm"
  "timeout (snd (allocate imsi ctx now tm)) = timeout tm"
  "tidCounter (snd (allocate imsi ctx now tm)) = next_tid tm + 1"
  "invokeIdCounter (snd (allocate imsi ctx now tm)) = fst (nextInvokeId tm) + 1"
  by (simp_all add: allocate_def next_tid_def nextTid_def nextInvokeId_def Let_def)

lemma complete_fields [simp]:
  "timeout (complete tm k) = timeout tm" "tidCounter (complete tm k) = tidCounter tm"
  "invokeIdCounter (complete tm k) = invokeIdCounter tm"
  "(complete tm k)\<lparr>transactions := f\<rparr> = tm\<lparr>transactions := f\<rparr>"
  by (simp_all add: complete_def)

section \<open>Counters\<close>

text \<open>Transaction IDs run from 1 to \<open>2^32 - 1\<close> and start over, skipping 0.\<close>

definition tid_period :: nat where
  "tid_period = 2 ^ 32 - 1"

definition nth_tid :: "nat \<Rightarrow> u32" where
  "nth_tid n = of_nat (1 + n mod tid_period)"

lemma unat_nth_tid: "unat (nth_tid n) = 1 + n mod tid_period"
proof -
  have "1 + n mod tid_period < 2 ^ LENGTH(32)"
    using mod_less_divisor [of tid_period n] by (simp add: tid_period_def)
  then show ?thesis unfolding nth_tid_def unat_of_nat by (simp only: mod_less)
qed

lemma nth_tid_Suc: "nth_tid (Suc n) = (if nth_tid n + 1 = 0 then 1 else nth_tid n + 1)"
proof (cases "Suc (n mod tid_period) = tid_period")
  case True
  then have "1 + n mod tid_period = 2 ^ 32 - 1" by (simp add: tid_period_def)
  then have "nth_tid n = - 1" unfolding nth_tid_def by simp
  moreover have "nth_tid (Suc n) = 1" using True by (simp add: nth_tid_def mod_Suc)
  ultimately show ?thesis by simp
next
  case False
  have "nth_tid n + 1 \<noteq> 0"
  proof
    assume "nth_tid n + 1 = 0"
    then have "nth_tid n = - 1" by (simp add: eq_neg_iff_add_eq_0)
    then have "unat (nth_tid n) = 2 ^ 32 - 1" by (simp add: unsigned_minus_1_eq_mask mask_eq_exp_minus_1)
    then show False using False by (simp add: unat_nth_tid tid_period_def)
  qed
  moreover have "nth_tid (Suc n) = nth_tid n + 1"
    using False by (simp add: nth_tid_def mod_Suc add.commute)
  ultimately show ?thesis by simp
qed

definition nth_invokeId :: "nat \<Rightarrow> byte" where
  "nth_invokeId n = of_nat (1 + n mod 127)"

lemma unat_nth_invokeId: "unat (nth_invokeId n) = 1 + n mod 127"
proof -
  have "1 + n mod 127 < 256" using mod_less_divisor [of 127 n] by simp
  then show ?thesis unfolding nth_invokeId_def by (rule unat_byte_of_nat)
qed

lemma nth_invokeId_Suc: "nth_invokeId (Suc n) = (if nth_invokeId n + 1 > 127 then 1 else nth_invokeId n + 1)"
proof -
  have "unat (nth_invokeId n + 1) = 2 + n mod 127"
  proof -
    have "nth_invokeId n + 1 = of_nat (2 + n mod 127)" by (simp add: nth_invokeId_def)
    moreover have "2 + n mod 127 < 256" using mod_less_divisor [of 127 n] by simp
    ultimately show ?thesis by (simp only: unat_byte_of_nat)
  qed
  then have "nth_invokeId n + 1 > 127 \<longleftrightarrow> Suc (n mod 127) = 127"
    using mod_less_divisor [of 127 n] by (auto simp: word_less_nat_alt)
  then show ?thesis by (auto simp: nth_invokeId_def mod_Suc add.commute)
qed

text \<open>A state in which \<open>n\<close> transactions have been allocated so far.\<close>

definition counters_at :: "nat \<Rightarrow> TransactionManager \<Rightarrow> bool" where
  "counters_at n tm \<longleftrightarrow> next_tid tm = nth_tid n \<and> fst (nextInvokeId tm) = nth_invokeId n"

lemma counters_new: "counters_at 0 (tm_new t)"
  by (simp add: counters_at_def next_tid_def nextTid_def nextInvokeId_def tm_new_def nth_tid_def
      nth_invokeId_def)

lemma counters_allocate:
  assumes "counters_at n tm"
  shows "counters_at (Suc n) (snd (allocate imsi ctx now tm))"
proof -
  let ?tm = "snd (allocate imsi ctx now tm)"
  have "next_tid ?tm = (if nth_tid n + 1 = 0 then 1 else nth_tid n + 1)"
    using assms by (simp add: next_tid_def [of ?tm] nextTid_def Let_def counters_at_def)
  moreover have "fst (nextInvokeId ?tm) = (if nth_invokeId n + 1 > 127 then 1 else nth_invokeId n + 1)"
    using assms by (simp add: nextInvokeId_def [of ?tm] Let_def counters_at_def)
  ultimately show ?thesis by (simp add: counters_at_def nth_tid_Suc nth_invokeId_Suc)
qed

lemma counters_complete: "counters_at n (complete tm k) = counters_at n tm"
  by (simp add: counters_at_def next_tid_def nextTid_def nextInvokeId_def Let_def)

section \<open>Expiry\<close>

definition keep_fresh :: "int \<Rightarrow> TransactionManager \<Rightarrow> u32 \<Rightarrow> PendingTransaction option" where
  "keep_fresh now tm k =
     (case transactions tm k of None \<Rightarrow> None
      | Some t \<Rightarrow> if is_stale now (timeout tm) (createdAt t) then None else Some t)"

definition stale_key :: "int \<Rightarrow> TransactionManager \<Rightarrow> u32 \<Rightarrow> bool" where
  "stale_key now tm k \<longleftrightarrow>
     (case transactions tm k of None \<Rightarrow> False | Some t \<Rightarrow> is_stale now (timeout tm) (createdAt t))"

lemma expireLoop_entries:
  "distinct order \<Longrightarrow>
   expireLoop now order tm =
     (map (\<lambda>k. the (transactions tm k)) (filter (stale_key now tm) order),
      tm\<lparr>transactions := (\<lambda>k. if k \<in> set order then keep_fresh now tm k else transactions tm k)\<rparr>)"
proof (induction order arbitrary: tm)
  case (Cons k ks)
  have other: "stale_key now (complete tm k) j = stale_key now tm j"
    "transactions (complete tm k) j = transactions tm j" "keep_fresh now (complete tm k) j = keep_fresh now tm j"
    if "j \<in> set ks" for j
    using that Cons.prems by (auto simp: stale_key_def keep_fresh_def complete_def split: option.splits)
  have maps: "map (\<lambda>j. the (transactions (complete tm k) j)) (filter (stale_key now (complete tm k)) ks) =
      map (\<lambda>j. the (transactions tm j)) (filter (stale_key now tm) ks)"
    using other by (simp cong: filter_cong map_cong)
  show ?case
  proof (cases "stale_key now tm k")
    case True
    then obtain t where t: "transactions tm k = Some t" "is_stale now (timeout tm) (createdAt t)"
      by (auto simp: stale_key_def split: option.splits)
    have "(\<lambda>j. if j \<in> set ks then keep_fresh now (complete tm k) j else transactions (complete tm k) j) =
        (\<lambda>j. if j \<in> set (k # ks) then keep_fresh now tm j else transactions tm j)"
      using other t Cons.prems by (auto simp: fun_eq_iff keep_fresh_def complete_def)
    then show ?thesis using Cons t True maps by simp
  next
    case False
    have "(\<lambda>j. if j \<in> set ks then keep_fresh now tm j else transactions tm j) =
        (\<lambda>j. if j \<in> set (k # ks) then keep_fresh now tm j else transactions tm j)"
      using False by (auto simp: fun_eq_iff keep_fresh_def stale_key_def split: option.splits)
    then show ?thesis using Cons False by (auto simp: stale_key_def split: option.splits)
  qed
qed simp

lemma expireStale_entries:
  assumes "distinct order" and "set order = dom (transactions tm)"
  shows "expireStale now order tm =
    (map (\<lambda>k. the (transactions tm k)) (filter (stale_key now tm) order),
     tm\<lparr>transactions := keep_fresh now tm\<rparr>)"
proof -
  have "(\<lambda>k. if k \<in> set order then keep_fresh now tm k else transactions tm k) = keep_fresh now tm"
    using assms(2) by (auto simp: fun_eq_iff keep_fresh_def domIff split: option.splits)
  with assms(1) show ?thesis by (simp add: expireStale_def expireLoop_entries)
qed

section \<open>Sequences of operations\<close>

datatype tm_op = Allocate string u64 int | Complete u32 | Expire int "u32 list"

text \<open>Run a sequence of operations and collect the transaction IDs handed out.\<close>

fun tm_run :: "tm_op list \<Rightarrow> TransactionManager \<Rightarrow> u32 list \<times> TransactionManager" where
  "tm_run [] tm = ([], tm)"
| "tm_run (Allocate imsi ctx now # ops) tm =
     (case allocate imsi ctx now tm of (tid, tm1) \<Rightarrow>
      case tm_run ops tm1 of (tids, tm2) \<Rightarrow> (tid # tids, tm2))"
| "tm_run (Complete k # ops) tm = tm_run ops (complete tm k)"
| "tm_run (Expire now order # ops) tm = tm_run ops (snd (expireStale now order tm))"

text \<open>The orders of iteration that occur in the run are orders of the entries present.\<close>

fun tm_orders :: "tm_op list \<Rightarrow> TransactionManager \<Rightarrow> bool" where
  "tm_orders [] tm \<longleftrightarrow> True"
| "tm_orders (Allocate imsi ctx now # ops) tm \<longleftrightarrow> tm_orders ops (snd (allocate imsi ctx now tm))"
| "tm_orders (Complete k # ops) tm \<longleftrightarrow> tm_orders ops (complete tm k)"
| "tm_orders (Expire now order # ops) tm \<longleftrightarrow>
     distinct order \<and> list_all (\<lambda>k. transactions tm k \<noteq> None) order \<and>
     tm_orders ops (snd (expireStale now order tm))"

lemma expireLoop_fields [simp]:
  "timeout (snd (expireLoop now order tm)) = timeout tm"
  "tidCounter (snd (expireLoop now order tm)) = tidCounter tm"
  "invokeIdCounter (snd (expireLoop now order tm)) = invokeIdCounter tm"
  by (induction now order tm rule: expireLoop.induct) (auto split: option.splits prod.splits)

lemma counters_expire: "counters_at n (snd (expireStale now order tm)) = counters_at n tm"
  by (simp add: counters_at_def next_tid_def nextTid_def nextInvokeId_def Let_def expireStale_def)

lemma tm_run_tids: "counters_at n tm \<Longrightarrow> fst (tm_run ops tm) = map nth_tid [n ..< n + length (fst (tm_run ops tm))]"
proof (induction ops tm arbitrary: n rule: tm_run.induct)
  case (2 imsi ctx now ops tm)
  obtain tid tm1 where a: "allocate imsi ctx now tm = (tid, tm1)" by (cases "allocate imsi ctx now tm")
  obtain tids tm2 where r: "tm_run ops tm1 = (tids, tm2)" by (cases "tm_run ops tm1")
  have "tid = nth_tid n" using "2.prems" a allocate_fields(1) [of imsi ctx now tm] by (simp add: counters_at_def)
  moreover have "counters_at (Suc n) tm1" using counters_allocate [OF "2.prems", of imsi ctx now] a by simp
  then have "tids = map nth_tid [Suc n ..< Suc n + length tids]" using "2.IH" [OF a [symmetric], of "Suc n"] r by simp
  moreover have "[n ..< n + Suc (length tids)] = n # [Suc n ..< Suc n + length tids]"
    by (simp add: upt_conv_Cons del: upt_Suc)
  ultimately show ?case using a r by (simp del: upt_Suc)
qed (simp_all add: counters_complete counters_expire)

lemma expireLoop_keeps:
  "distinct order \<Longrightarrow> find_tx tm k = Some t \<Longrightarrow> \<not> is_stale now (timeout tm) (createdAt t) \<Longrightarrow>
     find_tx (snd (expireStale now order tm)) k = Some t"
  by (simp add: find_tx_def expireStale_def expireLoop_entries keep_fresh_def)

lemma tm_run_keeps:
  assumes "find_tx tm k = Some t" and "tm_orders ops tm" and "Complete k \<notin> set ops"
    and "\<And>now order. Expire now order \<in> set ops \<Longrightarrow> \<not> is_stale now (timeout tm) (createdAt t)"
  shows "find_tx (snd (tm_run ops tm)) k = Some t"
  using assms
proof (induction ops tm rule: tm_run.induct)
  case (2 imsi ctx now ops tm)
  obtain tid tm1 where a: "allocate imsi ctx now tm = (tid, tm1)" by (cases "allocate imsi ctx now tm")
  have "find_tx tm1 k = Some t" "timeout tm1 = timeout tm"
    using tx.put_keeps [OF "2.prems"(1), of "(imsi, ctx, now)"] allocate_fields(2) [of imsi ctx now tm] a by simp_all
  then have "find_tx (snd (tm_run ops tm1)) k = Some t"
    using 2 a by auto
  then show ?case using a by (auto split: prod.split)
next
  case (3 j ops tm)
  then show ?case using tx.find_remove [of tm j k] by auto
next
  case (4 now order ops tm)
  then have "find_tx (snd (expireStale now order tm)) k = Some t"
    by (intro expireLoop_keeps) auto
  with 4 show ?case by (auto simp: expireStale_def)
qed simp

section \<open>Properties\<close>

text \<open>
  C30: The transaction IDs handed out by a fresh transaction manager, whatever completions and
  expiries happen in between, are 1, 2, 3, ... up to \<open>2^32 - 1\<close> and then 1 again: never 0, and
  different for any two requests that are fewer than \<open>2^32 - 1\<close> allocations apart.
\<close>

theorem tids_unique:
  assumes "tm_run ops (tm_new limit) = (tids, tm)" and "i < j" and "j < length tids"
  shows "tids ! i = nth_tid i \<and> tids ! i \<noteq> 0 \<and> (j - i < 2 ^ 32 - 1 \<longrightarrow> tids ! i \<noteq> tids ! j)"
proof -
  have tids: "tids = map nth_tid [0 ..< length tids]"
    using tm_run_tids [OF counters_new, of ops limit] assms(1) by simp
  have at: "tids ! i = nth_tid i" "tids ! j = nth_tid j"
    using tids assms(2,3) by (metis add_0 diff_zero length_upt nth_map nth_upt less_trans)+
  have "nth_tid i \<noteq> 0" using unat_nth_tid [of i] by auto
  moreover have "nth_tid i \<noteq> nth_tid j" if "j - i < 2 ^ 32 - 1"
  proof
    assume "nth_tid i = nth_tid j"
    then have "i mod tid_period = j mod tid_period" using unat_nth_tid [of i] unat_nth_tid [of j] by simp
    then have "tid_period dvd j - i" using assms(2) by (metis less_imp_le mod_eq_dvd_iff_nat)
    then show False using that assms(2) by (auto simp: tid_period_def dest: dvd_imp_le)
  qed
  ultimately show ?thesis using at by simp
qed

theorem tids_unique_witness:
  "let ops = [Allocate ''001'' 1 0, Complete 1, Allocate ''002'' 2 5, Expire 9 [2], Allocate ''003'' 1 9]
   in fst (tm_run ops (tm_new 30)) = [1, 2, 3] \<and> (1 :: u32) = nth_tid 0 \<and> (1 :: u32) \<noteq> 3"
proof -
  let ?ops = "[Allocate ''001'' 1 0, Complete 1, Allocate ''002'' 2 5, Expire 9 [2], Allocate ''003'' 1 9]"
  have f: "fst (tm_run ?ops (tm_new 30)) = [1, 2, 3]" by code_simp
  then have "tm_run ?ops (tm_new 30) = ([1, 2, 3], snd (tm_run ?ops (tm_new 30)))" by (simp add: prod_eq_iff)
  from tids_unique [OF this, of 0 2] f show ?thesis unfolding Let_def by simp
qed

text \<open>
  The invoke IDs handed out by successive allocations run from 1 to 127 and start over.
\<close>

lemma invoke_ids_cycle:
  assumes "fst (nextInvokeId tm) = nth_invokeId n"
  shows "fst (nextInvokeId (snd (allocate imsi ctx now tm))) = nth_invokeId (Suc n) \<and>
    1 \<le> unat (nth_invokeId n) \<and> unat (nth_invokeId n) \<le> 127 \<and> nth_invokeId (n + 127) = nth_invokeId n"
proof -
  have "n mod 127 \<le> 126" using mod_less_divisor [of 127 n] by simp
  moreover have "fst (nextInvokeId (snd (allocate imsi ctx now tm))) = nth_invokeId (Suc n)"
    using assms by (simp add: nextInvokeId_def [of "snd (allocate imsi ctx now tm)"] Let_def nth_invokeId_Suc)
  ultimately show ?thesis by (simp add: unat_nth_invokeId) (simp add: nth_invokeId_def)
qed

text \<open>
  C31: A registered request is found under its transaction ID, with the IMSI, client and invoke ID it
  was registered with, until it is completed or has become stale: allocations (also after the
  counter has wrapped around to its ID), completions of other requests and expiry runs in any
  iteration order leave it alone.
\<close>

theorem tx_found_until_done:
  assumes "find_tx tm (next_tid tm) = None" and "tm_orders ops (snd (allocate imsi ctx now tm))"
    and "Complete (next_tid tm) \<notin> set ops"
    and "\<And>now' order. Expire now' order \<in> set ops \<Longrightarrow> \<not> is_stale now' (timeout tm) now"
  shows "find_tx (snd (tm_run ops (snd (allocate imsi ctx now tm)))) (fst (allocate imsi ctx now tm)) =
    Some \<lparr>mapTransactionId = next_tid tm, mapInvokeId = fst (nextInvokeId tm), tx_imsi = imsi,
          clientContext = ctx, createdAt = now\<rparr>"
proof -
  let ?tm = "snd (allocate imsi ctx now tm)"
  have "find_tx ?tm (next_tid tm) = Some (next_entry (imsi, ctx, now) tm)"
    using tx.put_fresh [OF assms(1), of "(imsi, ctx, now)"] by simp
  then have "find_tx (snd (tm_run ops ?tm)) (next_tid tm) = Some (next_entry (imsi, ctx, now) tm)"
    by (rule tm_run_keeps [OF _ assms(2,3)]) (use assms(4) in \<open>simp add: next_entry_def\<close>)
  then show ?thesis by (simp add: next_entry_def)
qed

theorem tx_found_until_done_witness:
  "find_tx (snd (tm_run [Allocate ''002'' 8 5, Complete 2, Expire 100 [1]] (snd (allocate ''001'' 7 0 (tm_new 30)))))
     (fst (allocate ''001'' 7 0 (tm_new 30))) =
   Some \<lparr>mapTransactionId = 1, mapInvokeId = 1, tx_imsi = ''001'', clientContext = 7, createdAt = 0\<rparr>"
proof -
  have "find_tx (tm_new 30) (next_tid (tm_new 30)) = None"
    "tm_orders [Allocate ''002'' 8 5, Complete 2, Expire 100 [1]] (snd (allocate ''001'' 7 0 (tm_new 30)))"
    "Complete (next_tid (tm_new 30)) \<notin> set [Allocate ''002'' 8 5, Complete 2, Expire 100 [1]]"
    "next_tid (tm_new 30) = 1" "fst (nextInvokeId (tm_new 30)) = 1"
    by code_simp+
  with tx_found_until_done [OF this(1-3)] show ?thesis by (simp add: is_stale_def ticks_per_second_def tm_new_def)
qed

text \<open>
  \<open>expireStale\<close> removes and returns exactly the entries older than the timeout, each once, and
  keeps every other entry, whatever the iteration order of the hash table.
\<close>

lemma expireStale_exact:
  assumes "distinct order" and "set order = dom (transactions tm)" and "expireStale now order tm = (es, tm')"
  shows "set es = {t. \<exists>k. transactions tm k = Some t \<and> now - createdAt t > timeout tm * ticks_per_second} \<and>
    length es = card {k. stale_key now tm k} \<and>
    transactions tm' = (\<lambda>k. case transactions tm k of None \<Rightarrow> None
      | Some t \<Rightarrow> if now - createdAt t > timeout tm * ticks_per_second then None else Some t)"
proof -
  note e = expireStale_entries [OF assms(1,2), of now]
  have stale: "stale_key now tm k \<longleftrightarrow> (\<exists>t. transactions tm k = Some t \<and> is_stale now (timeout tm) (createdAt t))" for k
    by (auto simp: stale_key_def split: option.splits)
  have "set es = {t. \<exists>k. transactions tm k = Some t \<and> is_stale now (timeout tm) (createdAt t)}"
    using e assms(2,3) stale by (force simp: dom_def image_iff)
  moreover have "{k. stale_key now tm k} = set (filter (stale_key now tm) order)"
    using assms(2) stale by auto
  then have "length es = card {k. stale_key now tm k}"
    using e assms(1,3) distinct_card [of "filter (stale_key now tm) order"] by auto
  moreover have "transactions tm' = keep_fresh now tm" using e assms(3) by auto
  ultimately show ?thesis unfolding is_stale_def keep_fresh_def [abs_def] by blast
qed

end
