(* ===== verification/Proxy.thy ===== *)
theory Proxy
  imports GsupCodec Converter TransactionManager
begin

text \<open>
  \<open>src/proxy/Proxy.cpp\<close>: the proxy between the SGSN side (GSUP) and the HLR side (MAP).

  The object is its three tables.  A handler takes the payload, the clock and the state and returns
  the calls it makes on the two transports, in order, with the new state; \<open>Inl\<close> would be an exception
  that leaves the handler, or undefined behaviour.  As in \<open>TransactionManager\<close>, the iteration order of
  a hash table is an argument.  Log output is left out, except for the two name tables.
\<close>

section \<open>State\<close>

record HlrTxEntry =
  h_mapTransactionId :: u32
  h_mapInvokeId :: byte
  h_mapOperation :: MapOperation
  h_createdAt :: int

record Proxy =
  txMgr :: TransactionManager
  hlrTx :: "string \<rightharpoonup> HlrTxEntry"
  pendingOps :: "u32 \<rightharpoonup> MapOperation"

type_synonym ClientId = u64

text \<open>The calls \<open>sgsnTransport_->send(data, clientId)\<close> and \<open>hlrTransport_->send(data)\<close>.\<close>

datatype Action = SendSgsn bytes ClientId | SendHlr bytes

definition proxy_new :: "int \<Rightarrow> Proxy" where
  "proxy_new txTimeout = \<lparr>txMgr = tm_new txTimeout, hlrTx = Map.empty, pendingOps = Map.empty\<rparr>"

section \<open>Names for the log\<close>

definition opName :: "MapOperation \<Rightarrow> string" where
  "opName op =
     (if op = SendAuthenticationInfo then ''SendAuthInfo''
      else if op = UpdateGprsLocation then ''UpdateGprsLocation''
      else if op = CancelLocation then ''CancelLocation''
      else if op = InsertSubscriberData then ''InsertSubscriberData''
      else if op = DeleteSubscriberData then ''DeleteSubscriberData''
      else if op = PurgeMS then ''PurgeMS''
      else ''Unknown'')"

definition gsupTypeName :: "MessageType \<Rightarrow> string" where
  "gsupTypeName t =
     (if t = SendAuthInfoRequest then ''SAI-REQ''
      else if t = SendAuthInfoResult then ''SAI-RES''
      else if t = SendAuthInfoError then ''SAI-ERR''
      else if t = UpdateLocationRequest then ''UL-REQ''
      else if t = UpdateLocationResult then ''UL-RES''
      else if t = UpdateLocationError then ''UL-ERR''
      else if t = LocationCancelRequest then ''LC-REQ''
      else if t = LocationCancelResult then ''LC-RES''
      else if t = LocationCancelError then ''LC-ERR''
      else if t = InsertDataRequest then ''ISD-REQ''
      else if t = InsertDataResult then ''ISD-RES''
      else if t = InsertDataError then ''ISD-ERR''
      else if t = DeleteDataRequest then ''DSD-REQ''
      else if t = DeleteDataResult then ''DSD-RES''
      else if t = DeleteDataError then ''DSD-ERR''
      else if t = PurgeMsRequest then ''PURGE-REQ''
      else if t = PurgeMsResult then ''PURGE-RES''
      else if t = PurgeMsError then ''PURGE-ERR''
      else ''UNKNOWN'')"

section \<open>HLR-initiated direction\<close>

definition handleHlrInitiated :: "int \<Rightarrow> MapMessage \<Rightarrow> Proxy \<Rightarrow> (Action list \<times> Proxy) result" where
  "handleHlrInitiated now mapMsg p =
     try_catch is_ConversionError (mapInvokeToGsup mapMsg) (\<lambda>gsupMsg.
       let entry = \<lparr>h_mapTransactionId = m_transactionId mapMsg, h_mapInvokeId = m_invokeId mapMsg,
                    h_mapOperation = m_operation mapMsg, h_createdAt = now\<rparr>;
           p1 = p\<lparr>hlrTx := (hlrTx p)(g_imsi gsupMsg \<mapsto> entry)\<rparr>
       in try_catch is_std_exception (gsup_encode gsupMsg)
            (\<lambda>gsupData. Inr ([SendSgsn gsupData 0], p1))
            (Inr ([], p1\<lparr>hlrTx := (hlrTx p1)(g_imsi gsupMsg := None)\<rparr>)))
     (Inr ([], p))"

definition handleGsupHlrResponse :: "GsupMessage \<Rightarrow> Proxy \<Rightarrow> (Action list \<times> Proxy) result" where
  "handleGsupHlrResponse gsupMsg p =
     (case hlrTx p (g_imsi gsupMsg) of
        None \<Rightarrow> Inr ([], p)
      | Some entry \<Rightarrow>
          let p1 = p\<lparr>hlrTx := (hlrTx p)(g_imsi gsupMsg := None)\<rparr> in
          try_catch is_ConversionError
            (gsupToMapResult gsupMsg (h_mapTransactionId entry) (h_mapInvokeId entry))
            (\<lambda>mapMsg. try_catch is_std_exception (map_encode mapMsg)
                         (\<lambda>mapData. Inr ([SendHlr mapData], p1))
                         (Inr ([], p1)))
            (Inr ([], p1)))"

section \<open>Messages from the SGSN side\<close>

definition handleGsupPayload :: "int \<Rightarrow> bytes \<Rightarrow> ClientId \<Rightarrow> Proxy \<Rightarrow> (Action list \<times> Proxy) result" where
  "handleGsupPayload now gsupPayload ctx p =
     try_catch is_std_exception (gsup_decode gsupPayload) (\<lambda>gsupMsg.
       if isHlrInitiatedGsupType (g_type gsupMsg) then handleGsupHlrResponse gsupMsg p
       else
         case allocate (g_imsi gsupMsg) ctx now (txMgr p) of (tid, tm1) \<Rightarrow>
         rbind (deref (find_tx tm1 tid)) (\<lambda>t.
         let p1 = p\<lparr>txMgr := tm1\<rparr> in
         try_catch is_ConversionError (gsupToMap gsupMsg tid (mapInvokeId t)) (\<lambda>mapMsg.
           let p2 = p1\<lparr>pendingOps := (pendingOps p1)(tid \<mapsto> m_operation mapMsg)\<rparr> in
           try_catch is_std_exception (map_encode mapMsg)
             (\<lambda>mapData. Inr ([SendHlr mapData], p2))
             (Inr ([], p2\<lparr>txMgr := complete (txMgr p2) tid,
                          pendingOps := (pendingOps p2)(tid := None)\<rparr>)))
         (Inr ([], p1\<lparr>txMgr := complete (txMgr p1) tid\<rparr>))))
     (Inr ([], p))"

section \<open>Messages from the HLR side\<close>

text \<open>The part of \<open>handleMapPayload\<close> behind the lookup, for a pending transaction.\<close>

definition answerPending :: "MapMessage \<Rightarrow> PendingTransaction \<Rightarrow> Proxy \<Rightarrow> (Action list \<times> Proxy) result" where
  "answerPending mapMsg0 pending p =
     (let tid = m_transactionId mapMsg0;
          mapMsg1 = (if m_imsi mapMsg0 = [] then mapMsg0\<lparr>m_imsi := tx_imsi pending\<rparr> else mapMsg0);
          mapMsg = (if m_operation mapMsg1 = MapOperation_Unknown then
                      (case pendingOps p tid of None \<Rightarrow> mapMsg1 | Some op \<Rightarrow> mapMsg1\<lparr>m_operation := op\<rparr>)
                    else mapMsg1);
          p1 = p\<lparr>txMgr := complete (txMgr p) tid, pendingOps := (pendingOps p)(tid := None)\<rparr>
      in try_catch is_ConversionError (mapToGsup mapMsg) (\<lambda>gsupMsg.
           try_catch is_std_exception (gsup_encode gsupMsg)
             (\<lambda>gsupData. Inr ([SendSgsn gsupData (clientContext pending)], p1))
             (Inr ([], p1)))
         (Inr ([], p1)))"

definition handleMapPayload :: "int \<Rightarrow> bytes \<Rightarrow> Proxy \<Rightarrow> (Action list \<times> Proxy) result" where
  "handleMapPayload now mapPayload p =
     try_catch is_std_exception (map_decode mapPayload) (\<lambda>mapMsg.
       if m_component mapMsg = Invoke then handleHlrInitiated now mapMsg p
       else
         case find_tx (txMgr p) (m_transactionId mapMsg) of
           None \<Rightarrow> Inr ([], p)
         | Some pending \<Rightarrow> answerPending mapMsg pending p)
     (Inr ([], p))"

section \<open>Disconnect and expiry\<close>

text \<open>
  The error answer \<open>nackAllPendingTransactions\<close> and \<open>expireSgsnTransactions\<close> build for one
  transaction, inside \<open>try { ... } catch (const std::exception&) {}\<close>.
\<close>

definition sendError :: "u32 \<Rightarrow> MapOperation \<Rightarrow> string \<Rightarrow> ClientId \<Rightarrow> Action list result" where
  "sendError tid op imsi ctx =
     (let errMsg = MapMessage_init\<lparr>m_transactionId := tid, m_operation := op, m_component := ReturnError,
                     m_imsi := imsi\<rparr>
      in try_catch is_std_exception (rbind (mapToGsup errMsg) gsup_encode)
           (\<lambda>gsupData. Inr [SendSgsn gsupData ctx]) (Inr []))"

fun nackLoop :: "u32 list \<Rightarrow> Proxy \<Rightarrow> (Action list \<times> Proxy) result" where
  "nackLoop [] p = Inr ([], p)"
| "nackLoop (tid # tids) p =
     (case pendingOps p tid of
        None \<Rightarrow> nackLoop tids p
      | Some op \<Rightarrow>
          (case find_tx (txMgr p) tid of
             None \<Rightarrow> nackLoop tids p
           | Some pending \<Rightarrow>
               rbind (sendError tid op (tx_imsi pending) (clientContext pending)) (\<lambda>acts.
               rbind (nackLoop tids (p\<lparr>txMgr := complete (txMgr p) tid\<rparr>)) (\<lambda>(acts', p').
               Inr (acts @ acts', p')))))"

definition nackAllPendingTransactions :: "u32 list \<Rightarrow> Proxy \<Rightarrow> (Action list \<times> Proxy) result" where
  "nackAllPendingTransactions order p =
     rbind (nackLoop order p) (\<lambda>(acts, p'). Inr (acts, p'\<lparr>pendingOps := Map.empty\<rparr>))"

fun expireAnswers :: "PendingTransaction list \<Rightarrow> Proxy \<Rightarrow> (Action list \<times> Proxy) result" where
  "expireAnswers [] p = Inr ([], p)"
| "expireAnswers (t # ts) p =
     (case pendingOps p (mapTransactionId t) of
        None \<Rightarrow> expireAnswers ts p
      | Some op \<Rightarrow>
          rbind (sendError (mapTransactionId t) op (tx_imsi t) (clientContext t)) (\<lambda>acts.
          rbind (expireAnswers ts (p\<lparr>pendingOps := (pendingOps p)(mapTransactionId t := None)\<rparr>)) (\<lambda>(acts', p').
          Inr (acts @ acts', p'))))"

definition expireSgsnTransactions :: "int \<Rightarrow> u32 list \<Rightarrow> Proxy \<Rightarrow> (Action list \<times> Proxy) result" where
  "expireSgsnTransactions now order p =
     (case expireStale now order (txMgr p) of (expired, tm1) \<Rightarrow> expireAnswers expired (p\<lparr>txMgr := tm1\<rparr>))"

fun expireHlrLoop :: "int \<Rightarrow> int \<Rightarrow> string list \<Rightarrow> (string \<rightharpoonup> HlrTxEntry) \<Rightarrow> (string \<rightharpoonup> HlrTxEntry)" where
  "expireHlrLoop now limit [] m = m"
| "expireHlrLoop now limit (k # ks) m =
     (case m k of
        None \<Rightarrow> expireHlrLoop now limit ks m
      | Some e \<Rightarrow>
          if is_stale now limit (h_createdAt e) then expireHlrLoop now limit ks (m(k := None))
          else expireHlrLoop now limit ks m)"

definition expireHlrTransactions :: "int \<Rightarrow> int \<Rightarrow> string list \<Rightarrow> Proxy \<Rightarrow> Proxy" where
  "expireHlrTransactions now limit order p = p\<lparr>hlrTx := expireHlrLoop now limit order (hlrTx p)\<rparr>"

section \<open>Events\<close>

text \<open>
  The timer handler \<open>tick\<close> of \<open>main\<close>: the two expiry functions, the second with its default timeout.
\<close>

definition tick :: "int \<Rightarrow> u32 list \<Rightarrow> int \<Rightarrow> string list \<Rightarrow> Proxy \<Rightarrow> (Action list \<times> Proxy) result" where
  "tick now order now' hlrOrder p =
     rbind (expireSgsnTransactions now order p) (\<lambda>(acts, p').
     Inr (acts, expireHlrTransactions now' 30 hlrOrder p'))"

text \<open>
  The callbacks \<open>start\<close> registers with the transports, and the periodic tick of \<open>main\<close>, which runs
  the two expiry functions one after the other, each with its own reading of the clock.
\<close>

datatype Event =
    SgsnMessage bytes ClientId
  | HlrMessage bytes
  | HlrDisconnected "u32 list"
  | Tick "u32 list" int "string list"

definition proxy_event :: "int \<Rightarrow> Event \<Rightarrow> Proxy \<Rightarrow> (Action list \<times> Proxy) result" where
  "proxy_event now ev p =
     (case ev of
        SgsnMessage payload clientId \<Rightarrow> handleGsupPayload now payload clientId p
      | HlrMessage payload \<Rightarrow> handleMapPayload now payload p
      | HlrDisconnected order \<Rightarrow> nackAllPendingTransactions order p
      | Tick order now' hlrOrder \<Rightarrow> tick now order now' hlrOrder p)"

section \<open>Every handler returns\<close>

text \<open>
  The conversions throw only what the handlers catch and the codecs do not run into undefined
  behaviour, so each \<open>try\<close> is a plain case distinction.
\<close>

lemma try_conversion:
  "try_catch is_ConversionError (gsupToMap g tid iid) k h =
     (case gsupToMap g tid iid of Inr x \<Rightarrow> k x | Inl _ \<Rightarrow> h)"
  "try_catch is_ConversionError (mapToGsup m) k1 h1 = (case mapToGsup m of Inr x \<Rightarrow> k1 x | Inl _ \<Rightarrow> h1)"
  "try_catch is_ConversionError (mapInvokeToGsup m) k1 h1 =
     (case mapInvokeToGsup m of Inr x \<Rightarrow> k1 x | Inl _ \<Rightarrow> h1)"
  "try_catch is_ConversionError (gsupToMapResult g tid iid) k h =
     (case gsupToMapResult g tid iid of Inr x \<Rightarrow> k x | Inl _ \<Rightarrow> h)"
  by (auto simp: try_catch_def dest: conversion_errors split: sum.split)

lemma no_ub_error_answer: "no_ub (rbind (mapToGsup m) gsup_encode)"
  by (cases "mapToGsup m") (auto simp: no_ub_gsup_encode dest: conversion_errors conversion_error_std)

lemmas try_codec =
  try_catch_std [OF no_ub_gsup_encode] try_catch_std [OF no_ub_gsup_decode] try_catch_std [OF no_ub_map_encode]
  try_catch_std [OF no_ub_map_decode] try_catch_std [OF no_ub_error_answer]

text \<open>The optional payload of a computation whose exceptions are caught and ignored.\<close>

definition ok :: "'a result \<Rightarrow> 'a option" where
  "ok r = (case r of Inr x \<Rightarrow> Some x | Inl _ \<Rightarrow> None)"

lemma ok_simps [simp]: "ok (Inr x) = Some x" "ok (Inl e) = None"
  by (simp_all add: ok_def)

lemma ok_Some [simp]: "ok r = Some x \<longleftrightarrow> r = Inr x"
  by (cases r) simp_all

definition sends :: "(bytes \<Rightarrow> Action) \<Rightarrow> bytes option \<Rightarrow> Action list" where
  "sends f v = (case v of None \<Rightarrow> [] | Some d \<Rightarrow> [f d])"

lemma sends_simps [simp]: "sends f None = []" "sends f (Some d) = [f d]"
  by (simp_all add: sends_def)

definition error_answer :: "u32 \<Rightarrow> MapOperation \<Rightarrow> string \<Rightarrow> bytes option" where
  "error_answer tid op imsi =
     ok (rbind (mapToGsup (MapMessage_init\<lparr>m_transactionId := tid, m_operation := op,
                             m_component := ReturnError, m_imsi := imsi\<rparr>)) gsup_encode)"

lemma sendError_eq: "sendError tid op imsi ctx = Inr (sends (\<lambda>d. SendSgsn d ctx) (error_answer tid op imsi))"
  by (simp add: sendError_def error_answer_def try_codec ok_def split: sum.split)

text \<open>What becomes of the state.\<close>

definition drop_tx :: "u32 \<Rightarrow> Proxy \<Rightarrow> Proxy" where
  "drop_tx tid p = p\<lparr>txMgr := complete (txMgr p) tid, pendingOps := (pendingOps p)(tid := None)\<rparr>"

definition fill_in :: "MapMessage \<Rightarrow> PendingTransaction \<Rightarrow> Proxy \<Rightarrow> MapMessage" where
  "fill_in m t p =
     (let m1 = (if m_imsi m = [] then m\<lparr>m_imsi := tx_imsi t\<rparr> else m)
      in if m_operation m1 = MapOperation_Unknown
         then (case pendingOps p (m_transactionId m) of None \<Rightarrow> m1 | Some op \<Rightarrow> m1\<lparr>m_operation := op\<rparr>)
         else m1)"

lemma answerPending_eq:
  "answerPending m t p =
     Inr (sends (\<lambda>d. SendSgsn d (clientContext t)) (ok (rbind (mapToGsup (fill_in m t p)) gsup_encode)),
          drop_tx (m_transactionId m) p)"
proof -
  have "answerPending m t p = try_catch is_ConversionError (mapToGsup (fill_in m t p)) (\<lambda>g.
      try_catch is_std_exception (gsup_encode g)
        (\<lambda>d. Inr ([SendSgsn d (clientContext t)], drop_tx (m_transactionId m) p))
        (Inr ([], drop_tx (m_transactionId m) p))) (Inr ([], drop_tx (m_transactionId m) p))"
    unfolding answerPending_def fill_in_def drop_tx_def Let_def by (rule refl)
  then show ?thesis by (simp add: try_conversion try_codec ok_def split: sum.split)
qed

lemma handleHlrInitiated_eq:
  "handleHlrInitiated now m p =
     Inr (case mapInvokeToGsup m of Inl _ \<Rightarrow> ([], p)
       | Inr g \<Rightarrow> (case gsup_encode g of
           Inl _ \<Rightarrow> ([], p\<lparr>hlrTx := (hlrTx p)(g_imsi g := None)\<rparr>)
         | Inr d \<Rightarrow> ([SendSgsn d 0], p\<lparr>hlrTx := (hlrTx p)(g_imsi g \<mapsto>
             \<lparr>h_mapTransactionId = m_transactionId m, h_mapInvokeId = m_invokeId m,
              h_mapOperation = m_operation m, h_createdAt = now\<rparr>)\<rparr>)))"
  by (simp add: handleHlrInitiated_def Let_def try_conversion try_codec split: sum.split)

lemma handleGsupHlrResponse_eq:
  "handleGsupHlrResponse g p =
     Inr (case hlrTx p (g_imsi g) of None \<Rightarrow> ([], p)
       | Some e \<Rightarrow>
           (sends SendHlr (ok (rbind (gsupToMapResult g (h_mapTransactionId e) (h_mapInvokeId e)) map_encode)),
            p\<lparr>hlrTx := (hlrTx p)(g_imsi g := None)\<rparr>))"
  by (simp add: handleGsupHlrResponse_def Let_def try_conversion try_codec ok_def split: option.split sum.split)

lemma handleMapPayload_eq:
  "handleMapPayload now bs p =
     (case map_decode bs of Inl _ \<Rightarrow> Inr ([], p)
      | Inr m \<Rightarrow>
          if m_component m = Invoke then handleHlrInitiated now m p
          else case find_tx (txMgr p) (m_transactionId m) of
                 None \<Rightarrow> Inr ([], p) | Some t \<Rightarrow> answerPending m t p)"
  by (simp add: handleMapPayload_def try_codec)

text \<open>The entry under which a request is forwarded: the new one, or an old one still in its place.\<close>

definition entry_for :: "string \<Rightarrow> ClientId \<Rightarrow> int \<Rightarrow> TransactionManager \<Rightarrow> PendingTransaction" where
  "entry_for imsi ctx now tm =
     (case find_tx tm (next_tid tm) of None \<Rightarrow> next_entry (imsi, ctx, now) tm | Some t \<Rightarrow> t)"

lemma allocate_found:
  "find_tx (snd (allocate imsi ctx now tm)) (next_tid tm) = Some (entry_for imsi ctx now tm)"
  using tx.find_put [of "(imsi, ctx, now)" tm "next_tid tm"]
  by (simp add: entry_for_def split: option.split)

definition forward :: "int \<Rightarrow> GsupMessage \<Rightarrow> ClientId \<Rightarrow> Proxy \<Rightarrow> Action list \<times> Proxy" where
  "forward now g ctx p =
     (let tid = next_tid (txMgr p);
          p1 = p\<lparr>txMgr := snd (allocate (g_imsi g) ctx now (txMgr p))\<rparr>
      in case gsupToMap g tid (mapInvokeId (entry_for (g_imsi g) ctx now (txMgr p))) of
           Inl _ \<Rightarrow> ([], p1\<lparr>txMgr := complete (txMgr p1) tid\<rparr>)
         | Inr m \<Rightarrow> (case map_encode m of
             Inl _ \<Rightarrow> ([], drop_tx tid p1)
           | Inr d \<Rightarrow> ([SendHlr d], p1\<lparr>pendingOps := (pendingOps p)(tid \<mapsto> m_operation m)\<rparr>)))"

lemma handleGsupPayload_eq:
  "handleGsupPayload now bs ctx p =
     (case gsup_decode bs of Inl _ \<Rightarrow> Inr ([], p)
      | Inr g \<Rightarrow> if isHlrInitiatedGsupType (g_type g) then handleGsupHlrResponse g p
                 else Inr (forward now g ctx p))"
proof (cases "gsup_decode bs")
  case (Inr g)
  obtain tid tm1 where a: "allocate (g_imsi g) ctx now (txMgr p) = (tid, tm1)"
    by (cases "allocate (g_imsi g) ctx now (txMgr p)")
  then have tid: "tid = next_tid (txMgr p)" and tm1: "snd (allocate (g_imsi g) ctx now (txMgr p)) = tm1"
    using allocate_fields(1) [of "g_imsi g" ctx now "txMgr p"] by simp_all
  then have "find_tx tm1 tid = Some (entry_for (g_imsi g) ctx now (txMgr p))"
    using allocate_found [of "g_imsi g" ctx now "txMgr p"] by simp
  then show ?thesis
    using Inr a tid tm1
    by (simp add: handleGsupPayload_def forward_def deref_def Let_def try_conversion try_codec drop_tx_def
        split: sum.split)
qed (use no_ub_gsup_decode [of bs] in \<open>simp add: handleGsupPayload_def\<close>)

subsection \<open>The loops\<close>

definition nack_answer :: "Proxy \<Rightarrow> u32 \<Rightarrow> Action list" where
  "nack_answer p tid =
     (case pendingOps p tid of None \<Rightarrow> []
      | Some op \<Rightarrow> (case find_tx (txMgr p) tid of None \<Rightarrow> []
          | Some t \<Rightarrow> sends (\<lambda>d. SendSgsn d (clientContext t)) (error_answer tid op (tx_imsi t))))"

definition remove_txs :: "u32 set \<Rightarrow> TransactionManager \<Rightarrow> TransactionManager" where
  "remove_txs ks tm = tm\<lparr>transactions := (\<lambda>k. if k \<in> ks then None else transactions tm k)\<rparr>"

lemma remove_txs_simps:
  "find_tx (remove_txs ks tm) k = (if k \<in> ks then None else find_tx tm k)"
  "remove_txs {} tm = tm" "remove_txs ks (complete tm k) = remove_txs (insert k ks) tm"
  "timeout (remove_txs ks tm) = timeout tm" "invokeIdCounter (remove_txs ks tm) = invokeIdCounter tm"
  "tidCounter (remove_txs ks tm) = tidCounter tm"
proof -
  have "(\<lambda>j. if j \<in> ks then None else transactions (complete tm k) j) =
      (\<lambda>j. if j \<in> insert k ks then None else transactions tm j)"
    by (auto simp: complete_def fun_eq_iff)
  then show "remove_txs ks (complete tm k) = remove_txs (insert k ks) tm"
    by (simp add: remove_txs_def)
qed (simp_all add: remove_txs_def find_tx_def)

lemma remove_txs_absent: "transactions tm k = None \<Longrightarrow> remove_txs (insert k ks) tm = remove_txs ks tm"
proof -
  assume "transactions tm k = None"
  then have "(\<lambda>j. if j \<in> insert k ks then None else transactions tm j) = (\<lambda>j. if j \<in> ks then None else transactions tm j)"
    by (auto simp: fun_eq_iff)
  then show ?thesis by (simp only: remove_txs_def)
qed

lemma nackLoop_eq:
  "distinct order \<Longrightarrow> set order \<subseteq> dom (pendingOps p) \<Longrightarrow>
   nackLoop order p = Inr (concat (map (nack_answer p) order), p\<lparr>txMgr := remove_txs (set order) (txMgr p)\<rparr>)"
proof (induction order arbitrary: p)
  case (Cons k ks)
  then obtain op where op: "pendingOps p k = Some op" by auto
  show ?case
  proof (cases "find_tx (txMgr p) k")
    case None
    then have "nack_answer p k = []" using op by (simp add: nack_answer_def)
    with Cons op None show ?thesis by (simp add: remove_txs_absent find_tx_def)
  next
    case (Some t)
    let ?p = "p\<lparr>txMgr := complete (txMgr p) k\<rparr>"
    have "nack_answer ?p j = nack_answer p j" if "j \<in> set ks" for j
      using that Cons.prems tx.find_remove [of "txMgr p" k j] by (auto simp: nack_answer_def split: option.splits)
    then have "concat (map (nack_answer ?p) ks) = concat (map (nack_answer p) ks)"
      by (metis (mono_tags, lifting) map_eq_conv)
    moreover have "nack_answer p k = sends (\<lambda>d. SendSgsn d (clientContext t)) (error_answer k op (tx_imsi t))"
      using op Some by (simp add: nack_answer_def)
    ultimately show ?thesis
      using Cons.IH [of ?p] Cons.prems op Some by (simp add: sendError_eq remove_txs_simps)
  qed
qed (simp add: remove_txs_simps)

definition expire_answer :: "(u32 \<rightharpoonup> MapOperation) \<Rightarrow> PendingTransaction \<Rightarrow> Action list" where
  "expire_answer ops t =
     (case ops (mapTransactionId t) of None \<Rightarrow> []
      | Some op \<Rightarrow> sends (\<lambda>d. SendSgsn d (clientContext t)) (error_answer (mapTransactionId t) op (tx_imsi t)))"

lemma expireAnswers_eq:
  "distinct (map mapTransactionId ts) \<Longrightarrow>
   expireAnswers ts p = Inr (concat (map (expire_answer (pendingOps p)) ts),
     p\<lparr>pendingOps := pendingOps p |` (- mapTransactionId ` set ts)\<rparr>)"
proof (induction ts arbitrary: p)
  case (Cons t ts)
  show ?case
  proof (cases "pendingOps p (mapTransactionId t)")
    case None
    then have "pendingOps p |` (- mapTransactionId ` set (t # ts)) = pendingOps p |` (- mapTransactionId ` set ts)"
      by (auto simp: restrict_map_def fun_eq_iff)
    with Cons None show ?thesis by (simp add: expire_answer_def)
  next
    case (Some op)
    define ops where "ops = (pendingOps p)(mapTransactionId t := None)"
    have "expire_answer ops u = expire_answer (pendingOps p) u" if "u \<in> set ts" for u
    proof -
      have "mapTransactionId u \<noteq> mapTransactionId t" using Cons.prems that by (simp add: image_iff) metis
      then show ?thesis by (simp add: expire_answer_def ops_def)
    qed
    then have "concat (map (expire_answer ops) ts) = concat (map (expire_answer (pendingOps p)) ts)"
      by (metis (mono_tags, lifting) map_eq_conv)
    moreover have "ops |` (- mapTransactionId ` set ts) = pendingOps p |` (- mapTransactionId ` set (t # ts))"
      by (auto simp: restrict_map_def fun_eq_iff ops_def)
    moreover have "expire_answer (pendingOps p) t = sends (\<lambda>d. SendSgsn d (clientContext t))
        (error_answer (mapTransactionId t) op (tx_imsi t))"
      using Some by (simp add: expire_answer_def)
    moreover have "expireAnswers (t # ts) p =
        rbind (sendError (mapTransactionId t) op (tx_imsi t) (clientContext t)) (\<lambda>acts.
        rbind (expireAnswers ts (p\<lparr>pendingOps := ops\<rparr>)) (\<lambda>(acts', p'). Inr (acts @ acts', p')))"
      using Some by (simp add: ops_def)
    ultimately show ?thesis
      using Cons.IH [of "p\<lparr>pendingOps := ops\<rparr>"] Cons.prems by (simp add: sendError_eq del: expireAnswers.simps)
  qed
qed (simp add: restrict_map_def)

lemma expireHlrLoop_eq:
  "distinct order \<Longrightarrow> expireHlrLoop now limit order m =
     (\<lambda>k. case m k of None \<Rightarrow> None
      | Some e \<Rightarrow> if k \<in> set order \<and> is_stale now limit (h_createdAt e) then None else Some e)"
proof (induction order arbitrary: m)
  case (Cons k ks)
  then show ?case
    by (cases "m k") (auto simp: fun_eq_iff split: option.splits)
qed (auto simp: fun_eq_iff split: option.splits)

lemma nackLoop_returns: "\<exists>acts p'. nackLoop order p = Inr (acts, p')"
proof (induction order arbitrary: p)
  case (Cons tid tids)
  obtain acts p' where "nackLoop tids p = Inr (acts, p')" using Cons by blast
  moreover obtain acts' p'' where "nackLoop tids (p\<lparr>txMgr := complete (txMgr p) tid\<rparr>) = Inr (acts', p'')"
    using Cons by blast
  ultimately show ?case by (simp add: sendError_eq split: option.split)
qed simp

lemma expireAnswers_returns: "\<exists>acts p'. expireAnswers ts p = Inr (acts, p')"
proof (induction ts arbitrary: p)
  case (Cons t ts)
  obtain acts p' where "expireAnswers ts p = Inr (acts, p')" using Cons by blast
  moreover obtain acts' p'' where
    "expireAnswers ts (p\<lparr>pendingOps := (pendingOps p)(mapTransactionId t := None)\<rparr>) = Inr (acts', p'')"
    using Cons by blast
  ultimately show ?case by (simp add: sendError_eq split: option.split)
qed simp

lemma proxy_event_returns: "\<exists>acts p'. proxy_event now ev p = Inr (acts, p')"
proof (cases ev)
  case (SgsnMessage bs ctx)
  then show ?thesis
    by (cases "gsup_decode bs")
      (auto simp: proxy_event_def handleGsupPayload_eq handleGsupHlrResponse_eq split: option.split)
next
  case (HlrMessage bs)
  then show ?thesis
    by (cases "map_decode bs")
      (auto simp: proxy_event_def handleMapPayload_eq handleHlrInitiated_eq answerPending_eq
        split: option.split sum.split)
next
  case (HlrDisconnected order)
  then show ?thesis using nackLoop_returns [of order p]
    by (auto simp: proxy_event_def nackAllPendingTransactions_def)
next
  case (Tick order now' hlrOrder)
  obtain es tm1 where e: "expireStale now order (txMgr p) = (es, tm1)" by (cases "expireStale now order (txMgr p)")
  obtain acts p1 where "expireAnswers es (p\<lparr>txMgr := tm1\<rparr>) = Inr (acts, p1)"
    using expireAnswers_returns by blast
  with Tick e show ?thesis by (simp add: proxy_event_def tick_def expireSgsnTransactions_def)
qed

end
