(* ===== verification/Demo.thy ===== *)
theory Demo
  imports Proxy
begin

text \<open>
  The concrete messages of the witnesses: an SGSN asks for authentication vectors for IMSI 123, the
  HLR answers with one triplet; the HLR cancels the location of IMSI 123, and an SGSN confirms it.
\<close>

section \<open>A request and its result\<close>

definition demo_gsup :: GsupMessage where
  "demo_gsup = GsupMessage_init\<lparr>g_type := SendAuthInfoRequest, g_imsi := ''123''\<rparr>"

definition demo_request :: bytes where
  "demo_request = [0x08, 0x01, 0x02, 0x21, 0xF3]"

definition demo_result :: MapMessage where
  "demo_result = MapMessage_init\<lparr>m_component := ReturnResult, m_operation := SendAuthenticationInfo, m_transactionId := 1,
     m_authTriplets := [\<lparr>t3_rand = [1], t3_sres = [2], t3_kc = [3]\<rparr>]\<rparr>"

definition demo_answer :: GsupMessage where
  "demo_answer = GsupMessage_init\<lparr>g_type := SendAuthInfoResult, g_imsi := ''123'',
     g_authTuples := [AuthTuple_init\<lparr>at_rand := [1], at_sres := [2], at_kc := [3]\<rparr>]\<rparr>"

definition demo_answer_bytes :: bytes where
  "demo_answer_bytes = [0x0a, 1, 2, 0x21, 0xF3, 3, 9, 0x20, 1, 1, 0x21, 1, 2, 0x22, 1, 3]"

definition demo_refusal :: MapMessage where
  "demo_refusal = MapMessage_init\<lparr>m_component := ReturnError, m_transactionId := 1, m_errorCode := Some 1\<rparr>"

lemma demo_gsup_facts:
  "gsup_wf demo_gsup" "(g_type demo_gsup, SendAuthenticationInfo) \<in> set sgsn_requests" "g_imsi demo_gsup = ''123''"
  "g_msisdn demo_gsup = None" "length demo_request = 5"
  by (simp_all add: demo_gsup_def demo_request_def GsupMessage_init_def gsup_wf_def fits_def isDigit_def sgsn_requests_def)

lemma demo_gsup_bytes: "gsup_encode demo_gsup = Inr demo_request"
  by code_simp

text \<open>The state of a new proxy.\<close>

lemma demo_proxy_facts:
  "next_tid (txMgr (proxy_new 30)) = 1" "find_tx (txMgr (proxy_new 30)) = Map.empty" "pendingOps (proxy_new 30) = Map.empty"
  "hlrTx (proxy_new 30) = Map.empty" "timeout (txMgr (proxy_new 30)) = 30"
  "next_entry (imsi, c, now) (txMgr (proxy_new 30)) =
     \<lparr>mapTransactionId = 1, mapInvokeId = 1, tx_imsi = imsi, clientContext = c, createdAt = now\<rparr>"
  by (simp_all add: proxy_new_def tm_new_def find_tx_def [abs_def] next_tid_def next_entry_def nextTid_def nextInvokeId_def Let_def)

lemma demo_result_facts:
  "m_component demo_result = ReturnResult" "m_operation demo_result = SendAuthenticationInfo"
  "m_transactionId demo_result = 1" "list_all isDigit (m_imsi demo_result)"
  "mapToGsup (demo_result\<lparr>m_imsi := g_imsi demo_gsup\<rparr>) = Inr demo_answer"
  by (simp_all add: demo_result_def demo_answer_def demo_gsup_def MapMessage_init_def GsupMessage_init_def mapToGsup_def
      push_tuple_def tripletTuple_def)

lemma demo_result_bytes: "map_encode demo_result = Inr (map_pdu demo_result)" "length (map_pdu demo_result) \<le> 255"
  by code_simp+

lemma demo_answer_facts: "gsup_wf demo_answer" "gsup_encode demo_answer = Inr demo_answer_bytes" "length demo_answer_bytes \<le> 4095"
  by code_simp+

lemma demo_refusal_facts:
  "m_component demo_refusal = ReturnError" "m_transactionId demo_refusal = 1" "list_all isDigit (m_imsi demo_refusal)"
  "value_or (m_errorCode demo_refusal) 34 = 1"
  by (simp_all add: demo_refusal_def MapMessage_init_def value_or_def)

lemma demo_refusal_bytes: "map_encode demo_refusal = Inr (map_pdu demo_refusal)"
  by code_simp

section \<open>A request of the HLR and its result\<close>

definition demo_cancel :: MapMessage where
  "demo_cancel = MapMessage_init\<lparr>m_transactionId := 0x55, m_invokeId := 3, m_operation := CancelLocation, m_imsi := ''123''\<rparr>"

definition demo_cancelled :: GsupMessage where
  "demo_cancelled = GsupMessage_init\<lparr>g_type := LocationCancelResult, g_imsi := ''123''\<rparr>"

lemma demo_cancel_facts:
  "m_component demo_cancel = Invoke" "m_operation demo_cancel = CancelLocation" "list_all isDigit (m_imsi demo_cancel)"
  "length (m_imsi demo_cancel) \<le> 15" "fits (m_msisdn demo_cancel)" "m_transactionId demo_cancel = 0x55" "m_invokeId demo_cancel = 3"
  "(LocationCancelRequest, m_operation demo_cancel, LocationCancelResult, LocationCancelError) \<in> set hlr_requests"
  by (simp_all add: demo_cancel_def MapMessage_init_def isDigit_def fits_def hlr_requests_def)

lemma demo_cancelled_facts:
  "gsup_wf demo_cancelled" "g_imsi demo_cancelled = m_imsi demo_cancel" "g_type demo_cancelled = LocationCancelResult"
  "g_type demo_cancelled \<in> {LocationCancelResult, LocationCancelError}"
  by (simp_all add: demo_cancelled_def demo_cancel_def MapMessage_init_def GsupMessage_init_def gsup_wf_def isDigit_def fits_def)

lemma demo_cancel_bytes:
  "map_encode demo_cancel = Inr (map_pdu demo_cancel)" "length (map_pdu demo_cancel) \<le> 255"
  "gsup_encode demo_cancelled = Inr [0x1e, 0x01, 0x02, 0x21, 0xF3]"
  by code_simp+

end
