(* ===== verification/ProxyRuns.thy ===== *)
theory ProxyRuns
  imports Demo
begin

text \<open>
  Runs of the proxy: sequences of messages, disconnects and ticks in any order.  The step relation
  records at which time which event was handled and which calls on the transports it caused; the invariant ties
  the table of pending transactions to the table of their operations.
\<close>

section \<open>Steps and runs\<close>

text \<open>The iteration orders that occur are orders of the keys of the tables.\<close>

definition event_ok :: "Event \<Rightarrow> Proxy \<Rightarrow> bool" where
  "event_ok ev p \<longleftrightarrow>
     (case ev of
        SgsnMessage payload clientId \<Rightarrow> True
      | HlrMessage payload \<Rightarrow> True
      | HlrDisconnected order \<Rightarrow> distinct order \<and> set order = dom (pendingOps p)
      | Tick order now' hlrOrder \<Rightarrow>
          distinct order \<and> set order = dom (transactions (txMgr p)) \<and>
          distinct hlrOrder \<and> set hlrOrder = dom (hlrTx p))"

type_synonym label = "int \<times> Event \<times> Action list"

inductive proxy_step :: "Proxy \<Rightarrow> label \<Rightarrow> Proxy \<Rightarrow> bool" where
  handled: "event_ok ev p \<Longrightarrow> proxy_event now ev p = Inr (acts, p') \<Longrightarrow> proxy_step p (now, ev, acts) p'"

inductive_cases proxy_stepE: "proxy_step p l p'"
inductive_simps proxy_step_simps: "proxy_step p (now, ev, acts) p'"

inductive proxy_run :: "Proxy \<Rightarrow> label list \<Rightarrow> Proxy \<Rightarrow> bool" where
  run_nil: "proxy_run p [] p"
| run_step: "proxy_run p tr p1 \<Longrightarrow> proxy_step p1 l p2 \<Longrightarrow> proxy_run p (tr @ [l]) p2"

section \<open>Invariant\<close>

definition tx_ok :: "Proxy \<Rightarrow> u32 \<Rightarrow> PendingTransaction \<Rightarrow> bool" where
  "tx_ok p tid t \<longleftrightarrow> mapTransactionId t = tid \<and> tid \<noteq> 0 \<and> 1 \<le> unat (mapInvokeId t) \<and> unat (mapInvokeId t) \<le> 127 \<and>
     list_all isDigit (tx_imsi t) \<and> pendingOps p tid \<noteq> None"

definition proxy_inv :: "Proxy \<Rightarrow> bool" where
  "proxy_inv p \<longleftrightarrow>
     (\<forall>tid t. find_tx (txMgr p) tid = Some t \<longrightarrow> tx_ok p tid t) \<and>
     (\<forall>tid op. pendingOps p tid = Some op \<longrightarrow> op \<in> snd ` set sgsn_requests) \<and>
     finite (dom (find_tx (txMgr p))) \<and> finite (dom (pendingOps p)) \<and>
     1 \<le> unat (invokeIdCounter (txMgr p)) \<and> unat (invokeIdCounter (txMgr p)) \<le> 128"

lemma proxy_invI:
  assumes "\<And>tid t. find_tx (txMgr p) tid = Some t \<Longrightarrow> tx_ok p tid t"
    and "\<And>tid op. pendingOps p tid = Some op \<Longrightarrow> op \<in> snd ` set sgsn_requests"
    and "finite (dom (find_tx (txMgr p)))" and "finite (dom (pendingOps p))"
    and "1 \<le> unat (invokeIdCounter (txMgr p))" and "unat (invokeIdCounter (txMgr p)) \<le> 128"
  shows "proxy_inv p"
  using assms by (simp add: proxy_inv_def)

lemma tx_ok_ops: "tx_ok p k t \<Longrightarrow> pendingOps p' k = pendingOps p k \<Longrightarrow> tx_ok p' k t"
  by (simp add: tx_ok_def)

lemma inv_new: "proxy_inv (proxy_new t)"
  by (simp add: proxy_inv_def proxy_new_def tm_new_def find_tx_def)

lemma next_tid_nonzero: "next_tid tm \<noteq> 0"
  by (simp add: next_tid_def nextTid_def Let_def)

lemma next_invoke_range:
  assumes "1 \<le> unat (invokeIdCounter tm)"
  shows "1 \<le> unat (fst (nextInvokeId tm))" "unat (fst (nextInvokeId tm)) \<le> 127"
  using assms by (auto simp: nextInvokeId_def Let_def word_less_nat_alt not_less)

lemma next_counter_range:
  assumes "1 \<le> unat (invokeIdCounter tm)"
  shows "1 \<le> unat (fst (nextInvokeId tm) + 1)" "unat (fst (nextInvokeId tm) + 1) \<le> 128"
proof -
  have "unat (fst (nextInvokeId tm) + 1) = unat (fst (nextInvokeId tm)) + 1"
    using next_invoke_range [OF assms] by (subst unat_plus_simple [THEN iffD1]) (auto simp: word_le_nat_alt unat_word_ariths)
  then show "1 \<le> unat (fst (nextInvokeId tm) + 1)" "unat (fst (nextInvokeId tm) + 1) \<le> 128"
    using next_invoke_range [OF assms] by auto
qed

text \<open>Removing a transaction from both tables, or both tables changed at one key.\<close>

lemma inv_drop: "proxy_inv p \<Longrightarrow> proxy_inv (drop_tx tid p)"
  using tx.find_remove [of "txMgr p" tid] tx.remove_dom [of "txMgr p" tid]
  by (auto simp: proxy_inv_def drop_tx_def tx_ok_def split: if_splits)

lemma inv_hlrTx: "proxy_inv (p\<lparr>hlrTx := h\<rparr>) = proxy_inv p"
  by (simp add: proxy_inv_def tx_ok_def)

text \<open>
  The state right after \<open>allocate\<close>: all of the invariant but the operation of the new transaction,
  which is missing until it is recorded or the transaction is dropped again.
\<close>

lemma allocated_ok:
  fixes ctx now
  assumes "proxy_inv p" and "list_all isDigit imsi"
  defines "tm \<equiv> snd (allocate imsi ctx now (txMgr p))"
  shows "\<And>tid t. find_tx tm tid = Some t \<Longrightarrow> tid \<noteq> next_tid (txMgr p) \<Longrightarrow> find_tx (txMgr p) tid = Some t"
    and "\<And>t. find_tx tm (next_tid (txMgr p)) = Some t \<Longrightarrow> mapTransactionId t = next_tid (txMgr p) \<and>
           1 \<le> unat (mapInvokeId t) \<and> unat (mapInvokeId t) \<le> 127 \<and> list_all isDigit (tx_imsi t)"
    and "finite (dom (find_tx tm))" and "1 \<le> unat (invokeIdCounter tm)" and "unat (invokeIdCounter tm) \<le> 128"
proof -
  let ?tid = "next_tid (txMgr p)"
  have counter: "1 \<le> unat (invokeIdCounter (txMgr p))" using assms(1) by (simp add: proxy_inv_def)
  have find: "find_tx tm k = (if k = ?tid \<and> find_tx (txMgr p) k = None then Some (next_entry (imsi, ctx, now) (txMgr p))
      else find_tx (txMgr p) k)" for k
    using tx.find_put [of "(imsi, ctx, now)" "txMgr p" k] by (simp add: tm_def)
  show "find_tx (txMgr p) k = Some t" if "find_tx tm k = Some t" "k \<noteq> ?tid" for k t
    using that find by simp
  show "mapTransactionId t = ?tid \<and> 1 \<le> unat (mapInvokeId t) \<and> unat (mapInvokeId t) \<le> 127 \<and> list_all isDigit (tx_imsi t)"
    if "find_tx tm ?tid = Some t" for t
    using that find [of ?tid] assms(1,2) next_invoke_range [OF counter]
    by (auto simp: next_entry_def proxy_inv_def tx_ok_def split: if_splits)
  show "finite (dom (find_tx tm))"
    using tx.put_dom [of "(imsi, ctx, now)" "txMgr p"] assms(1) by (simp add: tm_def proxy_inv_def)
  show "1 \<le> unat (invokeIdCounter tm)" "unat (invokeIdCounter tm) \<le> 128"
    using next_counter_range [OF counter] by (simp_all add: tm_def)
qed

lemma inv_forward:
  assumes inv: "proxy_inv p" and "list_all isDigit (g_imsi g)"
  shows "proxy_inv (snd (forward now g ctx p))"
proof -
  let ?tid = "next_tid (txMgr p)"
  let ?tm = "snd (allocate (g_imsi g) ctx now (txMgr p))"
  note a = allocated_ok [OF assms, of ctx now]
  have ops: "\<And>tid t. find_tx (txMgr p) tid = Some t \<Longrightarrow> tx_ok p tid t"
    "\<And>tid op. pendingOps p tid = Some op \<Longrightarrow> op \<in> snd ` set sgsn_requests" "finite (dom (pendingOps p))"
    using inv by (auto simp: proxy_inv_def)
  have complete: "find_tx (complete ?tm ?tid) k = Some t \<Longrightarrow> k \<noteq> ?tid \<and> find_tx (txMgr p) k = Some t" for k t
    using tx.find_remove [of ?tm ?tid k] a(1) by (auto split: if_splits)
  have fin: "finite (dom (find_tx (complete ?tm ?tid)))" using tx.remove_dom [of ?tm ?tid] a(3) by simp
  show ?thesis
  proof (cases "gsupToMap g ?tid (mapInvokeId (entry_for (g_imsi g) ctx now (txMgr p)))")
    case (Inl e)
    let ?p = "p\<lparr>txMgr := complete ?tm ?tid\<rparr>"
    have "proxy_inv ?p"
    proof (rule proxy_invI)
      show "tx_ok ?p k t" if "find_tx (txMgr ?p) k = Some t" for k t
        using that complete [of k t] ops(1) [of k t] by (simp add: tx_ok_ops [of p])
    qed (use ops fin a(4,5) in auto)
    with Inl show ?thesis by (simp add: forward_def Let_def)
  next
    case (Inr m)
    then have m: "m_operation m \<in> snd ` set sgsn_requests" using gsupToMap_operation by force
    show ?thesis
    proof (cases "map_encode m")
      case (Inl e)
      let ?p = "drop_tx ?tid (p\<lparr>txMgr := ?tm\<rparr>)"
      have "proxy_inv ?p"
      proof (rule proxy_invI)
        show "tx_ok ?p k t" if "find_tx (txMgr ?p) k = Some t" for k t
          using that complete [of k t] ops(1) [of k t] by (simp add: drop_tx_def tx_ok_ops [of p])
      qed (use ops fin a(4,5) in \<open>auto simp: drop_tx_def split: if_splits\<close>)
      with Inl Inr show ?thesis by (simp add: forward_def Let_def)
    next
      case (Inr d)
      let ?p = "p\<lparr>txMgr := ?tm, pendingOps := (pendingOps p)(?tid \<mapsto> m_operation m)\<rparr>"
      have "proxy_inv ?p"
      proof (rule proxy_invI)
        show "tx_ok ?p k t" if "find_tx (txMgr ?p) k = Some t" for k t
        proof (cases "k = ?tid")
          case True
          then show ?thesis using that a(2) [of t] next_tid_nonzero [of "txMgr p"] by (simp add: tx_ok_def)
        next
          case False
          then show ?thesis using that a(1) [of k t] ops(1) [of k t] by (simp add: tx_ok_ops [of p])
        qed
      qed (use ops m a(3-5) in \<open>auto split: if_splits\<close>)
      with Inr \<open>gsupToMap _ _ _ = Inr m\<close> show ?thesis by (simp add: forward_def Let_def)
    qed
  qed
qed

lemma inv_nack:
  assumes "proxy_inv p" and "distinct order" and "set order = dom (pendingOps p)"
    and "nackAllPendingTransactions order p = Inr (acts, p')"
  shows "proxy_inv p' \<and> find_tx (txMgr p') = Map.empty \<and> pendingOps p' = Map.empty \<and> hlrTx p' = hlrTx p \<and>
    acts = concat (map (nack_answer p) order)"
proof -
  have p': "p' = p\<lparr>txMgr := remove_txs (dom (pendingOps p)) (txMgr p), pendingOps := Map.empty\<rparr>"
    and acts: "acts = concat (map (nack_answer p) order)"
    using assms(2-4) by (auto simp: nackAllPendingTransactions_def nackLoop_eq)
  have "find_tx (txMgr p') k = None" for k
    using assms(1) by (auto simp: p' remove_txs_simps proxy_inv_def tx_ok_def)
  then have "find_tx (txMgr p') = Map.empty" by (rule ext)
  then show ?thesis
    using assms(1) acts by (simp add: proxy_inv_def p' remove_txs_simps)
qed

lemma inv_keys: "proxy_inv p \<Longrightarrow> transactions (txMgr p) k = Some t \<Longrightarrow> mapTransactionId t = k"
  by (auto simp: proxy_inv_def tx_ok_def find_tx_def)

lemma inv_expire:
  assumes inv: "proxy_inv p" and order: "distinct order" "set order = dom (transactions (txMgr p))"
    and "expireSgsnTransactions now order p = Inr (acts, p')"
  shows "proxy_inv p' \<and> transactions (txMgr p') = keep_fresh now (txMgr p) \<and>
    pendingOps p' = pendingOps p |` (- {k. stale_key now (txMgr p) k}) \<and> hlrTx p' = hlrTx p \<and>
    acts = concat (map (nack_answer p) (filter (stale_key now (txMgr p)) order))"
proof -
  let ?tm = "txMgr p"
  let ?ks = "filter (stale_key now ?tm) order"
  let ?es = "map (\<lambda>k. the (transactions ?tm k)) ?ks"
  have key: "mapTransactionId (the (transactions ?tm k)) = k" if "k \<in> set ?ks" for k
    using that order(2) inv_keys [OF inv] by auto
  then have keys: "map mapTransactionId ?es = ?ks" unfolding map_map by (intro map_idI) simp
  have stale: "set ?ks = {k. stale_key now ?tm k}"
    using order(2) by (auto simp: stale_key_def split: option.splits)
  have "mapTransactionId ` set ?es = set ?ks" using keys by (metis set_map)
  then have p': "p' = p\<lparr>txMgr := ?tm\<lparr>transactions := keep_fresh now ?tm\<rparr>,
      pendingOps := pendingOps p |` (- {k. stale_key now ?tm k})\<rparr>"
    and acts: "acts = concat (map (expire_answer (pendingOps p)) ?es)"
    using assms(4) expireAnswers_eq [of ?es "p\<lparr>txMgr := ?tm\<lparr>transactions := keep_fresh now ?tm\<rparr>\<rparr>"] order(1)
    unfolding keys stale [symmetric]
    by (simp_all add: expireSgsnTransactions_def expireStale_entries [OF order])
  have "expire_answer (pendingOps p) (the (transactions ?tm k)) = nack_answer p k" if "k \<in> set ?ks" for k
    using key [OF that] that order(2) by (auto simp: expire_answer_def nack_answer_def find_tx_def split: option.splits)
  then have "map (expire_answer (pendingOps p)) ?es = map (nack_answer p) ?ks"
    unfolding map_map by (intro map_cong refl) simp
  then have "acts = concat (map (nack_answer p) ?ks)" by (simp only: acts)
  moreover have "proxy_inv p'"
  proof -
    have sub: "keep_fresh now ?tm k = Some t \<Longrightarrow> transactions ?tm k = Some t \<and> \<not> stale_key now ?tm k" for k t
      by (auto simp: keep_fresh_def stale_key_def split: option.splits if_splits)
    have find: "find_tx (txMgr p') k = keep_fresh now ?tm k" for k by (simp add: p' find_tx_def)
    have old: "\<And>tid t. find_tx ?tm tid = Some t \<Longrightarrow> tx_ok p tid t"
      "\<And>tid op. pendingOps p tid = Some op \<Longrightarrow> op \<in> snd ` set sgsn_requests" "finite (dom (pendingOps p))"
      "finite (dom (find_tx ?tm))" "1 \<le> unat (invokeIdCounter ?tm)" "unat (invokeIdCounter ?tm) \<le> 128"
      using inv by (auto simp: proxy_inv_def)
    show ?thesis
    proof (rule proxy_invI)
      show "tx_ok p' k t" if "find_tx (txMgr p') k = Some t" for k t
      proof (rule tx_ok_ops)
        show "tx_ok p k t" using that sub [of k t] old(1) [of k t] unfolding find by (simp add: find_tx_def)
        show "pendingOps p' k = pendingOps p k" using that sub [of k t] unfolding find by (simp add: p')
      qed
      show "finite (dom (find_tx (txMgr p')))"
        by (rule finite_subset [OF _ old(4)]) (use sub in \<open>auto simp: find find_tx_def [of ?tm]\<close>)
      show "op \<in> snd ` set sgsn_requests" if "pendingOps p' k = Some op" for k op
        using that old(2) [of k op] by (simp add: p' restrict_map_def split: if_splits)
    qed (use old(3,5,6) in \<open>simp_all add: p'\<close>)
  qed
  ultimately show ?thesis unfolding p' by simp
qed

section \<open>Every run keeps the invariant\<close>

lemma gsup_decode_digits: "gsup_decode bs = Inr g \<Longrightarrow> list_all isDigit (g_imsi g)"
  by (cases bs) (auto simp: gsup_decode_def gsup_decode_Cons GsupMessage_init_def rbind_Inr_iff dest!: gsup_ies_digits)

lemma inv_event:
  assumes "proxy_inv p" and "event_ok ev p" and "proxy_event now ev p = Inr (acts, p')"
  shows "proxy_inv p'"
proof (cases ev)
  case (SgsnMessage bs ctx)
  show ?thesis
  proof (cases "gsup_decode bs")
    case (Inr g)
    then show ?thesis
      using assms SgsnMessage inv_forward [OF assms(1) gsup_decode_digits [OF Inr], of now ctx]
      by (auto simp: proxy_event_def handleGsupPayload_eq handleGsupHlrResponse_eq inv_hlrTx
          split: if_splits option.splits)
  qed (use assms SgsnMessage in \<open>auto simp: proxy_event_def handleGsupPayload_eq\<close>)
next
  case (HlrMessage bs)
  then show ?thesis
    using assms inv_drop [OF assms(1)]
    by (auto simp: proxy_event_def handleMapPayload_eq handleHlrInitiated_eq answerPending_eq inv_hlrTx
        split: sum.splits if_splits option.splits)
next
  case (HlrDisconnected order)
  then show ?thesis
    using assms inv_nack [OF assms(1)] by (auto simp: proxy_event_def event_ok_def)
next
  case (Tick order now' hlrOrder)
  then obtain p1 where "expireSgsnTransactions now order p = Inr (acts, p1)"
    and "p' = expireHlrTransactions now' 30 hlrOrder p1"
    using assms(3) by (auto simp: proxy_event_def tick_def rbind_Inr_iff)
  then show ?thesis
    using Tick assms(2) inv_expire [OF assms(1)]
    by (auto simp: event_ok_def expireHlrTransactions_def inv_hlrTx)
qed

lemma inv_run: "proxy_run p tr p' \<Longrightarrow> proxy_inv p \<Longrightarrow> proxy_inv p'"
  by (induction rule: proxy_run.induct) (auto elim!: proxy_stepE intro: inv_event)

section \<open>Counters and other transactions\<close>

definition is_sgsn :: "label \<Rightarrow> bool" where
  "is_sgsn l = (case l of (now, SgsnMessage bs ctx, acts) \<Rightarrow> True | _ \<Rightarrow> False)"

lemma forward_counters:
  "counters_at n (txMgr p) \<Longrightarrow> counters_at (Suc n) (txMgr (snd (forward now g ctx p)))"
  using counters_allocate [of n "txMgr p" "g_imsi g" ctx now]
  by (auto simp: forward_def Let_def drop_tx_def counters_complete split: sum.split)

lemma remove_txs_counters: "counters_at n (remove_txs ks tm) = counters_at n tm"
  by (simp add: counters_at_def next_tid_def nextTid_def nextInvokeId_def Let_def remove_txs_simps)

lemma nackLoop_counters: "nackLoop order p = Inr (acts, p') \<Longrightarrow> counters_at n (txMgr p') = counters_at n (txMgr p)"
proof (induction order arbitrary: p acts p')
  case (Cons k ks)
  then show ?case
    by (auto simp: rbind_Inr_iff sendError_eq split: option.splits prod.splits)
      (metis Proxy.select_convs(1) Proxy.surjective Proxy.update_convs(1) counters_complete)+
qed simp

lemma expireAnswers_txMgr: "expireAnswers ts p = Inr (acts, p') \<Longrightarrow> txMgr p' = txMgr p"
  by (induction ts arbitrary: p acts p') (fastforce simp: rbind_Inr_iff sendError_eq split: option.splits)+

lemma tick_txMgr:
  assumes "proxy_event now (Tick order now' hlrOrder) p = Inr (acts, p')"
  shows "txMgr p' = snd (expireStale now order (txMgr p))"
proof -
  obtain es tm1 where e: "expireStale now order (txMgr p) = (es, tm1)" by (cases "expireStale now order (txMgr p)")
  with assms obtain p1 where "expireAnswers es (p\<lparr>txMgr := tm1\<rparr>) = Inr (acts, p1)"
    and "p' = expireHlrTransactions now' 30 hlrOrder p1"
    by (auto simp: proxy_event_def tick_def expireSgsnTransactions_def rbind_Inr_iff)
  then show ?thesis using e expireAnswers_txMgr by (force simp: expireHlrTransactions_def)
qed

lemma event_counters:
  assumes "proxy_event now ev p = Inr (acts, p')" and "counters_at n (txMgr p)"
  shows "\<exists>k \<le> (if is_sgsn (now, ev, acts) then 1 else 0). counters_at (n + k) (txMgr p')"
proof (cases ev)
  case (SgsnMessage bs ctx)
  then have "counters_at n (txMgr p') \<or> counters_at (Suc n) (txMgr p')"
    using assms forward_counters [OF assms(2)]
    by (auto simp: proxy_event_def handleGsupPayload_eq handleGsupHlrResponse_eq
        split: sum.splits if_splits option.splits, metis snd_conv)
  then show ?thesis
    using SgsnMessage exI [of "\<lambda>k. k \<le> 1 \<and> counters_at (n + k) (txMgr p')" 0]
      exI [of "\<lambda>k. k \<le> 1 \<and> counters_at (n + k) (txMgr p')" 1] by (auto simp: is_sgsn_def)
next
  case (HlrMessage bs)
  then have "counters_at n (txMgr p')"
    using assms
    by (auto simp: proxy_event_def handleMapPayload_eq handleHlrInitiated_eq answerPending_eq drop_tx_def
        counters_complete split: sum.splits if_splits option.splits)
  then show ?thesis by (intro exI [of _ 0]) simp
next
  case (HlrDisconnected order)
  then have "counters_at n (txMgr p')"
    using assms nackLoop_counters
    by (auto simp: proxy_event_def nackAllPendingTransactions_def rbind_Inr_iff)
  then show ?thesis by (intro exI [of _ 0]) simp
next
  case (Tick order now' hlrOrder)
  then have "counters_at n (txMgr p')"
    using assms counters_expire [of n now order "txMgr p"] tick_txMgr by simp
  then show ?thesis by (intro exI [of _ 0]) simp
qed

text \<open>
  The events that leave a given transaction alone: requests of others, messages of the HLR that do
  not answer it, and ticks at which it is not stale.
\<close>

definition spares :: "u32 \<Rightarrow> int \<Rightarrow> int \<Rightarrow> label \<Rightarrow> bool" where
  "spares tid limit created l =
     (case l of (now, ev, acts) \<Rightarrow>
      case ev of
        SgsnMessage bs ctx \<Rightarrow> True
      | HlrMessage bs \<Rightarrow>
          (case map_decode bs of Inl _ \<Rightarrow> True
           | Inr m \<Rightarrow> m_component m = Invoke \<or> m_transactionId m \<noteq> tid)
      | HlrDisconnected order \<Rightarrow> False
      | Tick order now' hlrOrder \<Rightarrow> \<not> is_stale now limit created)"

definition pending :: "Proxy \<Rightarrow> u32 \<Rightarrow> PendingTransaction \<Rightarrow> MapOperation \<Rightarrow> bool" where
  "pending p tid t op \<longleftrightarrow> find_tx (txMgr p) tid = Some t \<and> pendingOps p tid = Some op"

lemma pending_drop: "pending p tid t op \<Longrightarrow> k \<noteq> tid \<Longrightarrow> pending (drop_tx k p) tid t op"
  using tx.find_remove [of "txMgr p" k tid] by (simp add: pending_def drop_tx_def)

lemma pending_forward:
  assumes "pending p tid t op" and "next_tid (txMgr p) \<noteq> tid"
  shows "pending (snd (forward now g ctx p)) tid t op"
proof -
  let ?tm = "snd (allocate (g_imsi g) ctx now (txMgr p))"
  have "find_tx ?tm tid = Some t"
    using tx.put_keeps [of "txMgr p" tid t "(g_imsi g, ctx, now)"] assms by (simp add: pending_def)
  then show ?thesis
    using assms tx.find_remove [of ?tm "next_tid (txMgr p)" tid]
    by (auto simp: forward_def Let_def pending_def drop_tx_def split: sum.split)
qed

lemma event_timeout:
  assumes "proxy_inv p" and "event_ok ev p" and "proxy_event now ev p = Inr (acts, p')"
  shows "timeout (txMgr p') = timeout (txMgr p)"
proof (cases ev)
  case (SgsnMessage bs ctx)
  then show ?thesis
    using assms(3)
    by (auto simp: proxy_event_def handleGsupPayload_eq handleGsupHlrResponse_eq forward_def Let_def drop_tx_def
        split: sum.splits if_splits option.splits)
next
  case (HlrMessage bs)
  then show ?thesis
    using assms(3)
    by (auto simp: proxy_event_def handleMapPayload_eq handleHlrInitiated_eq answerPending_eq drop_tx_def
        split: sum.splits if_splits option.splits)
next
  case (HlrDisconnected order)
  then show ?thesis
    using assms(2,3) nackLoop_eq [of order p]
    by (auto simp: proxy_event_def event_ok_def nackAllPendingTransactions_def remove_txs_simps)
next
  case (Tick order now' hlrOrder)
  then show ?thesis
    using assms(3) tick_txMgr by (simp add: expireStale_def)
qed

lemma event_spares:
  assumes inv: "proxy_inv p" and ok: "event_ok ev p" and ev: "proxy_event now ev p = Inr (acts, p')"
    and pend: "pending p tid t op" and sp: "spares tid (timeout (txMgr p)) (createdAt t) (now, ev, acts)"
    and fresh: "is_sgsn (now, ev, acts) \<Longrightarrow> next_tid (txMgr p) \<noteq> tid"
  shows "pending p' tid t op"
proof (cases ev)
  case (SgsnMessage bs ctx)
  then show ?thesis
    using ev pend pending_forward [OF pend fresh, of now _ ctx]
    by (auto simp: proxy_event_def handleGsupPayload_eq handleGsupHlrResponse_eq is_sgsn_def pending_def
        split: sum.splits if_splits option.splits) (metis snd_conv)+
next
  case (HlrMessage bs)
  then show ?thesis
    using ev pend sp pending_drop [OF pend]
    by (auto simp: proxy_event_def handleMapPayload_eq handleHlrInitiated_eq answerPending_eq spares_def pending_def
        split: sum.splits if_splits option.splits)
next
  case (HlrDisconnected order)
  then show ?thesis using sp by (simp add: spares_def)
next
  case (Tick order now' hlrOrder)
  then obtain p1 where p1: "expireSgsnTransactions now order p = Inr (acts, p1)"
    and p': "p' = expireHlrTransactions now' 30 hlrOrder p1"
    using ev by (auto simp: proxy_event_def tick_def rbind_Inr_iff)
  have "transactions (txMgr p1) = keep_fresh now (txMgr p)"
    "pendingOps p1 = pendingOps p |` (- {k. stale_key now (txMgr p) k})"
    using inv_expire [OF inv _ _ p1] ok Tick by (simp_all add: event_ok_def)
  moreover have "transactions (txMgr p) tid = Some t" "\<not> is_stale now (timeout (txMgr p)) (createdAt t)"
    using pend sp Tick by (simp_all add: pending_def find_tx_def spares_def)
  ultimately show ?thesis
    using pend
    by (simp add: p' expireHlrTransactions_def pending_def find_tx_def keep_fresh_def stale_key_def)
qed

text \<open>Throughout a run, as long as the counter cannot have come round to its ID.\<close>

lemma run_spares:
  assumes "proxy_run p tr p'" and "proxy_inv p" and "pending p tid t op" and "tid = nth_tid n"
    and "counters_at (Suc n) (txMgr p)" and "\<forall>l \<in> set tr. spares tid (timeout (txMgr p)) (createdAt t) l"
    and "length (filter is_sgsn tr) < 2 ^ 32 - 2"
  shows "pending p' tid t op \<and> timeout (txMgr p') = timeout (txMgr p) \<and>
    (\<exists>k \<le> length (filter is_sgsn tr). counters_at (Suc n + k) (txMgr p'))"
  using assms
proof (induction rule: proxy_run.induct)
  case (run_nil p)
  then show ?case by (auto intro!: exI [of _ 0])
next
  case (run_step p tr p1 l p2)
  from run_step have p1: "pending p1 tid t op" "timeout (txMgr p1) = timeout (txMgr p)" by auto
  from run_step obtain k where k: "k \<le> length (filter is_sgsn tr)" "counters_at (Suc n + k) (txMgr p1)" by auto
  obtain now ev acts where l: "l = (now, ev, acts)" by (cases l)
  then have ok: "event_ok ev p1" and ev: "proxy_event now ev p1 = Inr (acts, p2)"
    using run_step.hyps(2) by (auto simp: proxy_step_simps)
  have inv: "proxy_inv p1" using run_step inv_run by blast
  have "next_tid (txMgr p1) \<noteq> tid"
  proof
    assume "next_tid (txMgr p1) = tid"
    then have "nth_tid (Suc n + k) = nth_tid n" using k(2) run_step.prems by (simp add: counters_at_def)
    then have "(Suc n + k) mod tid_period = n mod tid_period"
      using unat_nth_tid [of "Suc n + k"] unat_nth_tid [of n] by simp
    then have "tid_period dvd Suc n + k - n" by (metis le_add1 le_Suc_eq mod_eq_dvd_iff_nat add_Suc)
    then have "tid_period \<le> Suc k" by (auto dest: dvd_imp_le)
    then show False using k(1) run_step.prems by (simp add: tid_period_def)
  qed
  then have "pending p2 tid t op"
    using event_spares [OF inv ok ev p1(1)] run_step.prems p1(2) l by simp
  moreover obtain j where "j \<le> (if is_sgsn l then 1 else 0)" "counters_at (Suc n + k + j) (txMgr p2)"
    using event_counters [OF ev k(2)] l by auto
  then have "\<exists>k \<le> length (filter is_sgsn (tr @ [l])). counters_at (Suc n + k) (txMgr p2)"
    using k(1) by (intro exI [of _ "k + j"]) (auto simp: add.assoc split: if_splits)
  ultimately show ?case using event_timeout [OF inv ok ev] p1(2) by simp
qed

section \<open>Counting answers\<close>

text \<open>The messages to SGSNs that answer one of their requests; a forwarded HLR request is none.\<close>

definition answers :: "label \<Rightarrow> nat" where
  "answers l =
     (case l of (now, ev, acts) \<Rightarrow>
      case ev of
        SgsnMessage bs ctx \<Rightarrow> 0
      | HlrMessage bs \<Rightarrow>
          (case map_decode bs of Inl _ \<Rightarrow> 0 | Inr m \<Rightarrow> if m_component m = Invoke then 0 else length acts)
      | HlrDisconnected order \<Rightarrow> length acts
      | Tick order now' hlrOrder \<Rightarrow> length acts)"

abbreviation open_txs :: "Proxy \<Rightarrow> nat" where
  "open_txs p \<equiv> card (dom (find_tx (txMgr p)))"

lemma length_nack_answer: "length (nack_answer p k) \<le> (if find_tx (txMgr p) k = None then 0 else 1)"
  by (auto simp: nack_answer_def sends_def split: option.split)

lemma length_nack_answers:
  "length (concat (map (nack_answer p) ks)) \<le> length (filter (\<lambda>k. find_tx (txMgr p) k \<noteq> None) ks)"
proof (induction ks)
  case (Cons k ks)
  then show ?case using length_nack_answer [of p k] by (auto split: if_splits)
qed simp

lemma length_sends: "length (sends f v) \<le> 1"
  by (simp add: sends_def split: option.split)

lemma open_txs_forward:
  assumes "proxy_inv p"
  shows "open_txs (snd (forward now g ctx p)) \<le> Suc (open_txs p)"
proof -
  let ?tm = "snd (allocate (g_imsi g) ctx now (txMgr p))"
  have fin: "finite (dom (find_tx (txMgr p)))" using assms by (simp add: proxy_inv_def)
  have "card (dom (find_tx ?tm)) \<le> Suc (open_txs p)"
    using tx.put_dom [of "(g_imsi g, ctx, now)" "txMgr p"] card_insert_le_m1 fin by (simp add: card_insert_if)
  moreover have "card (dom (find_tx (complete ?tm k))) \<le> card (dom (find_tx ?tm))" for k
    using tx.remove_dom [of ?tm k] tx.put_dom [of "(g_imsi g, ctx, now)" "txMgr p"] fin
    by (auto intro: card_mono)
  ultimately show ?thesis
    by (auto simp: forward_def Let_def drop_tx_def split: sum.split intro: le_trans)
qed

lemma event_answers:
  assumes inv: "proxy_inv p" and ok: "event_ok ev p" and ev: "proxy_event now ev p = Inr (acts, p')"
  shows "answers (now, ev, acts) + open_txs p' \<le> open_txs p + (if is_sgsn (now, ev, acts) then 1 else 0)"
proof (cases ev)
  case (SgsnMessage bs ctx)
  then show ?thesis
    using ev open_txs_forward [OF inv, of now _ ctx]
    by (auto simp: proxy_event_def handleGsupPayload_eq handleGsupHlrResponse_eq answers_def is_sgsn_def
        split: sum.splits if_splits option.splits) (metis snd_conv)+
next
  case (HlrMessage bs)
  have drop: "length (sends f v) + open_txs (drop_tx k p) \<le> open_txs p" if "find_tx (txMgr p) k = Some t" for k t f v
  proof -
    have k: "k \<in> dom (find_tx (txMgr p))" using that by blast
    have "open_txs (drop_tx k p) = open_txs p - 1"
      using tx.remove_dom [of "txMgr p" k] card_Diff_singleton [OF k] by (simp add: drop_tx_def)
    moreover have "0 < open_txs p" using k inv by (auto simp: proxy_inv_def card_gt_0_iff)
    ultimately show ?thesis using length_sends [of f v] by simp
  qed
  show ?thesis
    using HlrMessage ev drop
    by (auto simp: proxy_event_def handleMapPayload_eq handleHlrInitiated_eq answerPending_eq answers_def
        is_sgsn_def split: sum.splits if_splits option.splits)
next
  case (HlrDisconnected order)
  then have order: "distinct order" "set order = dom (pendingOps p)"
    and n: "nackAllPendingTransactions order p = Inr (acts, p')"
    using ok ev by (simp_all add: event_ok_def proxy_event_def)
  let ?ks = "filter (\<lambda>k. find_tx (txMgr p) k \<noteq> None) order"
  have "length ?ks = card (set ?ks)" using distinct_card [OF distinct_filter [OF order(1)]] by simp
  also have "\<dots> \<le> open_txs p" using inv by (intro card_mono) (auto simp: proxy_inv_def)
  finally have "length acts \<le> open_txs p"
    using inv_nack [OF inv order n] length_nack_answers [of p order] by simp
  then show ?thesis using inv_nack [OF inv order n] HlrDisconnected by (simp add: answers_def)
next
  case (Tick order now' hlrOrder)
  then obtain p1 where p1: "expireSgsnTransactions now order p = Inr (acts, p1)"
    and p': "p' = expireHlrTransactions now' 30 hlrOrder p1"
    using ev by (auto simp: proxy_event_def tick_def rbind_Inr_iff)
  have order: "distinct order" "set order = dom (transactions (txMgr p))" using Tick ok by (simp_all add: event_ok_def)
  note e = inv_expire [OF inv order p1]
  let ?ks = "filter (stale_key now (txMgr p)) order"
  have acts: "acts = concat (map (nack_answer p) ?ks)" using e by blast
  have "length acts \<le> card (set ?ks)"
    using length_nack_answers [of p ?ks] distinct_card [OF distinct_filter [OF order(1)], of "stale_key now (txMgr p)"]
      length_filter_le [of "\<lambda>k. find_tx (txMgr p) k \<noteq> None" ?ks]
    unfolding acts by linarith
  moreover have "dom (find_tx (txMgr p')) = dom (find_tx (txMgr p)) - set ?ks"
    using e order(2) by (auto simp: p' expireHlrTransactions_def find_tx_def keep_fresh_def stale_key_def domIff
        split: option.splits if_splits)
  moreover have "set ?ks \<subseteq> dom (find_tx (txMgr p))" using order(2) by (auto simp: find_tx_def)
  ultimately show ?thesis
    using Tick inv card_Diff_subset [of "set ?ks" "dom (find_tx (txMgr p))"]
      card_mono [of "dom (find_tx (txMgr p))" "set ?ks"]
    by (simp add: answers_def proxy_inv_def)
qed

lemma run_answers:
  "proxy_run p tr p' \<Longrightarrow> proxy_inv p \<Longrightarrow>
     sum_list (map answers tr) + open_txs p' \<le> open_txs p + length (filter is_sgsn tr)"
proof (induction rule: proxy_run.induct)
  case (run_step p tr p1 l p2)
  obtain now ev acts where l: "l = (now, ev, acts)" by (cases l)
  then have "event_ok ev p1" "proxy_event now ev p1 = Inr (acts, p2)"
    using run_step.hyps(2) by (auto simp: proxy_step_simps)
  with event_answers [OF inv_run [OF run_step.hyps(1) run_step.prems]]
  have "answers l + open_txs p2 \<le> open_txs p1 + (if is_sgsn l then 1 else 0)" using l by blast
  with run_step show ?case by (auto split: if_splits)
qed simp

lemma run_counters: "proxy_run p tr p' \<Longrightarrow> counters_at n (txMgr p) \<Longrightarrow> \<exists>k. counters_at k (txMgr p')"
  by (induction rule: proxy_run.induct) (auto elim!: proxy_stepE dest: event_counters)

lemma reachable_counters: "proxy_run (proxy_new limit) tr p \<Longrightarrow> \<exists>n. counters_at n (txMgr p)"
  using run_counters counters_new by (fastforce simp: proxy_new_def)

text \<open>
  The transaction IDs in the table have all been handed out, so that the next one is free as long as
  the counter has not wrapped around.
\<close>

definition issued :: "nat \<Rightarrow> TransactionManager \<Rightarrow> bool" where
  "issued n tm \<longleftrightarrow> counters_at n tm \<and> dom (find_tx tm) \<subseteq> nth_tid ` {..<n}"

lemma issued_forward: "issued n (txMgr p) \<Longrightarrow> issued (Suc n) (txMgr (snd (forward now g ctx p)))"
proof -
  assume "issued n (txMgr p)"
  then have c: "counters_at n (txMgr p)" "dom (find_tx (txMgr p)) \<subseteq> nth_tid ` {..<n}" by (simp_all add: issued_def)
  let ?tm = "snd (allocate (g_imsi g) ctx now (txMgr p))"
  have "dom (find_tx ?tm) \<subseteq> insert (next_tid (txMgr p)) (dom (find_tx (txMgr p)))"
    using tx.put_dom [of "(g_imsi g, ctx, now)" "txMgr p"] by auto
  also have "\<dots> \<subseteq> nth_tid ` {..<Suc n}" using c by (auto simp: counters_at_def lessThan_Suc)
  finally have put: "dom (find_tx ?tm) \<subseteq> nth_tid ` {..<Suc n}" .
  then have "dom (find_tx (complete ?tm k)) \<subseteq> nth_tid ` {..<Suc n}" for k using tx.remove_dom [of ?tm k] by auto
  then have "dom (find_tx (txMgr (snd (forward now g ctx p)))) \<subseteq> nth_tid ` {..<Suc n}"
    using put by (auto simp: forward_def Let_def drop_tx_def split: sum.split)
  then show ?thesis using forward_counters [OF c(1)] by (simp add: issued_def)
qed

lemma event_removes:
  assumes inv: "proxy_inv p" and ok: "event_ok ev p" and ev: "proxy_event now ev p = Inr (acts, p')" and "\<not> is_sgsn (now, ev, acts)"
  shows "dom (find_tx (txMgr p')) \<subseteq> dom (find_tx (txMgr p))"
proof (cases ev)
  case (HlrMessage bs)
  have "dom (find_tx (txMgr (drop_tx k p))) \<subseteq> dom (find_tx (txMgr p))" for k
    using tx.remove_dom [of "txMgr p" k] by (auto simp: drop_tx_def)
  then show ?thesis
    using HlrMessage ev
    by (auto simp: proxy_event_def handleMapPayload_eq handleHlrInitiated_eq answerPending_eq split: sum.splits if_splits option.splits)
next
  case (HlrDisconnected order)
  then have "distinct order" "set order = dom (pendingOps p)" "nackAllPendingTransactions order p = Inr (acts, p')"
    using ok ev by (simp_all add: event_ok_def proxy_event_def)
  from inv_nack [OF inv this] show ?thesis by simp
next
  case (Tick order now' hlrOrder)
  then have order: "distinct order" "set order = dom (transactions (txMgr p))" using ok by (simp_all add: event_ok_def)
  show ?thesis
    using tick_txMgr [OF ev [unfolded Tick]] expireStale_entries [OF order, of now]
    by (auto simp: find_tx_def keep_fresh_def split: option.splits if_splits)
qed (use assms(4) in \<open>simp add: is_sgsn_def\<close>)

lemma issued_event:
  assumes "proxy_inv p" and "event_ok ev p" and ev: "proxy_event now ev p = Inr (acts, p')" and n: "issued n (txMgr p)"
  shows "\<exists>k \<le> (if is_sgsn (now, ev, acts) then 1 else 0). issued (n + k) (txMgr p')"
proof (cases "is_sgsn (now, ev, acts)")
  case True
  then obtain bs ctx where "ev = SgsnMessage bs ctx" by (cases ev) (auto simp: is_sgsn_def)
  then have "issued n (txMgr p') \<or> issued (Suc n) (txMgr p')"
    using ev n issued_forward [OF n]
    by (auto simp: proxy_event_def handleGsupPayload_eq handleGsupHlrResponse_eq split: sum.splits if_splits option.splits, metis snd_conv)
  then show ?thesis
    using True exI [of "\<lambda>k. k \<le> 1 \<and> issued (n + k) (txMgr p')" 0] exI [of "\<lambda>k. k \<le> 1 \<and> issued (n + k) (txMgr p')" 1] by auto
next
  case False
  then have "counters_at n (txMgr p')" using event_counters [OF ev, of n] n by (auto simp: issued_def)
  then show ?thesis using event_removes [OF assms(1-3) False] n by (intro exI [of _ 0]) (auto simp: issued_def)
qed

lemma issued_run:
  "proxy_run p tr p' \<Longrightarrow> proxy_inv p \<Longrightarrow> issued n (txMgr p) \<Longrightarrow> \<exists>k \<le> length (filter is_sgsn tr). issued (n + k) (txMgr p')"
proof (induction rule: proxy_run.induct)
  case (run_step p tr p1 l p2)
  obtain now ev acts where l: "l = (now, ev, acts)" by (cases l)
  then have ev: "event_ok ev p1" "proxy_event now ev p1 = Inr (acts, p2)"
    using run_step.hyps(2) by (auto simp: proxy_step_simps)
  obtain k where k: "k \<le> length (filter is_sgsn tr)" "issued (n + k) (txMgr p1)" using run_step by blast
  obtain j where "j \<le> (if is_sgsn l then 1 else 0)" "issued (n + k + j) (txMgr p2)"
    using issued_event [OF inv_run [OF run_step.hyps(1) run_step.prems(1)] ev k(2)] l by blast
  then show ?case using k(1) by (intro exI [of _ "k + j"]) (auto simp: add.assoc split: if_splits)
qed auto

lemma reachable_free:
  assumes "proxy_run (proxy_new limit) tr p" and "length (filter is_sgsn tr) < 2 ^ 32 - 1"
  shows "find_tx (txMgr p) (next_tid (txMgr p)) = None"
proof -
  have "issued 0 (txMgr (proxy_new limit))"
    using counters_new by (simp add: issued_def proxy_new_def tm_new_def find_tx_def [abs_def])
  then obtain k where k: "k \<le> length (filter is_sgsn tr)" "issued k (txMgr p)"
    using issued_run [OF assms(1) inv_new, of 0] by auto
  have "nth_tid k \<noteq> nth_tid i" if "i < k" for i
    using that k(1) assms(2) unat_nth_tid [of k] unat_nth_tid [of i] by (auto simp: tid_period_def)
  then have "next_tid (txMgr p) \<notin> dom (find_tx (txMgr p))" using k(2) by (auto simp: issued_def counters_at_def)
  then show ?thesis by (simp add: domIff)
qed

section \<open>Single requests and answers\<close>

text \<open>A well-formed request of a supported type is forwarded and remembered.\<close>

lemma request_types: "(t, op) \<in> set sgsn_requests \<Longrightarrow> \<not> isHlrInitiatedGsupType t"
  by (auto simp: sgsn_requests_def isHlrInitiatedGsupType_def wire_consts)

lemma forward_ok:
  assumes wf: "gsup_wf g" and enc: "gsup_encode g = Inr payload" and req: "(g_type g, op) \<in> set sgsn_requests"
    and free: "find_tx (txMgr p) (next_tid (txMgr p)) = None"
  shows "\<exists>bs m p'. handleGsupPayload now payload ctx p = Inr ([SendHlr bs], p') \<and> map_decode bs = Inr m \<and> bs = map_pdu m \<and>
    gsupToMap g (next_tid (txMgr p)) (fst (nextInvokeId (txMgr p))) = Inr m \<and> m_operation m = op \<and>
    find_tx (txMgr p') = (find_tx (txMgr p))(next_tid (txMgr p) \<mapsto> next_entry (g_imsi g, ctx, now) (txMgr p)) \<and>
    pendingOps p' = (pendingOps p)(next_tid (txMgr p) \<mapsto> op) \<and> hlrTx p' = hlrTx p \<and>
    p' = snd (forward now g ctx p)"
proof -
  let ?tid = "next_tid (txMgr p)" and ?iid = "fst (nextInvokeId (txMgr p))"
  have dec: "gsup_decode payload = Inr g" using gsup_roundtrip [OF wf] enc by simp
  obtain m where m: "gsupToMap g ?tid ?iid = Inr m" "m_operation m = op" using gsupToMap_total [OF req] by blast
  have imsi: "list_all isDigit (g_imsi g)" "length (g_imsi g) \<le> 1000"
    and msisdn: "\<And>x. g_msisdn g = Some x \<Longrightarrow> length x \<le> 1000"
    using wf by (auto simp: gsup_wf_def fits_def)
  have fits: "map_fits m" using gsupToMap_small [OF m(1) imsi(2) msisdn] map_small_fits by blast
  note env = gsupToMap_envelope [OF m(1)]
  have "map_encode m = Inr (map_pdu m)" using env fits by (simp add: map_encode_fit)
  moreover have "map_decode (map_pdu m) = Inr m"
    using map_decode_pdu [OF _ fits] env imsi(1) gsupToMap_view [OF m(1)] by simp
  moreover have "find_tx (snd (allocate (g_imsi g) ctx now (txMgr p))) =
      (find_tx (txMgr p))(?tid \<mapsto> next_entry (g_imsi g, ctx, now) (txMgr p))"
    using tx.find_put [of "(g_imsi g, ctx, now)" "txMgr p"] free by (auto simp: fun_eq_iff)
  moreover have "entry_for (g_imsi g) ctx now (txMgr p) = next_entry (g_imsi g, ctx, now) (txMgr p)"
    using free by (simp add: entry_for_def)
  ultimately show ?thesis
    using dec m request_types [OF req] by (simp add: handleGsupPayload_eq forward_def Let_def next_entry_def)
qed

text \<open>The answer of the HLR goes to the client of the request.\<close>

lemma mapToGsup_view_result:
  "m_component r = ReturnResult \<Longrightarrow> mapToGsup ((map_view r)\<lparr>m_imsi := i\<rparr>) = mapToGsup (r\<lparr>m_imsi := i\<rparr>)"
  by (simp add: mapToGsup_def map_view_def Let_def)

lemma map_view_result:
  "m_component r = ReturnResult \<Longrightarrow> m_imsi (map_view r) = [] \<and> m_operation (map_view r) = m_operation r \<and>
     m_transactionId (map_view r) = m_transactionId r \<and> m_component (map_view r) = ReturnResult"
  by (simp add: map_view_def)

lemma decode_answer:
  assumes "map_encode r = Inr bs" and "list_all isDigit (m_imsi r)"
  shows "map_decode bs = Inr (map_view r)"
proof -
  have "m_component r \<noteq> Reject"
    using assms(1) by (auto simp: map_encode_def map_encodeComponent_def rbind_Inr_iff)
  with assms show ?thesis by (auto simp: map_encode_fit map_decode_pdu split: if_splits)
qed

lemma answer_result:
  assumes pend: "pending p tid t op" and op: "op \<in> snd ` set sgsn_requests"
    and r: "m_component r = ReturnResult" "m_operation r = op" "m_transactionId r = tid"
    and enc: "map_encode r = Inr bs" "list_all isDigit (m_imsi r)"
    and a: "mapToGsup (r\<lparr>m_imsi := tx_imsi t\<rparr>) = Inr a" "gsup_wf a"
  shows "\<exists>data. handleMapPayload now bs p = Inr ([SendSgsn data (clientContext t)], drop_tx tid p) \<and>
    gsup_encode a = Inr data \<and> gsup_decode data = Inr a"
proof -
  have "op \<noteq> MapOperation_Unknown" using op by (auto simp: sgsn_requests_def)
  then have "fill_in (map_view r) t p = (map_view r)\<lparr>m_imsi := tx_imsi t\<rparr>"
    using map_view_result [OF r(1)] r(2) by (simp add: fill_in_def)
  moreover obtain data where "gsup_encode a = Inr data" "gsup_decode data = Inr a"
    using gsup_roundtrip [OF a(2)] by (auto simp: rbind_Inr_iff)
  ultimately show ?thesis
    using decode_answer [OF enc] pend map_view_result [OF r(1)] r(3) a(1)
    by (simp add: handleMapPayload_eq answerPending_eq pending_def mapToGsup_view_result [OF r(1)])
qed

definition gsup_error :: "MessageType \<Rightarrow> string \<Rightarrow> byte option \<Rightarrow> GsupMessage" where
  "gsup_error t imsi cause = GsupMessage_init\<lparr>g_imsi := imsi, g_type := t, g_cause := cause\<rparr>"

lemma gsup_error_wf: "list_all isDigit imsi \<Longrightarrow> length imsi \<le> 15 \<Longrightarrow> gsup_wf (gsup_error t imsi cause)"
  by (simp add: gsup_error_def gsup_wf_def GsupMessage_init_def fits_def)

lemma mapToGsup_error:
  assumes "(req, op) \<in> set sgsn_requests" and "m_component m = ReturnError" and "m_operation m = op"
  shows "\<exists>err. expectedGsupError req = Inr err \<and> mapToGsup m = Inr (gsup_error err (m_imsi m) (m_errorCode m))"
  using assms
  by (auto simp: sgsn_requests_def mapToGsup_def mapErrorToGsup_def expectedGsupError_def gsup_error_def wire_consts)

lemma answer_error:
  assumes pend: "pending p tid t op" and req: "(req, op) \<in> set sgsn_requests"
    and r: "m_component r = ReturnError" "m_transactionId r = tid"
    and enc: "map_encode r = Inr bs" "list_all isDigit (m_imsi r)"
    and t: "list_all isDigit (tx_imsi t)" "length (tx_imsi t) \<le> 15"
  shows "\<exists>data err. handleMapPayload now bs p = Inr ([SendSgsn data (clientContext t)], drop_tx tid p) \<and>
    expectedGsupError req = Inr err \<and>
    gsup_decode data = Inr (gsup_error err (tx_imsi t) (Some (value_or (m_errorCode r) 34)))"
proof -
  have view: "m_component (map_view r) = ReturnError" "m_transactionId (map_view r) = tid" "m_imsi (map_view r) = []"
    "m_operation (map_view r) = MapOperation_Unknown" "m_errorCode (map_view r) = Some (value_or (m_errorCode r) 34)"
    using r by (simp_all add: map_view_def)
  let ?m = "(map_view r)\<lparr>m_imsi := tx_imsi t, m_operation := op\<rparr>"
  have fill: "fill_in (map_view r) t p = ?m" using pend view by (simp add: fill_in_def pending_def)
  obtain err where err: "expectedGsupError req = Inr err"
    "mapToGsup ?m = Inr (gsup_error err (tx_imsi t) (Some (value_or (m_errorCode r) 34)))"
    using mapToGsup_error [OF req, of ?m] view by auto
  obtain data where data: "gsup_encode (gsup_error err (tx_imsi t) (Some (value_or (m_errorCode r) 34))) = Inr data"
    "gsup_decode data = Inr (gsup_error err (tx_imsi t) (Some (value_or (m_errorCode r) 34)))"
    using gsup_roundtrip [OF gsup_error_wf [OF t]] by (auto simp: rbind_Inr_iff)
  have "handleMapPayload now bs p = Inr ([SendSgsn data (clientContext t)], drop_tx tid p)"
    using decode_answer [OF enc] pend view fill err(2) data(1)
    by (simp add: handleMapPayload_eq answerPending_eq pending_def)
  with err(1) data(2) show ?thesis by blast
qed

text \<open>The error answer of a disconnect or an expiry.\<close>

lemma error_answer_ok:
  assumes "(req, op) \<in> set sgsn_requests" and "list_all isDigit imsi" "length imsi \<le> 15"
  shows "\<exists>data err. error_answer tid op imsi = Some data \<and> expectedGsupError req = Inr err \<and>
    gsup_decode data = Inr (gsup_error err imsi None)"
proof -
  let ?m = "MapMessage_init\<lparr>m_transactionId := tid, m_operation := op, m_component := ReturnError, m_imsi := imsi\<rparr>"
  obtain err where "expectedGsupError req = Inr err" "mapToGsup ?m = Inr (gsup_error err imsi None)"
    using mapToGsup_error [OF assms(1), of ?m] by (auto simp: MapMessage_init_def)
  moreover obtain data where "gsup_encode (gsup_error err imsi None) = Inr data"
    "gsup_decode data = Inr (gsup_error err imsi None)"
    using gsup_roundtrip [OF gsup_error_wf [OF assms(2,3)]] by (auto simp: rbind_Inr_iff)
  ultimately show ?thesis by (auto simp: error_answer_def)
qed

lemma nack_answer_ok:
  assumes "proxy_inv p" and "pending p tid t op" and "length (tx_imsi t) \<le> 15"
  shows "\<exists>req data err. (req, op) \<in> set sgsn_requests \<and> expectedGsupError req = Inr err \<and>
    nack_answer p tid = [SendSgsn data (clientContext t)] \<and> gsup_decode data = Inr (gsup_error err (tx_imsi t) None)"
proof -
  have "op \<in> snd ` set sgsn_requests" using assms(1,2) unfolding proxy_inv_def pending_def by blast
  then obtain req where req: "(req, op) \<in> set sgsn_requests" by auto
  have "list_all isDigit (tx_imsi t)" using assms(1,2) by (auto simp: proxy_inv_def pending_def tx_ok_def)
  from error_answer_ok [OF req this assms(3), of tid] req show ?thesis
    using assms(2) by (auto simp: nack_answer_def pending_def)
qed

text \<open>The client of a transaction is sent the GSUP error that belongs to the pending operation.\<close>

definition error_sent :: "Proxy \<Rightarrow> Action list \<Rightarrow> u32 \<Rightarrow> PendingTransaction \<Rightarrow> bool" where
  "error_sent p acts tid t \<longleftrightarrow>
     (\<exists>req op err data. pendingOps p tid = Some op \<and> (req, op) \<in> set sgsn_requests \<and>
        expectedGsupError req = Inr err \<and> SendSgsn data (clientContext t) \<in> set acts \<and>
        gsup_decode data = Inr (gsup_error err (tx_imsi t) None))"

lemma error_sentI:
  assumes "proxy_inv p" and "pending p tid t op" and "length (tx_imsi t) \<le> 15" and "set (nack_answer p tid) \<subseteq> set acts"
  shows "error_sent p acts tid t"
  using nack_answer_ok [OF assms(1-3)] assms(2,4) by (force simp: error_sent_def pending_def)

section \<open>HLR-initiated requests and answers\<close>

lemma mapInvokeToGsup_view:
  "m_component m = Invoke \<Longrightarrow> mapInvokeToGsup (map_view m) = mapInvokeToGsup m"
  by (simp add: mapInvokeToGsup_def map_view_def Let_def split: option.split)

lemma mapInvokeToGsup_wf:
  "mapInvokeToGsup m = Inr g \<Longrightarrow> list_all isDigit (m_imsi m) \<Longrightarrow> length (m_imsi m) \<le> 15 \<Longrightarrow> fits (m_msisdn m) \<Longrightarrow>
     gsup_wf g"
  by (auto simp: mapInvokeToGsup_def Let_def gsup_wf_def GsupMessage_init_def fits_def split: if_splits option.splits)

lemma hlr_request_forwarded:
  assumes m: "m_component m = Invoke" "(t, m_operation m, res, err) \<in> set hlr_requests"
    and enc: "map_encode m = Inr bs"
    and fits: "list_all isDigit (m_imsi m)" "length (m_imsi m) \<le> 15" "fits (m_msisdn m)"
  shows "\<exists>data g. handleMapPayload now bs p = Inr ([SendSgsn data 0], p\<lparr>hlrTx := (hlrTx p)(m_imsi m \<mapsto>
      \<lparr>h_mapTransactionId = m_transactionId m, h_mapInvokeId = m_invokeId m,
       h_mapOperation = m_operation m, h_createdAt = now\<rparr>)\<rparr>) \<and>
    gsup_decode data = Inr g \<and> mapInvokeToGsup m = Inr g \<and> g_type g = t \<and> g_imsi g = m_imsi m \<and> gsup_encode g = Inr data"
proof -
  obtain g where g: "mapInvokeToGsup m = Inr g" "g_type g = t" "g_imsi g = m_imsi m"
    using mapInvokeToGsup_total [OF m] by blast
  obtain data where data: "gsup_encode g = Inr data" "gsup_decode data = Inr g"
    using gsup_roundtrip [OF mapInvokeToGsup_wf [OF g(1) fits]] by (auto simp: rbind_Inr_iff)
  have "m_component (map_view m) = Invoke" "m_transactionId (map_view m) = m_transactionId m"
    "m_invokeId (map_view m) = m_invokeId m" "m_operation (map_view m) = m_operation m"
    using m(1) by (simp_all add: map_view_def split: option.split)
  then show ?thesis
    using decode_answer [OF enc fits(1)] mapInvokeToGsup_view [OF m(1)] g data
    by (simp add: handleMapPayload_eq handleHlrInitiated_eq)
qed

lemma hlr_answer_forwarded:
  assumes a: "gsup_wf a" "gsup_encode a = Inr payload" "isHlrInitiatedGsupType (g_type a)"
    and e: "hlrTx p (g_imsi a) = Some e"
  shows "\<exists>bs r. handleGsupPayload now payload ctx p = Inr ([SendHlr bs], p\<lparr>hlrTx := (hlrTx p)(g_imsi a := None)\<rparr>) \<and>
    gsupToMapResult a (h_mapTransactionId e) (h_mapInvokeId e) = Inr r \<and> map_decode bs = Inr (map_view r) \<and> bs = map_pdu r"
proof -
  obtain r where r: "gsupToMapResult a (h_mapTransactionId e) (h_mapInvokeId e) = Inr r"
    using a(3) by (auto simp: isHlrInitiatedGsupType_def gsupToMapResult_def Let_def wire_consts)
  note env = gsupToMapResult_envelope [OF r]
  have imsi: "list_all isDigit (g_imsi a)" "length (g_imsi a) \<le> 1000" using a(1) by (auto simp: gsup_wf_def)
  have "map_encode r = Inr (map_pdu r)"
    using map_small_fits [OF gsupToMapResult_small [OF r imsi(2)]] env by (simp add: map_encode_fit)
  moreover from this have "map_decode (map_pdu r) = Inr (map_view r)" using decode_answer env imsi(1) by simp
  moreover have "gsup_decode payload = Inr a" using gsup_roundtrip [OF a(1)] a(2) by simp
  ultimately show ?thesis using r a(3) e by (simp add: handleGsupPayload_eq handleGsupHlrResponse_eq)
qed

text \<open>What the HLR decodes from such an answer.\<close>

lemma hlr_answer_view:
  assumes req: "(t, op, res, err) \<in> set hlr_requests" and r: "gsupToMapResult a tid iid = Inr r"
  shows "m_transactionId (map_view r) = tid" and "m_invokeId (map_view r) = iid"
    and "g_type a = res \<longrightarrow> m_component (map_view r) = ReturnResult \<and> m_operation (map_view r) = op"
    and "g_type a = err \<longrightarrow> m_component (map_view r) = ReturnError \<and> m_errorCode (map_view r) = Some (value_or (g_cause a) 34)"
  using gsupToMapResult_envelope [OF r] hlr_answer [OF req, of a tid iid] r
  by (auto simp: map_view_def split: ComponentType.split)

lemma reachable_pending:
  assumes "proxy_run (proxy_new limit) tr p" and "find_tx (txMgr p) tid = Some t"
  shows "\<exists>op. pending p tid t op"
  using inv_run [OF assms(1) inv_new] assms(2) by (auto simp: proxy_inv_def tx_ok_def pending_def)

text \<open>A concrete run for the witnesses: client 7 asks for authentication vectors.\<close>

definition demo_entry :: PendingTransaction where
  "demo_entry = \<lparr>mapTransactionId = 1, mapInvokeId = 1, tx_imsi = ''123'', clientContext = 7, createdAt = 0\<rparr>"

lemma demo_asked:
  "\<exists>bs p. proxy_event now (SgsnMessage demo_request c) (proxy_new 30) = Inr ([SendHlr bs], p) \<and>
     find_tx (txMgr p) = [1 \<mapsto> \<lparr>mapTransactionId = 1, mapInvokeId = 1, tx_imsi = ''123'', clientContext = c, createdAt = now\<rparr>] \<and>
     pendingOps p = [1 \<mapsto> SendAuthenticationInfo] \<and> hlrTx p = Map.empty \<and> timeout (txMgr p) = 30"
proof -
  let ?p = "proxy_new 30"
  obtain bs p where p: "handleGsupPayload now demo_request c ?p = Inr ([SendHlr bs], p)"
    "find_tx (txMgr p) = (find_tx (txMgr ?p))(next_tid (txMgr ?p) \<mapsto> next_entry (g_imsi demo_gsup, c, now) (txMgr ?p))"
    "pendingOps p = (pendingOps ?p)(next_tid (txMgr ?p) \<mapsto> SendAuthenticationInfo)" "hlrTx p = hlrTx ?p"
    using forward_ok [OF demo_gsup_facts(1) demo_gsup_bytes demo_gsup_facts(2), of ?p now c] demo_proxy_facts(2) by auto
  have ev: "proxy_event now (SgsnMessage demo_request c) ?p = Inr ([SendHlr bs], p)" using p(1) by (simp add: proxy_event_def)
  moreover have "timeout (txMgr p) = 30" using event_timeout [OF inv_new _ ev] demo_proxy_facts(5) by (simp add: event_ok_def)
  ultimately show ?thesis using p(2-4) demo_proxy_facts demo_gsup_facts(3) by simp
qed

lemma demo_run:
  "\<exists>acts p. proxy_run (proxy_new 30) [(0, SgsnMessage demo_request 7, acts)] p \<and>
     pending p 1 demo_entry SendAuthenticationInfo \<and> dom (pendingOps p) = {1} \<and> find_tx (txMgr p) = [1 \<mapsto> demo_entry] \<and>
     timeout (txMgr p) = 30 \<and> hlrTx p = Map.empty"
proof -
  obtain bs p where p: "proxy_event 0 (SgsnMessage demo_request 7) (proxy_new 30) = Inr ([SendHlr bs], p)"
    "find_tx (txMgr p) = [1 \<mapsto> demo_entry]" "pendingOps p = [1 \<mapsto> SendAuthenticationInfo]" "hlrTx p = Map.empty" "timeout (txMgr p) = 30"
    using demo_asked [of 0 7] by (auto simp: demo_entry_def)
  have "proxy_step (proxy_new 30) (0, SgsnMessage demo_request 7, [SendHlr bs]) p"
    using p(1) by (simp add: proxy_step_simps event_ok_def)
  then have "proxy_run (proxy_new 30) ([] @ [(0, SgsnMessage demo_request 7, [SendHlr bs])]) p" by (rule run_step [OF run_nil])
  then show ?thesis using p(2-5) by (intro exI [of _ "[SendHlr bs]"] exI [of _ p]) (simp add: pending_def)
qed

section \<open>Properties\<close>

text \<open>
  C10: Whatever bytes arrive from an SGSN or from the HLR, at whatever time and in whatever state of
  the tables, the handler returns: no exception escapes it, no empty optional is dereferenced and no
  vector is indexed or copied from outside of its bounds, each of which would be an
  undefined-behaviour value that no handler catches.  The same holds for the disconnect handler and the
  tick.  (The left shift of an INTEGER of more than eight octets, undefined in C++17, is taken to drop
  the bits shifted out, as GCC documents it.)
\<close>

theorem proxy_never_throws: "\<exists>acts p'. proxy_event now ev p = Inr (acts, p')"
  by (rule proxy_event_returns)

text \<open>
  C12: In every state the proxy can reach, a pending transaction is stored under its own transaction
  ID, which is not 0, has an invoke ID between 1 and 127 and an IMSI of digits, and its MAP
  operation is recorded and is one of the five operations the proxy forwards.
\<close>

theorem proxy_invariant:
  assumes "proxy_run (proxy_new limit) tr p" and "find_tx (txMgr p) tid = Some t"
  shows "mapTransactionId t = tid \<and> tid \<noteq> 0 \<and> 1 \<le> unat (mapInvokeId t) \<and> unat (mapInvokeId t) \<le> 127 \<and>
    list_all isDigit (tx_imsi t) \<and> (\<exists>op. pendingOps p tid = Some op \<and> op \<in> snd ` set sgsn_requests)"
  using inv_run [OF assms(1) inv_new] assms(2) unfolding proxy_inv_def tx_ok_def by blast

theorem proxy_invariant_witness:
  "\<exists>acts p. proxy_run (proxy_new 30) [(0, SgsnMessage demo_request 7, acts)] p \<and>
     find_tx (txMgr p) 1 = Some demo_entry \<and> (\<exists>op. pendingOps p 1 = Some op \<and> op \<in> snd ` set sgsn_requests)"
proof -
  obtain acts p where h: "proxy_run (proxy_new 30) [(0, SgsnMessage demo_request 7, acts)] p"
    "find_tx (txMgr p) 1 = Some demo_entry" using demo_run by (auto simp: pending_def)
  from proxy_invariant [OF h] h show ?thesis by blast
qed

text \<open>
  C11: No request is answered twice.  In every run, the answers sent to SGSNs (for results, errors,
  disconnects and expiries together) and the transactions still open are together no more than the
  messages received from SGSNs.
\<close>

theorem at_most_one_answer:
  assumes "proxy_run (proxy_new limit) tr p"
  shows "sum_list (map answers tr) + card (dom (find_tx (txMgr p))) \<le> length (filter is_sgsn tr)"
  using run_answers [OF assms inv_new] by (simp add: proxy_new_def tm_new_def find_tx_def [abs_def])

theorem at_most_one_answer_witness:
  "\<exists>acts p. proxy_run (proxy_new 30) [(0, SgsnMessage demo_request 7, acts)] p \<and>
     sum_list (map answers [(0, SgsnMessage demo_request 7, acts)]) + card (dom (find_tx (txMgr p))) \<le> 1"
proof -
  obtain acts p where h: "proxy_run (proxy_new 30) [(0, SgsnMessage demo_request 7, acts)] p"
    using demo_run by blast
  from at_most_one_answer [OF h] h show ?thesis by (auto simp: is_sgsn_def)
qed

text \<open>
  When the HLR connection is lost, both tables of SGSN-initiated transactions become empty, and
  every pending request whose IMSI has at most 15 digits is answered: its client is sent a GSUP
  error of the type that belongs to the pending operation, with the IMSI of the request.
\<close>

lemma disconnect_answers_all:
  assumes "proxy_run (proxy_new limit) tr p" and "distinct order" and "set order = dom (pendingOps p)"
  shows "\<exists>acts p'. proxy_event now (HlrDisconnected order) p = Inr (acts, p') \<and>
    find_tx (txMgr p') = Map.empty \<and> pendingOps p' = Map.empty \<and> hlrTx p' = hlrTx p \<and>
    (\<forall>tid t. find_tx (txMgr p) tid = Some t \<and> length (tx_imsi t) \<le> 15 \<longrightarrow> error_sent p acts tid t)"
proof -
  have inv: "proxy_inv p" using inv_run [OF assms(1) inv_new] .
  obtain acts p' where n: "proxy_event now (HlrDisconnected order) p = Inr (acts, p')" using proxy_event_returns by blast
  then have nack: "nackAllPendingTransactions order p = Inr (acts, p')" by (simp add: proxy_event_def)
  note res = inv_nack [OF inv assms(2,3) nack]
  have "error_sent p acts tid t" if t: "find_tx (txMgr p) tid = Some t" "length (tx_imsi t) \<le> 15" for tid t
  proof -
    obtain op where op: "pending p tid t op" using reachable_pending [OF assms(1) t(1)] by blast
    then have "tid \<in> set order" using assms(3) by (auto simp: pending_def)
    then have "set (nack_answer p tid) \<subseteq> set acts" using res by auto
    with inv op t(2) show ?thesis by (rule error_sentI)
  qed
  with res n show ?thesis by blast
qed

text \<open>
  The periodic tick removes exactly the transactions older than the timeout from both tables,
  answers each of them whose IMSI has at most 15 digits with the GSUP error of its operation, and
  leaves all younger transactions alone; HLR-initiated entries older than 30 s are dropped silently.
\<close>

lemma tick_expires:
  assumes run: "proxy_run (proxy_new limit) tr p" and ok: "event_ok (Tick order now' hlrOrder) p"
  shows "\<exists>acts p'. proxy_event now (Tick order now' hlrOrder) p = Inr (acts, p') \<and>
    (\<forall>tid t. find_tx (txMgr p) tid = Some t \<longrightarrow>
       (if now - createdAt t > timeout (txMgr p) * ticks_per_second
        then find_tx (txMgr p') tid = None \<and> pendingOps p' tid = None \<and>
          (length (tx_imsi t) \<le> 15 \<longrightarrow> error_sent p acts tid t)
        else find_tx (txMgr p') tid = Some t \<and> pendingOps p' tid = pendingOps p tid)) \<and>
    hlrTx p' = (\<lambda>k. case hlrTx p k of None \<Rightarrow> None
      | Some e \<Rightarrow> if now' - h_createdAt e > 30 * ticks_per_second then None else Some e)"
proof -
  have inv: "proxy_inv p" using inv_run [OF run inv_new] .
  have order: "distinct order" "set order = dom (transactions (txMgr p))" "distinct hlrOrder" "set hlrOrder = dom (hlrTx p)"
    using ok by (simp_all add: event_ok_def)
  obtain acts p' where n: "proxy_event now (Tick order now' hlrOrder) p = Inr (acts, p')" using proxy_event_returns by blast
  then obtain p1 where p1: "expireSgsnTransactions now order p = Inr (acts, p1)"
    and p': "p' = expireHlrTransactions now' 30 hlrOrder p1"
    by (auto simp: proxy_event_def tick_def rbind_Inr_iff)
  note e = inv_expire [OF inv order(1,2) p1]
  have stale: "is_stale now (timeout (txMgr p)) (createdAt t) = stale_key now (txMgr p) tid"
    if "find_tx (txMgr p) tid = Some t" for tid t
    using that by (simp add: stale_key_def find_tx_def)
  have tables: "find_tx (txMgr p') tid = (if stale_key now (txMgr p) tid then None else Some t)"
    "pendingOps p' tid = (if stale_key now (txMgr p) tid then None else pendingOps p tid)"
    if "find_tx (txMgr p) tid = Some t" for tid t
    using that e by (simp_all add: p' expireHlrTransactions_def find_tx_def keep_fresh_def stale_key_def)
  have answer: "error_sent p acts tid t"
    if t: "find_tx (txMgr p) tid = Some t" "stale_key now (txMgr p) tid" "length (tx_imsi t) \<le> 15" for tid t
  proof -
    obtain op where op: "pending p tid t op" using reachable_pending [OF run t(1)] by blast
    have "tid \<in> set (filter (stale_key now (txMgr p)) order)" using t order(2) by (auto simp: find_tx_def)
    then have "set (nack_answer p tid) \<subseteq> set acts" using e by auto
    with inv op t(3) show ?thesis by (rule error_sentI)
  qed
  have "hlrTx p' = (\<lambda>k. case hlrTx p k of None \<Rightarrow> None
      | Some e \<Rightarrow> if is_stale now' 30 (h_createdAt e) then None else Some e)"
    using e order(4) unfolding p' expireHlrTransactions_def
    by (auto simp: expireHlrLoop_eq [OF order(3)] fun_eq_iff split: option.split)
  then show ?thesis
    using n tables answer stale unfolding is_stale_def by (intro exI [of _ acts] exI [of _ p']) simp
qed

text \<open>
  C38: A TCAP Reject (or any other component the decoder does not know) that the HLR sends for a
  transaction has no effect: when it is the only component of the message and has at most 1000 octets,
  nothing is sent and no table changes, so that a pending transaction stays until it expires.
\<close>

theorem reject_ignored:
  assumes "length body \<le> 1000" and "ctag \<notin> {kCompTagInvoke, kCompTagReturnResult, kCompTagReturnError}"
  shows "handleMapPayload now (ber_tlv pdu (ber_tlv kTcapTagDtid (tid_bytes tid) @
      ber_tlv kTcapTagComponents (ber_tlv ctag body))) p = Inr ([], p)"
proof -
  let ?comp = "ber_tlv ctag body"
  let ?tcap = "ber_tlv kTcapTagDtid (tid_bytes tid) @ ber_tlv kTcapTagComponents ?comp"
  have comp: "length ?comp \<le> 1004" using tlv_le [OF assms(1)] by simp
  have "length (ber_tlv kTcapTagComponents ?comp) \<le> 1008" using tlv_le [OF comp] by simp
  moreover have "length (ber_tlv kTcapTagDtid (tid_bytes tid)) \<le> 8"
    using tlv_le [of "tid_bytes tid" 4 kTcapTagDtid] by (simp add: tid_bytes_def)
  ultimately have len: "length ?tcap \<le> 0xFFFF" by simp
  have lens: "length (tid_bytes tid) \<le> 0xFFFF" "length ?comp \<le> 0xFFFF" "length body \<le> 0xFFFF"
    using comp assms(1) by (simp_all add: tid_bytes_def)
  have known: "map_component ctag body m = Inr m" for m using assms(2) by (simp add: map_component_def)
  have last: "ber_loop map_tcapField (rd_at pre (ber_tlv kTcapTagComponents ?comp)) = map_tcapField kTcapTagComponents ?comp"
    for pre by (rule ext) (rule ber_loop_last [OF lens(2)])
  have "ber_loop map_tcapField (rd_at [] ?tcap) MapMessage_init =
      rbind (map_tcapField kTcapTagDtid (tid_bytes tid) MapMessage_init) (map_tcapField kTcapTagComponents ?comp)"
    by (simp only: ber_loop_cons [OF lens(1)] last)
  also have "\<dots> = Inr (MapMessage_init\<lparr>m_transactionId := tid\<rparr>)"
    using map_tcapField_tid [of False] by (simp add: map_tcapField_components rd_new_at ber_loop_last [OF lens(3)] known)
  finally have "map_decode (ber_tlv pdu ?tcap) = Inr (MapMessage_init\<lparr>m_transactionId := tid\<rparr>)"
    using len by (simp add: map_decode_def rd_new_at ber_readTlv_last)
  then show ?thesis
    by (simp add: handleMapPayload_eq handleHlrInitiated_eq mapInvokeToGsup_def MapMessage_init_def)
qed

theorem reject_ignored_witness:
  "\<exists>acts p. proxy_run (proxy_new 30) [(0, SgsnMessage demo_request 7, acts)] p \<and>
     find_tx (txMgr p) 1 = Some demo_entry \<and>
     handleMapPayload 5 (ber_tlv kTcapTagEnd (ber_tlv kTcapTagDtid (tid_bytes 1) @
       ber_tlv kTcapTagComponents (ber_tlv kCompTagReject [2, 1, 1]))) p = Inr ([], p)"
proof -
  have "length [2, 1, 1 :: byte] \<le> 1000" "kCompTagReject \<notin> {kCompTagInvoke, kCompTagReturnResult, kCompTagReturnError}"
    by (simp_all add: wire_consts)
  note reject_ignored [OF this]
  then show ?thesis using demo_run by (auto simp: pending_def)
qed

end
