(* ===== verification/Framing.thy ===== *)
theory Framing
  imports Buffer "HOL-Library.Sublist"
begin

text \<open>
  The interface of the two stream reassemblers, \<open>ipa::IpaDecoder\<close> and \<open>m3ua::M3uaDecoder\<close>: bytes
  are fed in the pieces TCP delivers them, and \<open>next\<close> is called until it has no further message.
  The locale \<open>stream_framer\<close> states what a client relies on; its lemmas show that the messages
  handed out do not depend on how the stream was cut.
\<close>

section \<open>The receive loop\<close>

text \<open>
  What a read handler does for each completed read: feed the piece, then
  \<open>while (auto f = next()) ...\<close>.  \<open>drain\<close> is that inner loop: the messages handed out and the
  exception that ended it, if any.  An exception leaves the handler, and nothing more is read.
\<close>

fun receive :: "('d \<Rightarrow> bytes \<Rightarrow> 'd) \<Rightarrow> ('d \<Rightarrow> 'f list \<times> exc option \<times> 'd) \<Rightarrow> 'd \<Rightarrow> bytes list \<Rightarrow>
    'f list \<times> exc option \<times> 'd" where
  "receive feed drain d [] = ([], None, d)"
| "receive feed drain d (c # cs) =
     (case drain (feed d c) of
        (fs, Some e, d') \<Rightarrow> (fs, Some e, d')
      | (fs, None, d') \<Rightarrow>
          (case receive feed drain d' cs of (gs, e, d'') \<Rightarrow> (fs @ gs, e, d'')))"

section \<open>Cutting a stream of frames\<close>

text \<open>
  Every prefix of a stream of frames is a number of whole frames and a proper prefix of the next.
\<close>

lemma frames_prefix_split:
  assumes "xs @ ys = concat (map enc fs)"
  obtains fs1 fs2 p where "fs = fs1 @ fs2" and "xs = concat (map enc fs1) @ p"
    and "p @ ys = concat (map enc fs2)"
    and "p = [] \<or> (\<exists>f gs. fs2 = f # gs \<and> strict_prefix p (enc f))"
  using assms
proof (induction fs arbitrary: xs thesis)
  case Nil
  then show ?case by simp
next
  case (Cons f fs)
  have eq: "xs @ ys = enc f @ concat (map enc fs)" using Cons.prems(2) by simp
  show ?case
  proof (cases "strict_prefix xs (enc f)")
    case True
    then show ?thesis using Cons.prems(1) [of "[]" "f # fs" xs] eq by simp
  next
    case False
    from eq obtain us where us: "xs = enc f @ us \<and> us @ ys = concat (map enc fs) \<or>
        xs @ us = enc f \<and> ys = us @ concat (map enc fs)"
      unfolding append_eq_append_conv2 by blast
    have "us = []" if "xs @ us = enc f"
      using False that [symmetric] by (simp add: strict_prefix_def)
    with us have xs: "xs = enc f @ us" and zs: "us @ ys = concat (map enc fs)"
      by auto
    obtain fs1 fs2 p where "fs = fs1 @ fs2" "us = concat (map enc fs1) @ p"
      "p @ ys = concat (map enc fs2)" "p = [] \<or> (\<exists>f gs. fs2 = f # gs \<and> strict_prefix p (enc f))"
      using Cons.IH [OF _ zs] by blast
    then show ?thesis using Cons.prems(1) [of "f # fs1" fs2 p] xs by simp
  qed
qed

section \<open>The interface\<close>

locale stream_framer =
  fixes feed :: "'d \<Rightarrow> bytes \<Rightarrow> 'd"
    and get :: "'d \<Rightarrow> 'f option result \<times> 'd"
    and drain :: "'d \<Rightarrow> 'f list \<times> exc option \<times> 'd"
    and buffered :: "'d \<Rightarrow> bytes"
    and enc :: "'f \<Rightarrow> bytes"
    and good :: "'f \<Rightarrow> bool"
  assumes buffered_feed: "buffered (feed d bs) = buffered d @ bs"
    and get_frame: "good f \<Longrightarrow> buffered d = enc f @ rest \<Longrightarrow>
          \<exists>d'. get d = (Inr (Some f), d') \<and> buffered d' = rest"
    and get_partial: "good f \<Longrightarrow> strict_prefix (buffered d) (enc f) \<Longrightarrow> get d = (Inr None, d)"
    and get_empty: "buffered d = [] \<Longrightarrow> get d = (Inr None, d)"
    and drain_unfold: "drain d =
          (case get d of
             (Inl e, d') \<Rightarrow> ([], Some e, d')
           | (Inr None, d') \<Rightarrow> ([], None, d')
           | (Inr (Some f), d') \<Rightarrow> (case drain d' of (fs, e, d'') \<Rightarrow> (f # fs, e, d'')))"
begin

text \<open>Whole frames are handed out in order; what remains is kept for the next read.\<close>

lemma drain_frames:
  assumes "\<forall>f \<in> set fs. good f" and "buffered d = concat (map enc fs) @ p"
    and "p = [] \<or> (\<exists>f. good f \<and> strict_prefix p (enc f))"
  shows "\<exists>d'. drain d = (fs, None, d') \<and> buffered d' = p"
  using assms(1,2)
proof (induction fs arbitrary: d)
  case Nil
  with assms(3) have "get d = (Inr None, d)"
    using get_empty get_partial by auto
  with Nil show ?case by (simp add: drain_unfold [of d])
next
  case (Cons f fs)
  then have "buffered d = enc f @ (concat (map enc fs) @ p)" by simp
  with Cons.prems obtain d1 where d1: "get d = (Inr (Some f), d1)"
    and "buffered d1 = concat (map enc fs) @ p"
    using get_frame by fastforce
  with Cons obtain d2 where "drain d1 = (fs, None, d2)" "buffered d2 = p" by auto
  with d1 show ?case by (simp add: drain_unfold [of d])
qed

text \<open>The frames received from a stream are the frames sent, however the stream is cut.\<close>

lemma receive_segmentation:
  assumes "\<forall>f \<in> set fs. good f" and "buffered d @ concat chunks = concat (map enc fs)"
    and "buffered d = [] \<or> (\<exists>f. good f \<and> strict_prefix (buffered d) (enc f))"
  shows "\<exists>d'. receive feed drain d chunks = (fs, None, d') \<and> buffered d' = []"
  using assms
proof (induction chunks arbitrary: d fs)
  case Nil
  have "fs = []"
  proof (cases fs)
    case (Cons f gs)
    with Nil.prems(1) have "good f" by simp
    moreover have "buffered d = enc f @ concat (map enc gs)" using Nil.prems(2) Cons by simp
    ultimately obtain d' where "get d = (Inr (Some f), d')" using get_frame by blast
    moreover have "get d = (Inr None, d)"
      using Nil.prems(3) get_empty get_partial by auto
    ultimately show ?thesis by simp
  qed simp
  with Nil show ?case by simp
next
  case (Cons c cs)
  have "buffered (feed d c) @ concat cs = concat (map enc fs)"
    using Cons.prems(2) by (simp add: buffered_feed)
  then obtain fs1 fs2 p where fs: "fs = fs1 @ fs2"
    and buf: "buffered (feed d c) = concat (map enc fs1) @ p"
    and rest: "p @ concat cs = concat (map enc fs2)"
    and p: "p = [] \<or> (\<exists>f gs. fs2 = f # gs \<and> strict_prefix p (enc f))"
    by (rule frames_prefix_split)
  have p': "p = [] \<or> (\<exists>f. good f \<and> strict_prefix p (enc f))"
    using p fs Cons.prems(1) by auto
  obtain d1 where d1: "drain (feed d c) = (fs1, None, d1)" "buffered d1 = p"
    using drain_frames [OF _ buf p'] Cons.prems(1) fs by auto
  obtain d2 where "receive feed drain d1 cs = (fs2, None, d2)" "buffered d2 = []"
    using Cons.IH [of fs2 d1] Cons.prems(1) fs rest p' d1(2) by auto
  with d1(1) fs show ?case by simp
qed

end

end
