(* ===== verification/IpaCodec.thy ===== *)
theory IpaCodec
  imports Framing
begin

text \<open>
  \<open>src/ipa\<close>: IPA framing (\<open>IpaFrame.hpp\<close>, \<open>IpaCodec.cpp\<close>).  A frame on the wire is a two-byte
  big-endian length, which counts the stream byte and the payload, the stream byte and the payload.
\<close>

section \<open>Frames\<close>

definition kStreamGsup :: byte where [wire_consts]: "kStreamGsup = 0xEE"
definition kStreamCcm :: byte where [wire_consts]: "kStreamCcm = 0xFE"
definition kCcmPing :: byte where [wire_consts]: "kCcmPing = 0x00"
definition kCcmPong :: byte where [wire_consts]: "kCcmPong = 0x01"
definition kCcmIdReq :: byte where [wire_consts]: "kCcmIdReq = 0x04"
definition kCcmIdResp :: byte where [wire_consts]: "kCcmIdResp = 0x05"
definition kCcmIdAck :: byte where [wire_consts]: "kCcmIdAck = 0x06"
definition kHeaderSize :: nat where [wire_consts]: "kHeaderSize = 3"
definition kMaxIpaWireLen :: u16 where [wire_consts]: "kMaxIpaWireLen = 4096"

record IpaFrame =
  streamId :: byte
  payload :: bytes

section \<open>Encoder\<close>

definition ipa_encode :: "byte \<Rightarrow> bytes \<Rightarrow> bytes result" where
  "ipa_encode sid pl =
     (if length pl > 0xFFFF then Inl (invalid_argument ''IPA payload too large'')
      else
        let wireLen = (of_nat (length pl + 1) :: u16)
        in Inr ([ucast (drop_bit 8 wireLen AND 0xFF), ucast (wireLen AND 0xFF), sid] @ pl))"

section \<open>Decoder\<close>

record IpaDecoder =
  ipa_buf :: bytes

definition ipa_new :: IpaDecoder where
  "ipa_new = \<lparr>ipa_buf = []\<rparr>"

definition ipa_feed :: "IpaDecoder \<Rightarrow> bytes \<Rightarrow> IpaDecoder" where
  "ipa_feed d data = d\<lparr>ipa_buf := ipa_buf d @ data\<rparr>"

definition ipa_hasData :: "IpaDecoder \<Rightarrow> bool" where
  "ipa_hasData d \<longleftrightarrow> ipa_buf d \<noteq> []"

text \<open>The exception and the decoder after it: an oversized frame empties the buffer.\<close>

definition ipa_next :: "IpaDecoder \<Rightarrow> IpaFrame option result \<times> IpaDecoder" where
  "ipa_next d =
     (let buf = ipa_buf d in
      if length buf < kHeaderSize then (Inr None, d)
      else
        case rbind (vec_at buf 0) (\<lambda>b0. rbind (vec_at buf 1) (\<lambda>b1. Inr (push_bit 8 (ucast b0) OR ucast b1 :: u16))) of
          Inl e \<Rightarrow> (Inl e, d)
        | Inr wireLen \<Rightarrow>
        if wireLen = 0 then (Inl (runtime_error ''IPA: zero-length wire frame''), d)
        else if wireLen > kMaxIpaWireLen then
          (Inl (runtime_error ''IPA: oversized frame (possible DoS)''), d\<lparr>ipa_buf := []\<rparr>)
        else
          let totalSize = kHeaderSize + unat wireLen - 1 in
          if length buf < totalSize then (Inr None, d)
          else
            (rbind (vec_at buf 2) (\<lambda>sid. rbind (vec_range buf kHeaderSize totalSize) (\<lambda>pl.
               Inr (Some \<lparr>streamId = sid, payload = pl\<rparr>))),
             d\<lparr>ipa_buf := drop totalSize buf\<rparr>))"

text \<open>The lengths are checked before the accesses.\<close>

lemma ipa_next_eq:
  "ipa_next d =
     (let buf = ipa_buf d; wireLen = (push_bit 8 (ucast (buf ! 0)) OR ucast (buf ! 1) :: u16); totalSize = 2 + unat wireLen in
      if length buf < 3 then (Inr None, d)
      else if wireLen = 0 then (Inl (runtime_error ''IPA: zero-length wire frame''), d)
      else if wireLen > 4096 then (Inl (runtime_error ''IPA: oversized frame (possible DoS)''), d\<lparr>ipa_buf := []\<rparr>)
      else if length buf < totalSize then (Inr None, d)
      else (Inr (Some \<lparr>streamId = buf ! 2, payload = drop 3 (take totalSize buf)\<rparr>), d\<lparr>ipa_buf := drop totalSize buf\<rparr>))"
proof -
  have "3 \<le> 2 + unat w" if "w \<noteq> 0" for w :: u16 using that by (simp add: unat_gt_0 Suc_le_eq)
  moreover have "vec_at (ipa_buf d) 0 = Inr (ipa_buf d ! 0)" "vec_at (ipa_buf d) 1 = Inr (ipa_buf d ! 1)"
    "vec_at (ipa_buf d) 2 = Inr (ipa_buf d ! 2)" if "\<not> length (ipa_buf d) < 3"
    using that by (auto simp: vec_at_def)
  ultimately show ?thesis by (simp add: ipa_next_def wire_consts Let_def)
qed

lemma ipa_next_shrinks:
  assumes "ipa_next d = (Inr (Some f), d')"
  shows "length (ipa_buf d') < length (ipa_buf d)"
  using assms by (auto simp: ipa_next_eq Let_def wire_consts split: if_splits)

text \<open>\<open>while (auto frame = decoder_.next()) ...\<close>\<close>

function ipa_drain :: "IpaDecoder \<Rightarrow> IpaFrame list \<times> exc option \<times> IpaDecoder" where
  "ipa_drain d =
     (case ipa_next d of
        (Inl e, d') \<Rightarrow> ([], Some e, d')
      | (Inr None, d') \<Rightarrow> ([], None, d')
      | (Inr (Some f), d') \<Rightarrow> (case ipa_drain d' of (fs, e, d'') \<Rightarrow> (f # fs, e, d'')))"
  by pat_completeness auto
termination
  by (relation "measure (\<lambda>d. length (ipa_buf d))") (auto dest: ipa_next_shrinks [OF sym])

declare ipa_drain.simps [simp del]

section \<open>Frames in front of the decoder\<close>

definition ipa_good :: "IpaFrame \<Rightarrow> bool" where
  "ipa_good f \<longleftrightarrow> length (payload f) \<le> 4095"

definition ipa_wire :: "IpaFrame \<Rightarrow> bytes" where
  "ipa_wire f =
     (let n = (of_nat (length (payload f) + 1) :: u16)
      in [ucast (drop_bit 8 n AND 0xFF), ucast (n AND 0xFF), streamId f] @ payload f)"

lemma ipa_encode_wire:
  "length pl \<le> 0xFFFF \<Longrightarrow> ipa_encode sid pl = Inr (ipa_wire \<lparr>streamId = sid, payload = pl\<rparr>)"
  by (simp add: ipa_encode_def ipa_wire_def Let_def)

lemma ipa_encode_good:
  "length (payload f) \<le> 4095 \<Longrightarrow> ipa_encode (streamId f) (payload f) = Inr (ipa_wire f)"
  by (simp add: ipa_encode_def ipa_wire_def Let_def)

lemma ipa_wireLen:
  "push_bit 8 (ucast (ucast (drop_bit 8 (n :: u16) AND 0xFF) :: byte)) OR
     ucast (ucast (n AND 0xFF) :: byte) = n"
  by (rule be16_join)

lemma unat_wireLen: "n \<le> 4095 \<Longrightarrow> unat (of_nat (n + 1) :: u16) = n + 1"
  by (simp only: unat_of_nat) simp

lemma ipa_next_wire:
  assumes "ipa_good f" and "ipa_buf d = ipa_wire f @ rest"
  shows "ipa_next d = (Inr (Some f), d\<lparr>ipa_buf := rest\<rparr>)"
proof -
  let ?n = "of_nat (length (payload f) + 1) :: u16"
  have n: "unat ?n = length (payload f) + 1"
    using assms(1) unat_wireLen by (simp only: ipa_good_def)
  then have "?n \<noteq> 0" "\<not> ?n > kMaxIpaWireLen"
    using assms(1) by (auto simp: word_less_nat_alt wire_consts ipa_good_def simp del: of_nat_add)
  then show ?thesis
    using n by (simp add: ipa_next_eq assms(2) ipa_wire_def Let_def ipa_wireLen wire_consts
        numeral_3_eq_3 del: of_nat_add)
qed

lemma ipa_next_partial:
  assumes "ipa_good f" and "strict_prefix (ipa_buf d) (ipa_wire f)"
  shows "ipa_next d = (Inr None, d)"
proof (cases "length (ipa_buf d) < 3")
  case True
  then show ?thesis by (simp add: ipa_next_eq Let_def wire_consts)
next
  case False
  let ?n = "of_nat (length (payload f) + 1) :: u16"
  obtain p where p: "payload f = p @ drop (length p) (payload f)" "length p < length (payload f)"
    and buf: "ipa_buf d = [ucast (drop_bit 8 ?n AND 0xFF), ucast (?n AND 0xFF), streamId f] @ p"
  proof -
    from assms(2) obtain b zs where "ipa_wire f = ipa_buf d @ b # zs"
      by (rule strict_prefixE')
    with False that show thesis
      by (cases "ipa_buf d" rule: list.exhaust; cases "tl (ipa_buf d)" rule: list.exhaust;
          cases "tl (tl (ipa_buf d))" rule: list.exhaust)
        (auto simp: ipa_wire_def Let_def)
  qed
  have n: "unat ?n = length (payload f) + 1"
    using assms(1) unat_wireLen by (simp only: ipa_good_def)
  then have "?n \<noteq> 0" "\<not> ?n > kMaxIpaWireLen"
    using assms(1) by (auto simp: word_less_nat_alt wire_consts ipa_good_def simp del: of_nat_add)
  then show ?thesis
    using n p(2) by (simp add: ipa_next_eq buf Let_def ipa_wireLen wire_consts del: of_nat_add)
qed

interpretation ipa_stream: stream_framer ipa_feed ipa_next ipa_drain ipa_buf ipa_wire ipa_good
proof unfold_locales
  show "ipa_buf (ipa_feed d bs) = ipa_buf d @ bs" for d bs
    by (simp add: ipa_feed_def)
  show "\<exists>d'. ipa_next d = (Inr (Some f), d') \<and> ipa_buf d' = rest"
    if "ipa_good f" and "ipa_buf d = ipa_wire f @ rest" for f d rest
    using ipa_next_wire [OF that] by simp
  show "ipa_next d = (Inr None, d)" if "ipa_buf d = []" for d
    using that by (simp add: ipa_next_eq wire_consts)
qed (fact ipa_next_partial ipa_drain.simps)+

section \<open>Properties\<close>

text \<open>
  C27: Reassembly does not depend on how TCP cuts the stream.  If every frame's payload has at most
  4095 octets, the encodings of the frames are concatenated, and the decoder is fed that stream in
  arbitrary pieces and drained after each, then it hands out exactly the frames, in order, without
  an exception, and ends with an empty buffer.
\<close>

theorem ipa_receive_frames:
  assumes "list_all (\<lambda>f. length (payload f) \<le> 4095) fs"
    and "map (\<lambda>f. ipa_encode (streamId f) (payload f)) fs = map Inr wires"
    and "concat chunks = concat wires"
  shows "\<exists>d. receive ipa_feed ipa_drain ipa_new chunks = (fs, None, d) \<and> ipa_buf d = []"
proof -
  have "map (\<lambda>f. ipa_encode (streamId f) (payload f)) fs = map Inr (map ipa_wire fs)"
    using assms(1) by (simp add: list_all_iff ipa_encode_good)
  with assms(2) have "map Inr wires = (map Inr (map ipa_wire fs) :: bytes result list)" by simp
  then have "wires = map ipa_wire fs" by (metis inj_Inr inj_map_eq_map)
  with assms(1,3) show ?thesis
    using ipa_stream.receive_segmentation [of fs ipa_new chunks]
    by (simp add: ipa_new_def ipa_good_def list_all_iff)
qed

theorem ipa_receive_frames_witness:
  "receive ipa_feed ipa_drain ipa_new [[0, 2], [0xEE], [7, 0, 1, 0xFE]] =
     ([\<lparr>streamId = 0xEE, payload = [7]\<rparr>, \<lparr>streamId = 0xFE, payload = []\<rparr>], None, \<lparr>ipa_buf = []\<rparr>)"
proof -
  have "\<exists>d. receive ipa_feed ipa_drain ipa_new [[0, 2], [0xEE], [7, 0, 1, 0xFE]] =
     ([\<lparr>streamId = 0xEE, payload = [7]\<rparr>, \<lparr>streamId = 0xFE, payload = []\<rparr>], None, d) \<and> ipa_buf d = []"
    by (rule ipa_receive_frames [where wires = "[[0, 2, 0xEE, 7], [0, 1, 0xFE]]"])
      (simp_all add: ipa_encode_def)
  then show ?thesis by auto
qed

text \<open>
  Whatever the decoder hands out is what was on the wire: re-encoding the frame gives exactly
  the bytes the decoder removed from the front of its buffer, and the payload is below the limit of
  4096 octets that guards the buffer.
\<close>

lemma ipa_next_faithful:
  assumes "ipa_next d = (Inr (Some f), d')"
  shows "length (payload f) < 4096 \<and>
    (\<exists>w. ipa_encode (streamId f) (payload f) = Inr w \<and> ipa_buf d = w @ ipa_buf d')"
proof -
  let ?b = "ipa_buf d"
  let ?n = "push_bit 8 (ucast (?b ! 0)) OR ucast (?b ! 1) :: u16"
  from assms have len: "3 \<le> length ?b" "?n \<noteq> 0" "?n \<le> 4096" "2 + unat ?n \<le> length ?b"
    and f: "f = \<lparr>streamId = ?b ! 2, payload = drop 3 (take (2 + unat ?n) ?b)\<rparr>"
    and d': "ipa_buf d' = drop (2 + unat ?n) ?b"
    by (auto simp: ipa_next_eq Let_def wire_consts split: if_splits)
  have pos: "1 \<le> unat ?n" "unat ?n \<le> 4096"
    using len(2,3) by (simp_all add: word_le_nat_alt Suc_le_eq unat_gt_0)
  have pl: "length (payload f) + 1 = unat ?n" using f len pos by simp
  then have n: "of_nat (length (payload f) + 1) = ?n" by (simp only: pl) simp
  obtain x y z zs where b: "?b = x # y # z # zs"
    using len(1) by (auto simp: numeral_3_eq_3 Suc_le_length_iff)
  have n': "of_nat (length (payload f) + 1) = (push_bit 8 (ucast x) OR ucast y :: u16)"
    using n b by (simp only: nth_Cons_0 One_nat_def nth_Cons_Suc)
  have "\<not> length (payload f) > 0xFFFF" "streamId f = z" using pl pos b f by simp_all
  then have "ipa_encode (streamId f) (payload f) = Inr ([x, y, z] @ payload f)"
    by (simp only: ipa_encode_def Let_def n' be16_split if_False)
  moreover have "?b = ([x, y, z] @ payload f) @ ipa_buf d'"
    using b f d' pos
    by (cases "unat (push_bit 8 (ucast x) OR ucast y :: u16)") (simp_all add: numeral_3_eq_3)
  ultimately show ?thesis using pl pos by auto
qed

text \<open>
  The guard of the encoder is wider than what a decoder accepts.  A payload of 4096 to 65535
  octets is encoded without an exception, but the decoder rejects the resulting frame: below 65535
  octets as oversized, and at exactly 65535 octets because the 16-bit length \<open>size + 1\<close> wraps to
  zero.
\<close>

lemma ipa_encode_guard_too_wide:
  assumes "4096 \<le> length pl" and "length pl \<le> 65535"
  shows "\<exists>w. ipa_encode sid pl = Inr w \<and>
    fst (ipa_next (ipa_feed ipa_new w)) =
      (if length pl = 65535 then Inl (runtime_error ''IPA: zero-length wire frame'')
       else Inl (runtime_error ''IPA: oversized frame (possible DoS)''))"
proof -
  let ?n = "of_nat (length pl + 1) :: u16"
  have "unat ?n = (length pl + 1) mod 65536" by (simp only: unat_of_nat) simp
  then have "length pl = 65535 \<Longrightarrow> ?n = 0" "length pl \<noteq> 65535 \<Longrightarrow> ?n \<noteq> 0 \<and> ?n > 4096"
    using assms by (auto simp: word_unat_eq_iff word_less_nat_alt simp del: of_nat_add)
  then show ?thesis
    using assms by (simp add: ipa_encode_def ipa_next_eq ipa_feed_def ipa_new_def Let_def wire_consts
        ipa_wireLen del: of_nat_add of_nat_Suc)
qed

text \<open>
  C37: A zero length field wedges the decoder: the exception leaves the buffer as it is, so the same
  exception is thrown again by every later call, whatever further bytes are fed.
\<close>

theorem ipa_zero_length_wedges:
  assumes "ipa_next d = (Inl (runtime_error ''IPA: zero-length wire frame''), d')"
  shows "d' = d \<and> ipa_next (ipa_feed d' extra) =
    (Inl (runtime_error ''IPA: zero-length wire frame''), ipa_feed d' extra)"
  using assms
  by (auto simp: ipa_next_eq ipa_feed_def Let_def wire_consts nth_append split: if_splits)

theorem ipa_zero_length_wedges_witness:
  "ipa_next (ipa_feed \<lparr>ipa_buf = [0, 0, 0xEE]\<rparr> [1, 2]) =
     (Inl (runtime_error ''IPA: zero-length wire frame''), \<lparr>ipa_buf = [0, 0, 0xEE, 1, 2]\<rparr>)"
proof -
  have h: "ipa_next \<lparr>ipa_buf = [0, 0, 0xEE]\<rparr> =
      (Inl (runtime_error ''IPA: zero-length wire frame''), \<lparr>ipa_buf = [0, 0, 0xEE]\<rparr>)"
    by code_simp
  show ?thesis using ipa_zero_length_wedges [OF h, of "[1, 2]"] by (simp add: ipa_feed_def)
qed

end
