(* ===== verification/WriteQueue.thy ===== *)
theory WriteQueue
  imports Prelude
begin

text \<open>
  The write queue of a connection.  \<open>IpaSession\<close> and \<open>MapTransport\<close> both keep a \<open>std::deque<Bytes>\<close> and
  a flag \<open>writing_\<close> so that at most one \<open>async_write\<close> is outstanding: \<open>enqueue\<close> appends a buffer and
  starts a write unless one is running, and the completion handler removes the written buffer and
  starts the next.  The locale \<open>write_queue\<close> states this contract; its lemmas show that it implements
  a FIFO channel on top of \<open>async_write\<close>, which permits only one operation at a time.
\<close>

text \<open>\<open>std::deque::pop_front\<close> is undefined on an empty deque.\<close>

definition pop_front :: "'a list \<Rightarrow> 'a list result" where
  "pop_front q = (case q of [] \<Rightarrow> Inl (undefined_behaviour ''pop_front on an empty deque'') | x # xs \<Rightarrow> Inr xs)"

lemma pop_front_simps [simp]:
  "pop_front (x # xs) = Inr xs"
  "pop_front [] = Inl (undefined_behaviour ''pop_front on an empty deque'')"
  by (simp_all add: pop_front_def)

text \<open>What happens to a queue: a buffer is enqueued, or the outstanding write completes.\<close>

datatype wq_op = Enqueue bytes | WriteDone

locale write_queue =
  fixes queue :: "'s \<Rightarrow> bytes list"
    and writing :: "'s \<Rightarrow> bool"
    and enqueue :: "bytes \<Rightarrow> 's \<Rightarrow> bytes list \<times> 's"
    and written :: "'s \<Rightarrow> (bytes list \<times> 's) result"
  assumes enqueue_idle: "\<not> writing s \<Longrightarrow> queue s = [] \<Longrightarrow>
        \<exists>s'. enqueue b s = ([b], s') \<and> queue s' = [b] \<and> writing s'"
    and enqueue_busy: "writing s \<Longrightarrow> \<exists>s'. enqueue b s = ([], s') \<and> queue s' = queue s @ [b] \<and> writing s'"
    and written_next: "queue s = b # bs \<Longrightarrow>
        \<exists>s'. written s = Inr (take 1 bs, s') \<and> queue s' = bs \<and> writing s' = (bs \<noteq> [])"
begin

text \<open>
  The connection with its environment: the state, the buffers handed to \<open>async_write\<close> that have not
  completed, and the buffers on the wire.
\<close>

fun wq_step :: "wq_op \<Rightarrow> 's \<times> bytes list \<times> bytes list \<Rightarrow> ('s \<times> bytes list \<times> bytes list) result" where
  "wq_step (Enqueue b) (s, outstanding, wire) = (case enqueue b s of (w, s') \<Rightarrow> Inr (s', outstanding @ w, wire))"
| "wq_step WriteDone (s, [], wire) = Inr (s, [], wire)"
| "wq_step WriteDone (s, b # bs, wire) = rbind (written s) (\<lambda>(w, s'). Inr (s', bs @ w, wire @ [b]))"

text \<open>At most one write is outstanding, and it is the head of the queue.\<close>

definition wq_inv :: "'s \<times> bytes list \<times> bytes list \<Rightarrow> bool" where
  "wq_inv c \<longleftrightarrow> (case c of (s, outstanding, wire) \<Rightarrow> writing s = (queue s \<noteq> []) \<and> outstanding = take 1 (queue s))"

text \<open>The abstract channel: what was accepted and has not been delivered yet, and what was delivered.\<close>

definition wq_abs :: "'s \<times> bytes list \<times> bytes list \<Rightarrow> bytes list \<times> bytes list" where
  "wq_abs c = (case c of (s, outstanding, wire) \<Rightarrow> (queue s, wire))"

fun fifo :: "wq_op \<Rightarrow> bytes list \<times> bytes list \<Rightarrow> bytes list \<times> bytes list" where
  "fifo (Enqueue b) (q, w) = (q @ [b], w)"
| "fifo WriteDone (q, w) = (drop 1 q, w @ take 1 q)"

lemma wq_step_refines:
  assumes "wq_inv c"
  shows "\<exists>c'. wq_step op c = Inr c' \<and> wq_inv c' \<and> wq_abs c' = fifo op (wq_abs c)"
proof -
  obtain s out wire where c: "c = (s, out, wire)" by (cases c)
  have inv: "writing s = (queue s \<noteq> [])" "out = take 1 (queue s)" using assms by (simp_all add: c wq_inv_def)
  show ?thesis
  proof (cases op)
    case (Enqueue b)
    show ?thesis
    proof (cases "writing s")
      case True
      then obtain s' where "enqueue b s = ([], s')" "queue s' = queue s @ [b]" "writing s'"
        using enqueue_busy [of s b] by blast
      then show ?thesis using Enqueue True inv by (cases "queue s") (simp_all add: c wq_inv_def wq_abs_def)
    next
      case False
      then obtain s' where "enqueue b s = ([b], s')" "queue s' = [b]" "writing s'"
        using enqueue_idle [of s b] inv by auto
      then show ?thesis using Enqueue False inv by (simp add: c wq_inv_def wq_abs_def)
    qed
  next
    case WriteDone
    show ?thesis
    proof (cases "queue s")
      case Nil
      then show ?thesis using WriteDone inv by (simp add: c wq_inv_def wq_abs_def)
    next
      case (Cons b bs)
      obtain s' where s': "written s = Inr (take 1 bs, s')" "queue s' = bs" "writing s' = (bs \<noteq> [])"
        using written_next [OF Cons] by blast
      have "out = [b]" using inv(2) Cons by simp
      then have "wq_step op c = Inr (s', take 1 bs, wire @ [b])" using WriteDone s'(1) by (simp add: c)
      then show ?thesis using WriteDone s'(2,3) Cons by (simp add: c wq_inv_def wq_abs_def)
    qed
  qed
qed

text \<open>
  A whole run: no step is undefined, at most one write is ever outstanding, and what has been
  delivered, followed by what is queued, is what was enqueued, in order.
\<close>

lemma wq_run:
  assumes "wq_inv c"
  shows "\<exists>c'. foldM wq_step ops c = Inr c' \<and> wq_inv c' \<and> wq_abs c' = fold fifo ops (wq_abs c)"
  using assms
proof (induction ops arbitrary: c)
  case (Cons op ops)
  then show ?case using wq_step_refines [OF Cons.prems, of op] by force
qed simp

lemma fifo_history: "fold fifo ops (q, w) = (q', w') \<Longrightarrow> w' @ q' = w @ q @ [b. Enqueue b \<leftarrow> ops]"
proof (induction ops arbitrary: q w)
  case (Cons op ops)
  show ?case
  proof (cases op)
    case (Enqueue b)
    then show ?thesis using Cons.IH [of "q @ [b]" w] Cons.prems by simp
  next
    case WriteDone
    have "take 1 q @ drop 1 q @ xs = q @ xs" for xs by (metis append_assoc append_take_drop_id)
    then show ?thesis using WriteDone Cons.IH [of "drop 1 q" "w @ take 1 q"] Cons.prems by simp
  qed
qed simp

end

end
