(* ===== verification/IpaSession.thy ===== *)
theory IpaSession
  imports IpaCodec WriteQueue
begin

text \<open>
  \<open>src/transport/IpaSession.hpp\<close> and \<open>IpaSession.cpp\<close>: one TCP connection of an SGSN, with the CCM
  handshake, the read loop and the write queue.  The handlers of the asynchronous operations are
  functions on the session that return what they do to the outside in order: operations started on
  the socket and callbacks invoked.  The callbacks belong to the server and do not touch the session,
  so that collecting them does not change their meaning.  An exception that leaves a handler is the
  result \<open>Inl\<close>; it leaves \<open>io_context::run\<close> and ends the program.
\<close>

section \<open>State\<close>

datatype SessionState = Handshaking | Ready | Stopped

record IpaSession =
  ss_decoder :: IpaDecoder
  ss_state :: SessionState
  ss_writeQueue :: "bytes list"
  ss_writing :: bool

datatype SessionAct =
    AsyncWrite bytes
  | AsyncRead
  | CloseSocket
  | OnReady
  | OnGsup bytes
  | OnDisconnect

definition ss_new :: IpaSession where
  "ss_new = \<lparr>ss_decoder = ipa_new, ss_state = Handshaking, ss_writeQueue = [], ss_writing = False\<rparr>"

definition ss_isReady :: "IpaSession \<Rightarrow> bool" where
  "ss_isReady s \<longleftrightarrow> ss_state s = Ready"

section \<open>Sending\<close>

text \<open>\<open>doWrite\<close>: the buffers handed to \<open>async_write\<close>, none or one.\<close>

definition ss_doWrite :: "IpaSession \<Rightarrow> bytes list \<times> IpaSession" where
  "ss_doWrite s =
     (if ss_writeQueue s = [] then ([], s\<lparr>ss_writing := False\<rparr>)
      else ([hd (ss_writeQueue s)], s\<lparr>ss_writing := True\<rparr>))"

definition ss_enqueue :: "bytes \<Rightarrow> IpaSession \<Rightarrow> bytes list \<times> IpaSession" where
  "ss_enqueue ipaFrame s =
     (let s1 = s\<lparr>ss_writeQueue := ss_writeQueue s @ [ipaFrame]\<rparr>
      in if \<not> ss_writing s1 then ss_doWrite s1 else ([], s1))"

text \<open>The completion handler of \<open>async_write\<close>: without an error, and in general.\<close>

definition ss_written :: "IpaSession \<Rightarrow> (bytes list \<times> IpaSession) result" where
  "ss_written s = rbind (pop_front (ss_writeQueue s)) (\<lambda>q. Inr (ss_doWrite (s\<lparr>ss_writeQueue := q\<rparr>)))"

definition ss_onWrite :: "bool \<Rightarrow> IpaSession \<Rightarrow> (SessionAct list \<times> IpaSession) result" where
  "ss_onWrite ec s =
     (if \<not> ec then rbind (ss_written s) (\<lambda>(ws, s'). Inr (map AsyncWrite ws, s'))
      else if ss_state s \<noteq> Stopped then Inr ([OnDisconnect], s\<lparr>ss_state := Stopped\<rparr>)
      else Inr ([], s))"

text \<open>\<open>enqueue\<close> as a handler, and the frame \<open>sendGsup\<close> posts.\<close>

definition ss_send :: "bytes \<Rightarrow> IpaSession \<Rightarrow> (SessionAct list \<times> IpaSession) result" where
  "ss_send frame s = (case ss_enqueue frame s of (ws, s') \<Rightarrow> Inr (map AsyncWrite ws, s'))"

definition ss_sendGsup :: "bytes \<Rightarrow> bytes result" where
  "ss_sendGsup gsupPayload = ipa_encode kStreamGsup gsupPayload"

definition sendCcmIdGet :: "IpaSession \<Rightarrow> (SessionAct list \<times> IpaSession) result" where
  "sendCcmIdGet s = rbind (ipa_encode kStreamCcm [kCcmIdReq, 0x01, 0x07]) (\<lambda>f. ss_send f s)"

definition sendCcmIdAck :: "IpaSession \<Rightarrow> (SessionAct list \<times> IpaSession) result" where
  "sendCcmIdAck s = rbind (ipa_encode kStreamCcm [kCcmIdAck]) (\<lambda>f. ss_send f s)"

definition sendCcmPong :: "IpaSession \<Rightarrow> (SessionAct list \<times> IpaSession) result" where
  "sendCcmPong s = rbind (ipa_encode kStreamCcm [kCcmPong]) (\<lambda>f. ss_send f s)"

section \<open>Receiving\<close>

definition handleCcm :: "bytes \<Rightarrow> IpaSession \<Rightarrow> (SessionAct list \<times> IpaSession) result" where
  "handleCcm pl s =
     (if pl = [] then Inr ([], s)
      else rbind (vec_at pl 0) (\<lambda>t.
        if t = kCcmIdResp then and_then (sendCcmIdAck s) (\<lambda>s. Inr ([OnReady], s\<lparr>ss_state := Ready\<rparr>))
        else if t = kCcmPing then sendCcmPong s
        else Inr ([], s)))"

lemma handleCcm_eq:
  "handleCcm pl s =
     (if pl = [] then Inr ([], s)
      else if pl ! 0 = kCcmIdResp then and_then (sendCcmIdAck s) (\<lambda>s. Inr ([OnReady], s\<lparr>ss_state := Ready\<rparr>))
      else if pl ! 0 = kCcmPing then sendCcmPong s
      else Inr ([], s))"
  by (simp add: handleCcm_def)

definition processFrame :: "IpaFrame \<Rightarrow> IpaSession \<Rightarrow> (SessionAct list \<times> IpaSession) result" where
  "processFrame frame s =
     (if streamId frame = kStreamCcm then handleCcm (payload frame) s
      else if streamId frame = kStreamGsup \<and> ss_state s = Ready then Inr ([OnGsup (payload frame)], s)
      else Inr ([], s))"

lemma ss_send_decoder: "ss_send f s = Inr (acts, s') \<Longrightarrow> ss_decoder s' = ss_decoder s"
  by (auto simp: ss_send_def ss_enqueue_def ss_doWrite_def Let_def split: prod.splits if_splits)

lemma processFrame_decoder: "processFrame f s = Inr (acts, s') \<Longrightarrow> ss_decoder s' = ss_decoder s"
  by (auto simp: processFrame_def handleCcm_eq sendCcmIdAck_def sendCcmPong_def rbind_Inr_iff and_then_Inr_iff
      dest: ss_send_decoder split: if_splits)

text \<open>\<open>while (auto frame = decoder_.next()) processFrame(*frame)\<close>\<close>

function ss_readLoop :: "IpaSession \<Rightarrow> (SessionAct list \<times> IpaSession) result" where
  "ss_readLoop s =
     (case ipa_next (ss_decoder s) of
        (Inl e, _) \<Rightarrow> Inl e
      | (Inr None, d) \<Rightarrow> Inr ([], s\<lparr>ss_decoder := d\<rparr>)
      | (Inr (Some frame), d) \<Rightarrow> and_then (processFrame frame (s\<lparr>ss_decoder := d\<rparr>)) ss_readLoop)"
  by pat_completeness auto
termination
  by (relation "measure (\<lambda>s. length (ipa_buf (ss_decoder s)))")
    (auto dest!: processFrame_decoder ipa_next_shrinks [OF sym])

declare ss_readLoop.simps [simp del]

definition ss_onRead :: "bool \<Rightarrow> bytes \<Rightarrow> IpaSession \<Rightarrow> (SessionAct list \<times> IpaSession) result" where
  "ss_onRead ec data s =
     (if ec then
        (if ss_state s \<noteq> Stopped then Inr ([OnDisconnect], s\<lparr>ss_state := Stopped\<rparr>) else Inr ([], s))
      else
        and_then (ss_readLoop (s\<lparr>ss_decoder := ipa_feed (ss_decoder s) data\<rparr>)) (\<lambda>s.
        Inr (if ss_state s \<noteq> Stopped then [AsyncRead] else [], s)))"

section \<open>Start and stop\<close>

definition ss_start :: "IpaSession \<Rightarrow> (SessionAct list \<times> IpaSession) result" where
  "ss_start s = and_then (sendCcmIdGet s) (\<lambda>s. Inr ([AsyncRead], s))"

definition ss_stop :: "IpaSession \<Rightarrow> SessionAct list \<times> IpaSession" where
  "ss_stop s = (if ss_state s = Stopped then ([], s) else ([CloseSocket], s\<lparr>ss_state := Stopped\<rparr>))"

section \<open>The write queue of a session\<close>

interpretation ss: write_queue ss_writeQueue ss_writing ss_enqueue ss_written
  by unfold_locales
    (auto simp: ss_enqueue_def ss_doWrite_def ss_written_def Let_def hd_append take_Suc split: if_splits)

definition writes_of :: "SessionAct list \<Rightarrow> bytes list" where
  "writes_of acts = [b. AsyncWrite b \<leftarrow> acts]"

definition gsups_of :: "SessionAct list \<Rightarrow> bytes list" where
  "gsups_of acts = [b. OnGsup b \<leftarrow> acts]"

lemma acts_simps [simp]:
  "writes_of [] = []" "writes_of (a @ b) = writes_of a @ writes_of b" "writes_of (map AsyncWrite ws) = ws"
  "writes_of [OnReady] = []" "writes_of [OnGsup p] = []" "writes_of [OnDisconnect] = []" "writes_of [AsyncRead] = []"
  "gsups_of [] = []" "gsups_of (a @ b) = gsups_of a @ gsups_of b" "gsups_of (map AsyncWrite ws) = []"
  "gsups_of [OnReady] = []" "gsups_of [OnGsup p] = [p]" "gsups_of [OnDisconnect] = []" "gsups_of [AsyncRead] = []"
  by (induction ws) (simp_all add: writes_of_def gsups_of_def)

text \<open>The invariant of the queue looks at the queue and the flag only.\<close>

lemma ss_inv_cong:
  "ss_writeQueue s' = ss_writeQueue s \<Longrightarrow> ss_writing s' = ss_writing s \<Longrightarrow> ss.wq_inv (s', out, wire) = ss.wq_inv (s, out, wire)"
  by (simp add: ss.wq_inv_def)

text \<open>What a handler that enqueues the frames \<open>rs\<close> does to the session and the outstanding writes.\<close>

definition queues :: "bytes list \<Rightarrow> (SessionAct list \<times> IpaSession) result \<Rightarrow> IpaSession \<Rightarrow> SessionAct list \<Rightarrow> IpaSession \<Rightarrow> bool" where
  "queues rs r s acts s' \<longleftrightarrow> r = Inr (acts, s') \<and> ss_writeQueue s' = ss_writeQueue s @ rs \<and>
     (\<forall>out wire. ss.wq_inv (s, out, wire) \<longrightarrow> ss.wq_inv (s', out @ writes_of acts, wire)) \<and>
     (ss_writing s \<longrightarrow> ss_writing s' \<and> writes_of acts = [])"

lemma queues_nil: "queues [] (Inr ([], s)) s [] s"
  by (simp add: queues_def)

lemma queues_trans:
  assumes "queues rs r s acts s1" and "queues rs' (f s1) s1 acts' s'"
  shows "queues (rs @ rs') (and_then r f) s (acts @ acts') s'"
  using assms unfolding queues_def by (simp flip: append_assoc)

lemma queues_decoder [simp]: "queues rs r (s\<lparr>ss_decoder := d\<rparr>) acts s' = queues rs r s acts s'"
  by (simp add: queues_def ss.wq_inv_def)

lemma queues_send:
  "\<exists>acts s'. queues [f] (ss_send f s) s acts s' \<and> ss_state s' = ss_state s \<and> gsups_of acts = []"
proof -
  obtain ws s' where e: "ss_enqueue f s = (ws, s')" by force
  have "ss_writeQueue s' = ss_writeQueue s @ [f]" "ss_state s' = ss_state s"
    using e by (auto simp: ss_enqueue_def ss_doWrite_def Let_def split: if_splits)
  moreover have "ss.wq_inv (s', out @ ws, wire)" if "ss.wq_inv (s, out, wire)" for out wire
    using ss.wq_step_refines [OF that, of "Enqueue f"] e by simp
  moreover have "ss_writing s' \<and> ws = []" if "ss_writing s" using ss.enqueue_busy [OF that, of f] e by simp
  ultimately show ?thesis by (auto simp: queues_def ss_send_def e intro!: exI [of _ "map AsyncWrite ws"])
qed

section \<open>What a session does with the frames it receives\<close>

text \<open>
  The reference: an ID response is acknowledged and makes the session ready, a ping is answered, and
  a GSUP frame is passed on when the session is ready.
\<close>

definition ccm_wire :: "byte \<Rightarrow> bytes" where
  "ccm_wire t = ipa_wire \<lparr>streamId = kStreamCcm, payload = [t]\<rparr>"

definition is_ccm :: "byte \<Rightarrow> IpaFrame \<Rightarrow> bool" where
  "is_ccm t f \<longleftrightarrow> streamId f = kStreamCcm \<and> take 1 (payload f) = [t]"

definition frame_replies :: "IpaFrame \<Rightarrow> bytes list" where
  "frame_replies f = (if is_ccm kCcmIdResp f then [ccm_wire kCcmIdAck] else if is_ccm kCcmPing f then [ccm_wire kCcmPong] else [])"

definition frame_state :: "SessionState \<Rightarrow> IpaFrame \<Rightarrow> SessionState" where
  "frame_state st f = (if is_ccm kCcmIdResp f then Ready else st)"

fun session_gsup :: "SessionState \<Rightarrow> IpaFrame list \<Rightarrow> bytes list" where
  "session_gsup st [] = []"
| "session_gsup st (f # fs) =
     (if streamId f = kStreamGsup \<and> st = Ready then [payload f] else []) @ session_gsup (frame_state st f) fs"

lemma processFrame_eq:
  "is_ccm kCcmIdResp f \<Longrightarrow> processFrame f s =
     and_then (ss_send (ccm_wire kCcmIdAck) s) (\<lambda>s. Inr ([OnReady], s\<lparr>ss_state := Ready\<rparr>))"
  "is_ccm kCcmPing f \<Longrightarrow> processFrame f s = ss_send (ccm_wire kCcmPong) s"
  "\<not> is_ccm kCcmIdResp f \<Longrightarrow> \<not> is_ccm kCcmPing f \<Longrightarrow>
     processFrame f s = Inr (map OnGsup (session_gsup (ss_state s) [f]), s)"
proof -
  have enc: "ipa_encode kStreamCcm [t] = Inr (ccm_wire t)" for t
    unfolding ccm_wire_def by (rule ipa_encode_wire) simp
  have neq: "kCcmPing \<noteq> kCcmIdResp" "kStreamGsup \<noteq> kStreamCcm" by (simp_all add: wire_consts)
  show "is_ccm kCcmIdResp f \<Longrightarrow> processFrame f s =
     and_then (ss_send (ccm_wire kCcmIdAck) s) (\<lambda>s. Inr ([OnReady], s\<lparr>ss_state := Ready\<rparr>))"
    "is_ccm kCcmPing f \<Longrightarrow> processFrame f s = ss_send (ccm_wire kCcmPong) s"
    "\<not> is_ccm kCcmIdResp f \<Longrightarrow> \<not> is_ccm kCcmPing f \<Longrightarrow>
       processFrame f s = Inr (map OnGsup (session_gsup (ss_state s) [f]), s)"
    using neq by (cases "payload f"; simp add: is_ccm_def processFrame_def handleCcm_eq sendCcmIdAck_def
        sendCcmPong_def enc)+
qed

lemma gsup_not_ccm: "streamId f = kStreamGsup \<Longrightarrow> \<not> is_ccm t f"
  by (simp add: is_ccm_def wire_consts)

lemma processFrame_queues:
  "\<exists>acts s'. queues (frame_replies f) (processFrame f s) s acts s' \<and> ss_state s' = frame_state (ss_state s) f \<and>
     gsups_of acts = session_gsup (ss_state s) [f]"
proof -
  consider (resp) "is_ccm kCcmIdResp f" | (ping) "\<not> is_ccm kCcmIdResp f" "is_ccm kCcmPing f"
    | (other) "\<not> is_ccm kCcmIdResp f" "\<not> is_ccm kCcmPing f" by blast
  then show ?thesis
  proof cases
    case resp
    obtain acts s1 where "queues [ccm_wire kCcmIdAck] (ss_send (ccm_wire kCcmIdAck) s) s acts s1" "gsups_of acts = []"
      using queues_send by blast
    moreover have "queues [] (Inr ([OnReady], s1\<lparr>ss_state := Ready\<rparr>)) s1 [OnReady] (s1\<lparr>ss_state := Ready\<rparr>)"
      by (simp add: queues_def ss.wq_inv_def)
    ultimately show ?thesis
      using queues_trans [of "[ccm_wire kCcmIdAck]" _ s acts s1 "[]"] resp gsup_not_ccm [of f kCcmIdResp]
      by (intro exI [of _ "acts @ [OnReady]"] exI [of _ "s1\<lparr>ss_state := Ready\<rparr>"])
        (auto simp: frame_replies_def frame_state_def processFrame_eq(1))
  next
    case ping
    then show ?thesis
      using queues_send [of "ccm_wire kCcmPong" s] gsup_not_ccm [of f kCcmPing]
      by (auto simp: frame_replies_def frame_state_def processFrame_eq(2))
  next
    case other
    moreover have "gsups_of (map OnGsup ps) = ps" "writes_of (map OnGsup ps) = []" for ps
      by (induction ps) (simp_all add: gsups_of_def writes_of_def)
    ultimately show ?thesis
      by (intro exI [of _ "map OnGsup (session_gsup (ss_state s) [f])"] exI [of _ s])
        (simp add: queues_def frame_replies_def frame_state_def processFrame_eq(3))
  qed
qed

text \<open>
  The read loop hands the frames the decoder drains to \<open>processFrame\<close>, one after the other; an
  exception of the decoder leaves the handler.
\<close>

lemma readLoop_throws: "ipa_drain (ss_decoder s) = (fs, Some e, d') \<Longrightarrow> ss_readLoop s = Inl e"
proof (induction s arbitrary: fs rule: ss_readLoop.induct)
  case (1 s)
  obtain r d where n: "ipa_next (ss_decoder s) = (r, d)" by force
  show ?case
  proof (cases r)
    case (Inl e')
    then show ?thesis using 1(2) n by (simp add: ss_readLoop.simps [of s] ipa_drain.simps [of "ss_decoder s"])
  next
    case (Inr v)
    obtain f where v: "v = Some f" using 1(2) n Inr by (cases v) (simp_all add: ipa_drain.simps [of "ss_decoder s"])
    obtain acts s1 where p: "processFrame f (s\<lparr>ss_decoder := d\<rparr>) = Inr (acts, s1)"
      using processFrame_queues [of f "s\<lparr>ss_decoder := d\<rparr>"] by (auto simp: queues_def)
    moreover have "ss_decoder s1 = d" using processFrame_decoder [OF p] by simp
    ultimately show ?thesis
      using 1 n Inr v by (auto simp: ss_readLoop.simps [of s] ipa_drain.simps [of "ss_decoder s"] split: prod.splits)
  qed
qed

lemma readLoop_frames:
  assumes "ipa_drain (ss_decoder s) = (fs, None, d')"
  shows "\<exists>acts s'. queues (concat (map frame_replies fs)) (ss_readLoop s) s acts s' \<and>
     ss_state s' = foldl frame_state (ss_state s) fs \<and> ss_decoder s' = d' \<and> gsups_of acts = session_gsup (ss_state s) fs"
  using assms
proof (induction fs arbitrary: s)
  case Nil
  then have "ipa_next (ss_decoder s) = (Inr None, d')"
    by (auto simp: ipa_drain.simps [of "ss_decoder s"] split: prod.splits sum.splits option.splits)
  then show ?case
    by (intro exI [of _ "[]"] exI [of _ "s\<lparr>ss_decoder := d'\<rparr>"])
      (simp add: ss_readLoop.simps [of s] queues_def ss.wq_inv_def)
next
  case (Cons f fs)
  then obtain d where n: "ipa_next (ss_decoder s) = (Inr (Some f), d)" and d: "ipa_drain d = (fs, None, d')"
    by (auto simp: ipa_drain.simps [of "ss_decoder s"] split: prod.splits sum.splits option.splits)
  let ?s = "s\<lparr>ss_decoder := d\<rparr>"
  obtain acts s1 where p: "queues (frame_replies f) (processFrame f ?s) ?s acts s1"
    "ss_state s1 = frame_state (ss_state ?s) f" "gsups_of acts = session_gsup (ss_state ?s) [f]"
    using processFrame_queues by blast
  then have "ss_decoder s1 = d" using processFrame_decoder [of f ?s acts s1] by (simp add: queues_def)
  then obtain acts' s' where q: "queues (concat (map frame_replies fs)) (ss_readLoop s1) s1 acts' s'"
    "ss_state s' = foldl frame_state (ss_state s1) fs" "ss_decoder s' = d'" "gsups_of acts' = session_gsup (ss_state s1) fs"
    using Cons.IH [of s1] d by blast
  have "ss_readLoop s = and_then (processFrame f ?s) ss_readLoop" by (simp add: ss_readLoop.simps [of s] n)
  then have "queues (concat (map frame_replies (f # fs))) (ss_readLoop s) s (acts @ acts') s'"
    using queues_trans [where f = ss_readLoop, OF p(1) q(1)] by simp
  then show ?case using p q by (intro exI [of _ "acts @ acts'"] exI [of _ s']) simp
qed

section \<open>Reads in sequence\<close>

text \<open>The reads of a connection that complete without an error.\<close>

fun ss_reads :: "bytes list \<Rightarrow> IpaSession \<Rightarrow> (SessionAct list \<times> IpaSession) result" where
  "ss_reads [] s = Inr ([], s)"
| "ss_reads (c # cs) s = and_then (ss_onRead False c s) (ss_reads cs)"

lemma onRead_frames:
  assumes "ipa_drain (ipa_feed (ss_decoder s) data) = (fs, None, d')"
  shows "\<exists>acts s'. queues (concat (map frame_replies fs)) (ss_onRead False data s) s acts s' \<and>
     ss_state s' = foldl frame_state (ss_state s) fs \<and> ss_decoder s' = d' \<and> gsups_of acts = session_gsup (ss_state s) fs"
proof -
  let ?s = "s\<lparr>ss_decoder := ipa_feed (ss_decoder s) data\<rparr>"
  obtain acts s' where q: "queues (concat (map frame_replies fs)) (ss_readLoop ?s) ?s acts s'"
    "ss_state s' = foldl frame_state (ss_state ?s) fs" "ss_decoder s' = d'" "gsups_of acts = session_gsup (ss_state ?s) fs"
    using readLoop_frames [of ?s] assms by auto
  let ?r = "if ss_state s' \<noteq> Stopped then [AsyncRead] else []"
  have "ss_onRead False data s = Inr (acts @ ?r, s')"
    using q(1) by (simp add: ss_onRead_def queues_def)
  moreover have "queues (concat (map frame_replies fs)) (ss_readLoop ?s) s acts s'" using q(1) by simp
  ultimately have "queues (concat (map frame_replies fs)) (ss_onRead False data s) s (acts @ ?r) s'"
    by (simp add: queues_def)
  then show ?thesis using q by (intro exI [of _ "acts @ ?r"] exI [of _ s']) auto
qed

lemma session_gsup_append:
  "session_gsup st (fs @ gs) = session_gsup st fs @ session_gsup (foldl frame_state st fs) gs"
  by (induction fs arbitrary: st) simp_all

lemma reads_frames:
  assumes "receive ipa_feed ipa_drain (ss_decoder s) chunks = (fs, None, d')"
  shows "\<exists>acts s'. queues (concat (map frame_replies fs)) (ss_reads chunks s) s acts s' \<and>
     ss_state s' = foldl frame_state (ss_state s) fs \<and> ss_decoder s' = d' \<and> gsups_of acts = session_gsup (ss_state s) fs"
  using assms
proof (induction chunks arbitrary: s fs)
  case Nil
  then show ?case using queues_nil [of s] by (intro exI [of _ "[]"] exI [of _ s]) simp
next
  case (Cons c cs)
  obtain fs1 d1 fs2 where r: "ipa_drain (ipa_feed (ss_decoder s) c) = (fs1, None, d1)"
    "receive ipa_feed ipa_drain d1 cs = (fs2, None, d')" "fs = fs1 @ fs2"
    using Cons.prems by (auto split: prod.splits option.splits)
  obtain acts s1 where p: "queues (concat (map frame_replies fs1)) (ss_onRead False c s) s acts s1"
    "ss_state s1 = foldl frame_state (ss_state s) fs1" "ss_decoder s1 = d1" "gsups_of acts = session_gsup (ss_state s) fs1"
    using onRead_frames [OF r(1)] by blast
  obtain acts' s' where q: "queues (concat (map frame_replies fs2)) (ss_reads cs s1) s1 acts' s'"
    "ss_state s' = foldl frame_state (ss_state s1) fs2" "ss_decoder s' = d'" "gsups_of acts' = session_gsup (ss_state s1) fs2"
    using Cons.IH [of s1] p(3) r(2) by blast
  have "queues (concat (map frame_replies fs)) (ss_reads (c # cs) s) s (acts @ acts') s'"
    using queues_trans [where f = "ss_reads cs", OF p(1) q(1)] r(3) by simp
  then show ?case using p q r(3) by (intro exI [of _ "acts @ acts'"] exI [of _ s']) (simp add: session_gsup_append)
qed

section \<open>Interleavings\<close>

text \<open>
  A session together with the event loop: the frames \<open>sendGsup\<close> has posted and the loop has not run
  yet, the buffers handed to \<open>async_write\<close>, and the frames on the wire.  Posted functions run in
  the order in which they were posted; completions of reads and writes, with or without an error,
  may come at any time, also after the session was stopped.
\<close>

record SessionSys =
  sy_session :: IpaSession
  sy_posted :: "bytes list"
  sy_out :: "bytes list"
  sy_wire :: "bytes list"

datatype SessionEvent =
    SendGsup bytes
  | RunPosted
  | WriteCompletes bool
  | ReadCompletes bool bytes
  | StopSession

fun session_event :: "SessionEvent \<Rightarrow> SessionSys \<Rightarrow> (SessionAct list \<times> SessionSys) result" where
  "session_event (SendGsup p) y = rbind (ss_sendGsup p) (\<lambda>f. Inr ([], y\<lparr>sy_posted := sy_posted y @ [f]\<rparr>))"
| "session_event RunPosted y =
     (case sy_posted y of [] \<Rightarrow> Inr ([], y)
      | f # fs \<Rightarrow> rbind (ss_send f (sy_session y)) (\<lambda>(acts, s).
          Inr (acts, y\<lparr>sy_session := s, sy_posted := fs, sy_out := sy_out y @ writes_of acts\<rparr>)))"
| "session_event (WriteCompletes ec) y =
     (case sy_out y of [] \<Rightarrow> Inr ([], y)
      | b # bs \<Rightarrow> rbind (ss_onWrite ec (sy_session y)) (\<lambda>(acts, s).
          Inr (acts, y\<lparr>sy_session := s, sy_out := bs @ writes_of acts,
                 sy_wire := (if ec then sy_wire y else sy_wire y @ [b])\<rparr>)))"
| "session_event (ReadCompletes ec data) y =
     rbind (ss_onRead ec data (sy_session y)) (\<lambda>(acts, s).
       Inr (acts, y\<lparr>sy_session := s, sy_out := sy_out y @ writes_of acts\<rparr>))"
| "session_event StopSession y = (case ss_stop (sy_session y) of (acts, s) \<Rightarrow> Inr (acts, y\<lparr>sy_session := s\<rparr>))"

inductive session_run :: "SessionSys \<Rightarrow> SessionEvent list \<Rightarrow> SessionSys \<Rightarrow> bool" where
  session_run_nil: "session_run y [] y"
| session_run_step: "session_run y evs y' \<Longrightarrow> session_event ev y' = Inr (acts, y'') \<Longrightarrow> session_run y (evs @ [ev]) y''"

definition session_start :: "SessionSys result" where
  "session_start = rbind (ss_start ss_new) (\<lambda>(acts, s).
     Inr \<lparr>sy_session = s, sy_posted = [], sy_out = writes_of acts, sy_wire = []\<rparr>)"

section \<open>The session as a channel\<close>

definition gsup_sends :: "SessionEvent list \<Rightarrow> bytes list" where
  "gsup_sends evs = [p. SendGsup p \<leftarrow> evs]"

definition gsup_frame :: "bytes \<Rightarrow> IpaFrame" where
  "gsup_frame p = \<lparr>streamId = kStreamGsup, payload = p\<rparr>"

definition gsup_payloads :: "IpaFrame list \<Rightarrow> bytes list" where
  "gsup_payloads fs = [payload f. f \<leftarrow> fs, streamId f = kStreamGsup]"

lemma gsup_payloads_simps [simp]:
  "gsup_payloads [] = []" "gsup_payloads (fs @ gs) = gsup_payloads fs @ gsup_payloads gs"
  "gsup_payloads [gsup_frame p] = [p]" "streamId (gsup_frame p) = kStreamGsup"
  by (simp_all add: gsup_payloads_def gsup_frame_def)

text \<open>
  The invariant: what is on the wire and in the queue are frames, control frames being short; their
  GSUP payloads followed by the posted ones are the payloads sent.  At most one write is outstanding,
  the head of the queue; after a failed write none ever is again.
\<close>

definition channel :: "bytes list \<Rightarrow> SessionSys \<Rightarrow> IpaFrame list \<Rightarrow> bytes list \<Rightarrow> bool" where
  "channel ps y fs qs \<longleftrightarrow>
     sy_wire y @ ss_writeQueue (sy_session y) = map ipa_wire fs \<and> sy_posted y = map (ipa_wire \<circ> gsup_frame) qs \<and>
     gsup_payloads fs @ qs = ps \<and> (\<forall>f \<in> set fs. streamId f = kStreamGsup \<or> length (payload f) \<le> 3)"

definition sys_inv :: "bytes list \<Rightarrow> SessionSys \<Rightarrow> bool" where
  "sys_inv ps y \<longleftrightarrow>
     (ss.wq_inv (sy_session y, sy_out y, sy_wire y) \<or> (ss_writing (sy_session y) \<and> sy_out y = [])) \<and>
     (\<exists>fs qs. channel ps y fs qs)"

lemma sys_inv_queues:
  assumes "sys_inv ps y" and q: "queues (map ipa_wire rs) r (sy_session y) acts s'" and rs: "\<forall>f \<in> set rs. length (payload f) \<le> 3 \<and> streamId f \<noteq> kStreamGsup"
  shows "sys_inv ps (y\<lparr>sy_session := s', sy_out := sy_out y @ writes_of acts\<rparr>)"
proof -
  obtain fs qs where "channel ps y fs qs" using assms(1) by (auto simp: sys_inv_def)
  moreover have "gsup_payloads rs = []" using rs by (induction rs) (simp_all add: gsup_payloads_def)
  ultimately have "channel ps (y\<lparr>sy_session := s', sy_out := sy_out y @ writes_of acts\<rparr>) (fs @ rs) qs"
    using q rs by (auto simp: channel_def queues_def)
  moreover have "ss.wq_inv (s', sy_out y @ writes_of acts, sy_wire y) \<or> (ss_writing s' \<and> sy_out y @ writes_of acts = [])"
    using assms(1) q by (auto simp: sys_inv_def queues_def)
  ultimately show ?thesis by (auto simp: sys_inv_def)
qed

lemma frame_replies_wire:
  "\<exists>rs. concat (map frame_replies fs) = map ipa_wire rs \<and> (\<forall>f \<in> set rs. length (payload f) \<le> 3 \<and> streamId f \<noteq> kStreamGsup)"
proof (induction fs)
  case (Cons f fs)
  then obtain rs where rs: "concat (map frame_replies fs) = map ipa_wire rs"
    "\<forall>f \<in> set rs. length (payload f) \<le> 3 \<and> streamId f \<noteq> kStreamGsup" by blast
  have "\<exists>r. frame_replies f = map ipa_wire r \<and> (\<forall>f \<in> set r. length (payload f) \<le> 3 \<and> streamId f \<noteq> kStreamGsup)"
  proof -
    have "length [t] \<le> 3" "kStreamCcm \<noteq> kStreamGsup" for t :: byte by (simp_all add: wire_consts)
    then show ?thesis
      by (cases "is_ccm kCcmIdResp f"; cases "is_ccm kCcmPing f")
        (force simp: frame_replies_def ccm_wire_def intro: exI [of _ "[\<lparr>streamId = kStreamCcm, payload = [t]\<rparr>]" for t])+
  qed
  then obtain r where "frame_replies f = map ipa_wire r" "\<forall>f \<in> set r. length (payload f) \<le> 3 \<and> streamId f \<noteq> kStreamGsup"
    by blast
  with rs show ?case by (intro exI [of _ "r @ rs"]) auto
qed simp

lemma onRead_ok:
  assumes "ss_onRead ec data s = Inr (acts, s')"
  shows "\<exists>rs. queues (map ipa_wire rs) (Inr (acts, s')) s acts s' \<and>
    (\<forall>f \<in> set rs. length (payload f) \<le> 3 \<and> streamId f \<noteq> kStreamGsup)"
proof (cases ec)
  case True
  then have "queues [] (Inr (acts, s')) s acts s'"
    using assms by (auto simp: ss_onRead_def queues_def ss.wq_inv_def split: if_splits)
  then show ?thesis by (intro exI [of _ "[]"]) simp
next
  case False
  obtain fs e d where d: "ipa_drain (ipa_feed (ss_decoder s) data) = (fs, e, d)" by (metis prod_cases3)
  have "e = None"
    using assms False readLoop_throws [of "s\<lparr>ss_decoder := ipa_feed (ss_decoder s) data\<rparr>" fs _ d] d
    by (cases e) (simp_all add: ss_onRead_def)
  then obtain acts2 s2 where q: "queues (concat (map frame_replies fs)) (ss_onRead False data s) s acts2 s2"
    using onRead_frames [of s data fs d] d by blast
  then have "acts2 = acts" "s2 = s'" using assms False by (simp_all add: queues_def)
  then show ?thesis using q assms False frame_replies_wire [of fs] by auto
qed

lemma sys_inv_send:
  assumes "sys_inv ps y" and ev: "session_event (SendGsup p) y = Inr (acts, y')"
  shows "sys_inv (ps @ [p]) y'"
proof -
  have "length p \<le> 0xFFFF" using ev by (auto simp: ss_sendGsup_def ipa_encode_def rbind_Inr_iff split: if_splits)
  then have y': "y' = y\<lparr>sy_posted := sy_posted y @ [ipa_wire (gsup_frame p)]\<rparr>"
    using ev by (simp add: ss_sendGsup_def ipa_encode_wire gsup_frame_def)
  obtain fs qs where "channel ps y fs qs" using assms(1) by (auto simp: sys_inv_def)
  then have "channel (ps @ [p]) y' fs (qs @ [p])" using y' by (simp add: channel_def)
  then show ?thesis using assms(1) y' by (auto simp: sys_inv_def)
qed

lemma sys_inv_posted:
  assumes "sys_inv ps y" and ev: "session_event RunPosted y = Inr (acts, y')"
  shows "sys_inv ps y'"
proof -
  obtain fs qs where ch: "channel ps y fs qs" using assms(1) by (auto simp: sys_inv_def)
  show ?thesis
  proof (cases qs)
    case Nil
    then show ?thesis using ch assms ev by (simp add: channel_def)
  next
    case (Cons p qs')
    let ?w = "ipa_wire (gsup_frame p)"
    have posted: "sy_posted y = ?w # map (ipa_wire \<circ> gsup_frame) qs'" using ch Cons by (simp add: channel_def)
    obtain acts2 s' where q: "queues [?w] (ss_send ?w (sy_session y)) (sy_session y) acts2 s'"
      using queues_send by blast
    let ?y = "y\<lparr>sy_session := s', sy_posted := map (ipa_wire \<circ> gsup_frame) qs', sy_out := sy_out y @ writes_of acts2\<rparr>"
    have y': "y' = ?y" using ev posted q by (auto simp: queues_def)
    have "channel ps ?y (fs @ [gsup_frame p]) qs'"
      using ch q Cons by (auto simp: channel_def queues_def)
    then show ?thesis using assms(1) q y' by (auto simp: sys_inv_def queues_def)
  qed
qed

lemma sys_inv_written:
  assumes "sys_inv ps y" and ev: "session_event (WriteCompletes ec) y = Inr (acts, y')" and out: "sy_out y = b # bs"
  shows "sys_inv ps y'"
proof -
  obtain fs qs where ch: "channel ps y fs qs" using assms(1) by (auto simp: sys_inv_def)
  have wq: "ss.wq_inv (sy_session y, b # bs, sy_wire y)" using assms(1) out by (simp add: sys_inv_def)
  then have hd: "bs = []" "\<exists>q. ss_writeQueue (sy_session y) = b # q" "ss_writing (sy_session y)"
    by (cases "ss_writeQueue (sy_session y)"; simp add: ss.wq_inv_def)+
  show ?thesis
  proof (cases ec)
    case True
    then obtain s' where r: "ss_onWrite True (sy_session y) = Inr (acts, s')"
      "y' = y\<lparr>sy_session := s', sy_out := writes_of acts\<rparr>"
      using ev out hd(1) by (auto simp: rbind_Inr_iff)
    then have "ss_writing s'" "ss_writeQueue s' = ss_writeQueue (sy_session y)" "writes_of acts = []"
      using hd(3) by (auto simp: ss_onWrite_def split: if_splits)
    then show ?thesis using r(2) ch by (auto simp: sys_inv_def channel_def)
  next
    case False
    obtain c where c: "ss.wq_step WriteDone (sy_session y, b # bs, sy_wire y) = Inr c" "ss.wq_inv c"
      "ss.wq_abs c = ss.fifo WriteDone (ss.wq_abs (sy_session y, b # bs, sy_wire y))"
      using ss.wq_step_refines [OF wq] by blast
    have "c = (sy_session y', sy_out y', sy_wire y')" "sy_posted y' = sy_posted y"
      using c(1) ev out False by (auto simp: ss_onWrite_def rbind_Inr_iff)
    then show ?thesis using c ch hd(2) by (auto simp: sys_inv_def channel_def ss.wq_abs_def)
  qed
qed

lemma sys_inv_stop:
  assumes "sys_inv ps y" and ev: "session_event StopSession y = Inr (acts, y')"
  shows "sys_inv ps y'"
proof -
  have y': "y' = y\<lparr>sy_session := snd (ss_stop (sy_session y))\<rparr>" using ev by (auto split: prod.splits)
  have "ss_writing (snd (ss_stop s)) = ss_writing s" "ss_writeQueue (snd (ss_stop s)) = ss_writeQueue s" for s
    by (simp_all add: ss_stop_def)
  then show ?thesis using assms(1) by (simp add: y' sys_inv_def channel_def ss.wq_inv_def)
qed

lemma sys_inv_event:
  assumes "sys_inv (gsup_sends evs) y" and ev: "session_event ev y = Inr (acts, y')"
  shows "sys_inv (gsup_sends (evs @ [ev])) y'"
proof (cases ev)
  case (SendGsup p)
  then show ?thesis using sys_inv_send assms by (simp add: gsup_sends_def)
next
  case RunPosted
  then show ?thesis using sys_inv_posted assms by (simp add: gsup_sends_def)
next
  case (WriteCompletes ec)
  then show ?thesis
    using sys_inv_written [OF assms(1)] assms by (cases "sy_out y") (auto simp: gsup_sends_def)
next
  case (ReadCompletes ec data)
  then obtain s' where r: "ss_onRead ec data (sy_session y) = Inr (acts, s')"
    "y' = y\<lparr>sy_session := s', sy_out := sy_out y @ writes_of acts\<rparr>" using ev by (auto simp: rbind_Inr_iff)
  then show ?thesis using onRead_ok [OF r(1)] sys_inv_queues [OF assms(1)] ReadCompletes by (auto simp: gsup_sends_def)
next
  case StopSession
  then show ?thesis using sys_inv_stop assms by (simp add: gsup_sends_def)
qed

lemma sys_inv_start: "session_start = Inr y \<Longrightarrow> sys_inv [] y"
proof -
  assume y: "session_start = Inr y"
  let ?f = "\<lparr>streamId = kStreamCcm, payload = [kCcmIdReq, 0x01, 0x07]\<rparr>"
  have "ss.wq_inv (ss_new, [], [])" by (simp add: ss.wq_inv_def ss_new_def)
  then have "sys_inv [] \<lparr>sy_session = ss_new, sy_posted = [], sy_out = [], sy_wire = []\<rparr>"
    by (auto simp: sys_inv_def channel_def ss_new_def)
  moreover obtain acts s where "queues (map ipa_wire [?f]) (ss_send (ipa_wire ?f) ss_new) ss_new acts s"
    using queues_send [of "ipa_wire ?f" ss_new] by auto
  ultimately have "sys_inv [] \<lparr>sy_session = s, sy_posted = [], sy_out = writes_of acts, sy_wire = []\<rparr>"
    using sys_inv_queues [of "[]" "\<lparr>sy_session = ss_new, sy_posted = [], sy_out = [], sy_wire = []\<rparr>" "[?f]" _ acts s]
    by (auto simp: wire_consts)
  moreover have "ipa_encode kStreamCcm [kCcmIdReq, 0x01, 0x07] = Inr (ipa_wire ?f)" by (rule ipa_encode_wire) simp
  ultimately show ?thesis
    using y \<open>queues _ _ _ acts s\<close> by (auto simp: session_start_def ss_start_def sendCcmIdGet_def queues_def)
qed

lemma sys_inv_run:
  assumes "session_run y0 evs y" and "session_start = Inr y0"
  shows "sys_inv (gsup_sends evs) y"
  using assms
proof (induction rule: session_run.induct)
  case (session_run_nil y)
  then show ?case using sys_inv_start by (simp add: gsup_sends_def)
next
  case session_run_step
  then show ?case using sys_inv_event by blast
qed

text \<open>Runs can be computed.\<close>

definition session_exec :: "SessionEvent list \<Rightarrow> SessionSys \<Rightarrow> SessionSys result" where
  "session_exec evs y = foldM (\<lambda>ev y. rbind (session_event ev y) (\<lambda>(_, y'). Inr y')) evs y"

lemma session_run_exec: "session_exec evs y = Inr y' \<Longrightarrow> session_run y evs y'"
proof (induction evs arbitrary: y' rule: rev_induct)
  case Nil
  then show ?case by (simp add: session_exec_def session_run_nil)
next
  case (snoc ev evs)
  then obtain y1 acts where "session_exec evs y = Inr y1" "session_event ev y1 = Inr (acts, y')"
    by (auto simp: session_exec_def foldM_append rbind_Inr_iff)
  then show ?case using snoc.IH session_run_step by blast
qed

lemma ipa_drain_throws: "ipa_drain d = (fs, Some e, d') \<Longrightarrow> is_std_exception e"
proof (induction d arbitrary: fs rule: ipa_drain.induct)
  case (1 d)
  obtain r d1 where n: "ipa_next d = (r, d1)" by force
  have "is_std_exception e'" if "r = Inl e'" for e'
    using n that by (auto simp: ipa_next_eq Let_def split: if_splits)
  then show ?case using 1 n by (cases r) (auto simp: ipa_drain.simps [of d] split: option.splits prod.splits)
qed

lemma no_ub_onRead: "no_ub (ss_onRead ec data s)"
proof (cases ec)
  case False
  obtain fs e d where d: "ipa_drain (ipa_feed (ss_decoder s) data) = (fs, e, d)" by (metis prod_cases3)
  show ?thesis
  proof (cases e)
    case None
    then show ?thesis using onRead_frames [of s data fs d] d False by (auto simp: queues_def)
  next
    case (Some exc)
    then show ?thesis
      using readLoop_throws [of "s\<lparr>ss_decoder := ipa_feed (ss_decoder s) data\<rparr>" fs exc d] ipa_drain_throws d False
      by (simp add: ss_onRead_def)
  qed
qed (simp add: ss_onRead_def)

section \<open>Properties\<close>

text \<open>
  C17: What a session does with its input.  Whatever frames of up to 4095 octets the SGSN sends and
  however TCP cuts the stream, the read handlers return without an exception, and together they do
  what the reference says frame by frame: every ID response is acknowledged, every ping is answered
  with a pong, in order, and exactly the GSUP payloads that come after the first ID response are
  passed to the proxy, in order; payloads before the end of the handshake are dropped.
\<close>

theorem session_reads_frames:
  assumes "list_all (\<lambda>f. length (payload f) \<le> 4095) fs"
    and "map (\<lambda>f. ipa_encode (streamId f) (payload f)) fs = map Inr wires" and "concat chunks = concat wires"
    and "ipa_buf (ss_decoder s) = []"
  shows "\<exists>acts s'. ss_reads chunks s = Inr (acts, s') \<and> gsups_of acts = session_gsup (ss_state s) fs \<and>
    ss_state s' = foldl frame_state (ss_state s) fs \<and>
    ss_writeQueue s' = ss_writeQueue s @ concat (map frame_replies fs) \<and> ipa_buf (ss_decoder s') = []"
proof -
  have "map (\<lambda>f. ipa_encode (streamId f) (payload f)) fs = map Inr (map ipa_wire fs)"
    using assms(1) by (simp add: list_all_iff ipa_encode_good)
  with assms(2) have "map Inr wires = (map Inr (map ipa_wire fs) :: bytes result list)" by simp
  then have wires: "wires = map ipa_wire fs" by (metis inj_Inr inj_map_eq_map)
  obtain d where "receive ipa_feed ipa_drain (ss_decoder s) chunks = (fs, None, d)" "ipa_buf d = []"
    using ipa_stream.receive_segmentation [of fs "ss_decoder s" chunks] assms wires
    by (auto simp: ipa_good_def list_all_iff)
  then show ?thesis using reads_frames [of s chunks fs d] by (auto simp: queues_def)
qed

theorem session_reads_frames_witness:
  "\<exists>acts s'. ss_reads [[0, 2, 0xEE, 1, 0], [2, 0xFE, 5, 0, 2, 0xEE, 7]] ss_new = Inr (acts, s') \<and> gsups_of acts = [[7]] \<and>
     ss_state s' = Ready \<and> ss_writeQueue s' = [[0, 2, 0xFE, 6]]"
proof -
  let ?fs = "[\<lparr>streamId = 0xEE, payload = [1]\<rparr>, \<lparr>streamId = 0xFE, payload = [5]\<rparr>, \<lparr>streamId = 0xEE, payload = [7]\<rparr>]"
  have spec: "session_gsup (ss_state ss_new) ?fs = [[7]]" "foldl frame_state (ss_state ss_new) ?fs = Ready"
    "ss_writeQueue ss_new @ concat (map frame_replies ?fs) = [[0, 2, 0xFE, 6]]"
    by code_simp+
  have "\<exists>acts s'. ss_reads [[0, 2, 0xEE, 1, 0], [2, 0xFE, 5, 0, 2, 0xEE, 7]] ss_new = Inr (acts, s') \<and>
      gsups_of acts = session_gsup (ss_state ss_new) ?fs \<and> ss_state s' = foldl frame_state (ss_state ss_new) ?fs \<and>
      ss_writeQueue s' = ss_writeQueue ss_new @ concat (map frame_replies ?fs) \<and> ipa_buf (ss_decoder s') = []"
    by (rule session_reads_frames [where wires = "[[0, 2, 0xEE, 1], [0, 2, 0xFE, 5], [0, 2, 0xEE, 7]]"])
      (simp_all add: ipa_encode_def ss_new_def ipa_new_def)
  then show ?thesis unfolding spec by blast
qed


text \<open>The run of the witnesses: a payload is sent, and both queued frames are written.\<close>

definition demo_events :: "SessionEvent list" where
  "demo_events = [SendGsup [7], RunPosted, WriteCompletes False, WriteCompletes False]"

lemma demo_session:
  "\<exists>y0 y. session_start = Inr y0 \<and> session_run y0 demo_events y \<and> sy_out y = [] \<and>
     sy_wire y = [[0, 4, 0xFE, 4, 1, 7], [0, 2, 0xEE, 7]] \<and> ss_writeQueue (sy_session y) = [] \<and> sy_posted y = []"
proof -
  let ?s = "\<lparr>ss_decoder = ipa_new, ss_state = Handshaking, ss_writeQueue = [[0, 4, 0xFE, 4, 1, 7]], ss_writing = True\<rparr>"
  let ?first = "\<lparr>sy_session = ?s, sy_posted = [], sy_out = [[0, 4, 0xFE, 4, 1, 7]], sy_wire = []\<rparr>"
  let ?last = "\<lparr>sy_session = ?s\<lparr>ss_writeQueue := [], ss_writing := False\<rparr>, sy_posted = [], sy_out = [],
    sy_wire = [[0, 4, 0xFE, 4, 1, 7], [0, 2, 0xEE, 7]]\<rparr>"
  have "session_start = Inr ?first" "session_exec demo_events ?first = Inr ?last"
    by (simp_all add: session_start_def ss_start_def sendCcmIdGet_def ss_new_def session_exec_def demo_events_def
        ss_sendGsup_def ipa_encode_def ss_send_def ss_enqueue_def ss_doWrite_def ss_onWrite_def ss_written_def
        writes_of_def wire_consts Let_def)
  then show ?thesis
    using session_run_exec [of demo_events ?first ?last] by (intro exI [of _ ?first] exI [of _ ?last]) simp
qed


text \<open>
  Under every interleaving of the handlers of a session, also after errors and after \<open>stop\<close>, at
  most one \<open>async_write\<close> is outstanding, and no handler runs into undefined behaviour: the completion
  handler always finds the written buffer at the front of the queue.  Handlers can still throw, and
  they do for a malformed frame: that exception is caught nowhere.
\<close>

lemma session_never_undefined:
  assumes "session_start = Inr y0" and "session_run y0 evs y"
  shows "length (sy_out y) \<le> 1 \<and> no_ub (session_event ev y)"
proof -
  have inv: "ss.wq_inv (sy_session y, sy_out y, sy_wire y) \<or> (ss_writing (sy_session y) \<and> sy_out y = [])"
    using sys_inv_run [OF assms(2,1)] by (simp add: sys_inv_def)
  have "no_ub (session_event ev y)"
  proof (cases ev)
    case RunPosted
    then show ?thesis by (auto simp: ss_send_def split: list.split prod.split)
  next
    case (WriteCompletes ec)
    then show ?thesis
      using inv by (cases "ss_writeQueue (sy_session y)")
        (auto simp: ss.wq_inv_def ss_onWrite_def ss_written_def ss_doWrite_def split: list.split)
  next
    case (ReadCompletes ec data)
    then show ?thesis using no_ub_onRead by (auto intro!: no_ub_rbind split: prod.split)
  qed (auto simp: ss_sendGsup_def ipa_encode_def Let_def split: prod.split)
  moreover have "length (sy_out y) \<le> 1" using inv by (auto simp: ss.wq_inv_def)
  ultimately show ?thesis by simp
qed

end
