(* ===== verification/IpaServer.thy ===== *)
theory IpaServer
  imports IpaSession
begin

text \<open>
  \<open>src/transport/IpaServer.hpp\<close> and \<open>IpaServer.cpp\<close>: the TCP server that owns the sessions.  The two
  maps hold shared pointers to sessions; here the session objects live in a heap, in the order of
  their creation, each with the client ID its callbacks have captured, and the maps hold references
  into it.  A session object outlives its map entries as long as handlers of it are outstanding, so
  the heap never shrinks.  The callbacks a session invokes are carried out in order when its handler
  has returned; they do not touch the session.
\<close>

section \<open>State\<close>

type_synonym client_id = u64
type_synonym session_ref = nat

record IpaServer =
  srv_heap :: "(client_id \<times> IpaSession) list"
  srv_sessions :: "client_id \<rightharpoonup> session_ref"
  srv_allSessions :: "client_id \<rightharpoonup> session_ref"
  srv_nextClientId :: client_id

datatype ServerAct =
    MessageCb bytes client_id
  | SessionIo session_ref SessionAct
  | PostEnqueue session_ref bytes
  | AcceptNext
  | CloseAcceptor

text \<open>
  The constructor opens, binds and listens on the acceptor and throws when that fails, for instance
  because the port is in use; \<open>bound\<close> is whether it succeeds.  \<open>srv_new\<close> is the state it leaves.
\<close>

definition srv_new :: IpaServer where
  "srv_new = \<lparr>srv_heap = [], srv_sessions = Map.empty, srv_allSessions = Map.empty, srv_nextClientId = 1\<rparr>"

definition srv_construct :: "bool \<Rightarrow> IpaServer result" where
  "srv_construct bound = (if bound then Inr srv_new else Inl (system_error ''bind''))"

definition srv_start :: "ServerAct list" where
  "srv_start = [AcceptNext]"

definition srv_session :: "session_ref \<Rightarrow> IpaServer \<Rightarrow> IpaSession" where
  "srv_session ref sv = snd (srv_heap sv ! ref)"

definition srv_hasActiveSession :: "IpaServer \<Rightarrow> bool" where
  "srv_hasActiveSession sv \<longleftrightarrow> srv_sessions sv \<noteq> Map.empty"

definition srv_sessionCount :: "IpaServer \<Rightarrow> nat" where
  "srv_sessionCount sv = card (dom (srv_sessions sv))"

section \<open>Callbacks of a session\<close>

definition onSessionReady :: "client_id \<Rightarrow> IpaServer \<Rightarrow> IpaServer" where
  "onSessionReady i sv =
     (case srv_allSessions sv i of None \<Rightarrow> sv
      | Some ref \<Rightarrow> sv\<lparr>srv_sessions := (srv_sessions sv)(i \<mapsto> ref)\<rparr>)"

definition onSessionDisconnect :: "client_id \<Rightarrow> IpaServer \<Rightarrow> IpaServer" where
  "onSessionDisconnect i sv =
     sv\<lparr>srv_sessions := (srv_sessions sv)(i := None), srv_allSessions := (srv_allSessions sv)(i := None)\<rparr>"

fun srv_callback :: "session_ref \<Rightarrow> client_id \<Rightarrow> SessionAct \<Rightarrow> IpaServer \<Rightarrow> ServerAct list \<times> IpaServer" where
  "srv_callback ref i OnReady sv = ([], onSessionReady i sv)"
| "srv_callback ref i (OnGsup d) sv = ([MessageCb d i], sv)"
| "srv_callback ref i OnDisconnect sv = ([], onSessionDisconnect i sv)"
| "srv_callback ref i a sv = ([SessionIo ref a], sv)"

fun srv_callbacks :: "session_ref \<Rightarrow> client_id \<Rightarrow> SessionAct list \<Rightarrow> IpaServer \<Rightarrow> ServerAct list \<times> IpaServer" where
  "srv_callbacks ref i [] sv = ([], sv)"
| "srv_callbacks ref i (a # as) sv =
     (case srv_callback ref i a sv of (out, sv1) \<Rightarrow>
      case srv_callbacks ref i as sv1 of (out', sv2) \<Rightarrow> (out @ out', sv2))"

text \<open>A handler of the session object \<open>ref\<close> runs.\<close>

definition srv_onSession ::
  "session_ref \<Rightarrow> (IpaSession \<Rightarrow> (SessionAct list \<times> IpaSession) result) \<Rightarrow> IpaServer \<Rightarrow> (ServerAct list \<times> IpaServer) result" where
  "srv_onSession ref h sv =
     (if ref < length (srv_heap sv) then
        rbind (h (srv_session ref sv)) (\<lambda>(acts, s').
          Inr (srv_callbacks ref (fst (srv_heap sv ! ref)) acts
                 (sv\<lparr>srv_heap := (srv_heap sv)[ref := (fst (srv_heap sv ! ref), s')]\<rparr>)))
      else Inl (undefined_behaviour ''dangling session''))"

section \<open>Accepting and sending\<close>

text \<open>
  The handler of \<open>async_accept\<close>: after an error, nothing is accepted any more.  The log line asks for the
  address of the peer; \<open>peer\<close> is whether \<open>remote_endpoint()\<close> gives it.  When the peer is already gone
  it throws, before the session is created and before the next accept is started.
\<close>

definition srv_onAccept :: "bool \<Rightarrow> bool \<Rightarrow> IpaServer \<Rightarrow> (ServerAct list \<times> IpaServer) result" where
  "srv_onAccept ec peer sv =
     (if ec then Inr ([], sv)
      else if \<not> peer then Inl (system_error ''remote_endpoint'')
      else
        let i = srv_nextClientId sv;
            ref = length (srv_heap sv);
            sv1 = sv\<lparr>srv_nextClientId := i + 1, srv_heap := srv_heap sv @ [(i, ss_new)],
                     srv_allSessions := (srv_allSessions sv)(i \<mapsto> ref)\<rparr>
        in and_then (srv_onSession ref ss_start sv1) (\<lambda>sv2. Inr ([AcceptNext], sv2)))"

text \<open>
  The function \<open>send\<close> posts: \<open>order\<close> is the order in which the map of ready sessions is iterated.
  The result are the frames posted to the sessions by \<open>sendGsup\<close>.
\<close>

definition srv_sendTo :: "bytes \<Rightarrow> session_ref \<Rightarrow> IpaServer \<Rightarrow> ServerAct list result" where
  "srv_sendTo pl ref sv =
     (if ss_isReady (srv_session ref sv) then rbind (ss_sendGsup pl) (\<lambda>f. Inr [PostEnqueue ref f]) else Inr [])"

fun srv_broadcast :: "bytes \<Rightarrow> client_id list \<Rightarrow> IpaServer \<Rightarrow> ServerAct list result" where
  "srv_broadcast pl [] sv = Inr []"
| "srv_broadcast pl (i # order) sv =
     (case srv_sessions sv i of None \<Rightarrow> srv_broadcast pl order sv
      | Some ref \<Rightarrow>
          rbind (srv_sendTo pl ref sv) (\<lambda>out. rbind (srv_broadcast pl order sv) (\<lambda>out'. Inr (out @ out'))))"

definition srv_send :: "bytes \<Rightarrow> client_id \<Rightarrow> client_id list \<Rightarrow> IpaServer \<Rightarrow> ServerAct list result" where
  "srv_send pl clientId order sv =
     (if clientId = 0 then srv_broadcast pl order sv
      else case srv_sessions sv clientId of None \<Rightarrow> Inr [] | Some ref \<Rightarrow> srv_sendTo pl ref sv)"

text \<open>\<open>stop\<close>: \<open>order\<close> is the order in which the map of all sessions is iterated.\<close>

fun srv_stopAll :: "client_id list \<Rightarrow> IpaServer \<Rightarrow> ServerAct list \<times> IpaServer" where
  "srv_stopAll [] sv = ([], sv)"
| "srv_stopAll (i # order) sv =
     (case srv_allSessions sv i of None \<Rightarrow> srv_stopAll order sv
      | Some ref \<Rightarrow>
          (case ss_stop (srv_session ref sv) of (acts, s') \<Rightarrow>
           case srv_stopAll order (sv\<lparr>srv_heap := (srv_heap sv)[ref := (fst (srv_heap sv ! ref), s')]\<rparr>) of (out, sv') \<Rightarrow>
             (map (SessionIo ref) acts @ out, sv')))"

definition srv_stop :: "client_id list \<Rightarrow> IpaServer \<Rightarrow> ServerAct list \<times> IpaServer" where
  "srv_stop order sv =
     (case srv_stopAll order sv of (out, sv') \<Rightarrow>
        (CloseAcceptor # out, sv'\<lparr>srv_sessions := Map.empty, srv_allSessions := Map.empty\<rparr>))"

section \<open>Events\<close>

text \<open>
  What the event loop runs: completions of operations and posted functions, in any order.
  \<open>AcceptedGone\<close> is an accept without an error whose peer has disconnected before the handler runs.
\<close>

datatype ServerEvent =
    Accepted bool
  | AcceptedGone
  | SessionRead session_ref bool bytes
  | SessionWritten session_ref bool
  | SessionEnqueue session_ref bytes
  | StopServer "client_id list"

fun server_event :: "ServerEvent \<Rightarrow> IpaServer \<Rightarrow> (ServerAct list \<times> IpaServer) result" where
  "server_event (Accepted ec) sv = srv_onAccept ec True sv"
| "server_event AcceptedGone sv = srv_onAccept False False sv"
| "server_event (SessionRead ref ec data) sv = srv_onSession ref (ss_onRead ec data) sv"
| "server_event (SessionWritten ref ec) sv = srv_onSession ref (ss_onWrite ec) sv"
| "server_event (SessionEnqueue ref frame) sv = srv_onSession ref (ss_send frame) sv"
| "server_event (StopServer order) sv = Inr (srv_stop order sv)"

inductive server_run :: "IpaServer \<Rightarrow> ServerEvent list \<Rightarrow> IpaServer \<Rightarrow> bool" where
  server_run_nil: "server_run sv [] sv"
| server_run_step: "server_run sv evs sv' \<Longrightarrow> server_event ev sv' = Inr (out, sv'') \<Longrightarrow> server_run sv (evs @ [ev]) sv''"

section \<open>The maps and the sessions agree\<close>

text \<open>
  The invariant: the object at position \<open>n\<close> has client ID \<open>n + 1\<close>, each map entry refers to the
  object of its client ID, ready sessions are among all sessions, and a session in the ready map has
  left the handshake.
\<close>

definition ids_ok :: "(client_id \<times> IpaSession) list \<Rightarrow> client_id \<Rightarrow> bool" where
  "ids_ok heap next \<longleftrightarrow> map fst heap = map (\<lambda>n. of_nat (n + 1)) [0 ..< length heap] \<and> next = of_nat (length heap + 1)"

definition server_inv :: "IpaServer \<Rightarrow> bool" where
  "server_inv sv \<longleftrightarrow>
     ids_ok (srv_heap sv) (srv_nextClientId sv) \<and>
     (\<forall>i ref. srv_allSessions sv i = Some ref \<longrightarrow> ref < length (srv_heap sv) \<and> fst (srv_heap sv ! ref) = i) \<and>
     (\<forall>i ref. srv_sessions sv i = Some ref \<longrightarrow> srv_allSessions sv i = Some ref \<and> ss_state (srv_session ref sv) \<noteq> Handshaking)"

lemma server_invI:
  assumes "ids_ok (srv_heap sv) (srv_nextClientId sv)"
    and "\<And>i ref. srv_allSessions sv i = Some ref \<Longrightarrow> ref < length (srv_heap sv) \<and> fst (srv_heap sv ! ref) = i"
    and "\<And>i ref. srv_sessions sv i = Some ref \<Longrightarrow> srv_allSessions sv i = Some ref \<and> ss_state (srv_session ref sv) \<noteq> Handshaking"
  shows "server_inv sv"
  using assms unfolding server_inv_def by blast

lemma server_invD:
  assumes "server_inv sv"
  shows "ids_ok (srv_heap sv) (srv_nextClientId sv)"
    and "srv_allSessions sv i = Some ref \<Longrightarrow> ref < length (srv_heap sv)"
    and "srv_allSessions sv i = Some ref \<Longrightarrow> fst (srv_heap sv ! ref) = i"
    and "srv_sessions sv i = Some ref \<Longrightarrow> srv_allSessions sv i = Some ref"
    and "srv_sessions sv i = Some ref \<Longrightarrow> ss_state (srv_session ref sv) \<noteq> Handshaking"
  using assms unfolding server_inv_def by blast+

text \<open>A handler never takes a session back into the handshake, and reports it ready or passes a payload on only outside.\<close>

definition leaves :: "IpaSession \<Rightarrow> SessionAct list \<Rightarrow> IpaSession \<Rightarrow> bool" where
  "leaves s acts s' \<longleftrightarrow>
     (ss_state s \<noteq> Handshaking \<or> OnReady \<in> set acts \<or> gsups_of acts \<noteq> [] \<longrightarrow> ss_state s' \<noteq> Handshaking)"

lemma leaves_trans: "leaves s a s1 \<Longrightarrow> leaves s1 b s' \<Longrightarrow> leaves s (a @ b) s'"
  by (auto simp: leaves_def)

lemma leaves_send: "ss_send f s = Inr (acts, s') \<Longrightarrow> leaves s acts s'"
  by (auto simp: ss_send_def ss_enqueue_def ss_doWrite_def Let_def leaves_def gsups_of_def split: if_splits)

lemma leaves_processFrame: "processFrame f s = Inr (acts, s') \<Longrightarrow> leaves s acts s'"
  by (auto simp: processFrame_def handleCcm_eq sendCcmIdAck_def sendCcmPong_def rbind_Inr_iff and_then_Inr_iff
      dest!: leaves_send split: if_splits) (auto simp: leaves_def)

lemma leaves_readLoop: "ss_readLoop s = Inr (acts, s') \<Longrightarrow> leaves s acts s'"
proof (induction s arbitrary: acts rule: ss_readLoop.induct)
  case (1 s)
  obtain r d where n: "ipa_next (ss_decoder s) = (r, d)" by force
  then obtain v where r: "r = Inr v" using 1(2) by (cases r) (simp_all add: ss_readLoop.simps [of s])
  show ?case
  proof (cases v)
    case None
    then show ?thesis using 1(2) n r by (auto simp: ss_readLoop.simps [of s] leaves_def)
  next
    case (Some f)
    then obtain a s1 b where p: "processFrame f (s\<lparr>ss_decoder := d\<rparr>) = Inr (a, s1)" "ss_readLoop s1 = Inr (b, s')"
      "acts = a @ b"
      using 1(2) n r by (auto simp: ss_readLoop.simps [of s] and_then_Inr_iff)
    then have "leaves s a s1" using leaves_processFrame [OF p(1)] by (simp add: leaves_def)
    moreover have "leaves s1 b s'" using 1(1) [OF n [symmetric] r Some _ p(2)] p(1) by auto
    ultimately show ?thesis using p(3) leaves_trans by simp
  qed
qed

lemma leaves_handlers:
  "ss_onRead ec data s = Inr (acts, s') \<Longrightarrow> leaves s acts s'"
  "ss_onWrite ec s = Inr (acts, s') \<Longrightarrow> leaves s acts s'"
  "ss_start s = Inr (acts, s') \<Longrightarrow> leaves s acts s'"
proof -
  assume "ss_onRead ec data s = Inr (acts, s')"
  then show "leaves s acts s'"
    by (auto simp: ss_onRead_def and_then_Inr_iff dest!: leaves_readLoop split: if_splits) (auto simp: leaves_def)
next
  assume "ss_onWrite ec s = Inr (acts, s')"
  then show "leaves s acts s'"
    by (auto simp: ss_onWrite_def ss_written_def ss_doWrite_def rbind_Inr_iff leaves_def gsups_of_def split: if_splits)
next
  assume "ss_start s = Inr (acts, s')"
  then show "leaves s acts s'"
    by (auto simp: ss_start_def sendCcmIdGet_def and_then_Inr_iff rbind_Inr_iff dest!: leaves_send) (auto simp: leaves_def)
qed

definition client_ids :: nat where
  "client_ids = 2 ^ 64 - 1"

text \<open>Client IDs start at 1; as long as the counter has not wrapped they are different and not 0.\<close>

lemma heap_id: "server_inv sv \<Longrightarrow> ref < length (srv_heap sv) \<Longrightarrow> fst (srv_heap sv ! ref) = of_nat (ref + 1)"
proof -
  assume "server_inv sv" and ref: "ref < length (srv_heap sv)"
  then have "map fst (srv_heap sv) ! ref = map (\<lambda>n. of_nat (n + 1)) [0 ..< length (srv_heap sv)] ! ref"
    using server_invD(1) by (simp only: ids_ok_def)
  then show ?thesis using ref by simp
qed

lemma unat_heap_id:
  assumes "server_inv sv" and "length (srv_heap sv) < client_ids" and "ref < length (srv_heap sv)"
  shows "unat (fst (srv_heap sv ! ref)) = ref + 1"
proof -
  have "ref + 1 < 2 ^ LENGTH(64)" using assms(2,3) by (simp add: client_ids_def)
  then show ?thesis unfolding heap_id [OF assms(1,3)] unat_of_nat by (rule mod_less)
qed

lemma heap_ref_unique:
  assumes "server_inv sv" and "length (srv_heap sv) < client_ids" and "srv_allSessions sv (fst (srv_heap sv ! ref)) = Some r"
    and "ref < length (srv_heap sv)"
  shows "r = ref"
proof -
  have "r < length (srv_heap sv)" "fst (srv_heap sv ! r) = fst (srv_heap sv ! ref)"
    using server_invD(2,3) [OF assms(1,3)] .
  then show ?thesis
    using unat_heap_id [OF assms(1,2), of r] unat_heap_id [OF assms(1,2,4)] by (metis add_right_cancel)
qed

text \<open>The callbacks of a session whose new state is in the heap.\<close>

definition messages :: "ServerAct list \<Rightarrow> (bytes \<times> client_id) list" where
  "messages out = [(d, i). MessageCb d i \<leftarrow> out]"

lemma messages_append [simp]: "messages [] = []" "messages (a @ b) = messages a @ messages b"
  by (simp_all add: messages_def)

lemma onSessionReady_inv:
  assumes "server_inv sv" and "ref < length (srv_heap sv)" and "length (srv_heap sv) < client_ids"
    and "ss_state (srv_session ref sv) \<noteq> Handshaking"
  shows "server_inv (onSessionReady (fst (srv_heap sv ! ref)) sv)"
proof (cases "srv_allSessions sv (fst (srv_heap sv ! ref))")
  case None
  then show ?thesis using assms(1) by (simp add: onSessionReady_def)
next
  case (Some r)
  then have r: "r = ref" using heap_ref_unique [OF assms(1,3) _ assms(2)] by blast
  note inv = server_invD [OF assms(1)]
  show ?thesis
  proof (rule server_invI)
    show "srv_allSessions (onSessionReady (fst (srv_heap sv ! ref)) sv) i = Some q \<and>
        ss_state (srv_session q (onSessionReady (fst (srv_heap sv ! ref)) sv)) \<noteq> Handshaking"
      if "srv_sessions (onSessionReady (fst (srv_heap sv ! ref)) sv) i = Some q" for i q
      using that Some r assms(4) inv(4,5) [of i q]
      by (auto simp: onSessionReady_def srv_session_def split: if_splits)
  qed (use Some inv(1-3) in \<open>auto simp: onSessionReady_def\<close>)
qed

lemma onSessionDisconnect_inv:
  assumes "server_inv sv"
  shows "server_inv (onSessionDisconnect i sv)"
  by (rule server_invI)
    (use server_invD [OF assms] in \<open>auto simp: onSessionDisconnect_def srv_session_def split: if_splits\<close>)

lemma srv_callback_inv:
  assumes "server_inv sv" and "ref < length (srv_heap sv)" and "length (srv_heap sv) < client_ids"
    and "a = OnReady \<Longrightarrow> ss_state (srv_session ref sv) \<noteq> Handshaking"
    and "srv_callback ref (fst (srv_heap sv ! ref)) a sv = (out, sv')"
  shows "server_inv sv'" "srv_heap sv' = srv_heap sv" "messages out = map (\<lambda>d. (d, fst (srv_heap sv ! ref))) (gsups_of [a])"
proof -
  show "server_inv sv'"
    using assms onSessionReady_inv [OF assms(1-3)] onSessionDisconnect_inv [OF assms(1)] by (cases a) auto
  show "srv_heap sv' = srv_heap sv"
    using assms(5) by (cases a) (auto simp: onSessionReady_def onSessionDisconnect_def split: option.splits)
  show "messages out = map (\<lambda>d. (d, fst (srv_heap sv ! ref))) (gsups_of [a])"
    using assms(5) by (cases a) (auto simp: gsups_of_def messages_def)
qed

lemma srv_callbacks_inv:
  assumes "server_inv sv" and "ref < length (srv_heap sv)" and "length (srv_heap sv) < client_ids"
    and "OnReady \<in> set acts \<Longrightarrow> ss_state (srv_session ref sv) \<noteq> Handshaking"
    and "srv_callbacks ref (fst (srv_heap sv ! ref)) acts sv = (out, sv')"
  shows "server_inv sv' \<and> srv_heap sv' = srv_heap sv \<and>
    messages out = map (\<lambda>d. (d, fst (srv_heap sv ! ref))) (gsups_of acts)"
  using assms
proof (induction acts arbitrary: sv out)
  case (Cons a as)
  let ?i = "fst (srv_heap sv ! ref)"
  obtain o1 sv1 o2 where c: "srv_callback ref ?i a sv = (o1, sv1)" "srv_callbacks ref ?i as sv1 = (o2, sv')" "out = o1 @ o2"
    using Cons.prems(5) by (auto split: prod.splits)
  have ready: "a = OnReady \<Longrightarrow> ss_state (srv_session ref sv) \<noteq> Handshaking" using Cons.prems(4) by simp
  note one = srv_callback_inv [OF Cons.prems(1-3) ready c(1)]
  have "server_inv sv' \<and> srv_heap sv' = srv_heap sv1 \<and> messages o2 = map (\<lambda>d. (d, ?i)) (gsups_of as)"
    using Cons.IH [OF one(1), of o2] Cons.prems(2-4) c(2) one(2) by (simp add: srv_session_def)
  moreover have "gsups_of (a # as) = gsups_of [a] @ gsups_of as" by (simp add: gsups_of_def)
  ultimately show ?case using one(2,3) c(3) by simp
qed simp

lemma server_inv_update:
  assumes "server_inv sv" and "ref < length (srv_heap sv)"
    and "ss_state (srv_session ref sv) \<noteq> Handshaking \<Longrightarrow> ss_state s' \<noteq> Handshaking"
  shows "server_inv (sv\<lparr>srv_heap := (srv_heap sv)[ref := (fst (srv_heap sv ! ref), s')]\<rparr>)"
proof -
  have "map fst ((srv_heap sv)[ref := (fst (srv_heap sv ! ref), s')]) = map fst (srv_heap sv)"
    using assms(2) by (simp add: map_update) (metis list_update_id nth_map)
  then have ids: "ids_ok ((srv_heap sv)[ref := (fst (srv_heap sv ! ref), s')]) (srv_nextClientId sv)"
    using server_invD(1) [OF assms(1)] by (simp add: ids_ok_def)
  show ?thesis
    by (rule server_invI)
      (use ids server_invD(2-5) [OF assms(1)] assms(2,3) in \<open>auto simp: srv_session_def nth_list_update\<close>)
qed

lemma srv_onSession_inv:
  assumes "server_inv sv" and "length (srv_heap sv) < client_ids"
    and leaves: "\<And>s acts s'. h s = Inr (acts, s') \<Longrightarrow> leaves s acts s'"
    and run: "srv_onSession ref h sv = Inr (out, sv')"
  shows "server_inv sv' \<and> length (srv_heap sv') = length (srv_heap sv) \<and> ref < length (srv_heap sv) \<and>
    (\<exists>acts s'. h (srv_session ref sv) = Inr (acts, s') \<and> srv_session ref sv' = s' \<and>
       messages out = map (\<lambda>d. (d, fst (srv_heap sv ! ref))) (gsups_of acts))"
proof -
  have ref: "ref < length (srv_heap sv)" using run by (simp add: srv_onSession_def split: if_splits)
  obtain acts s' where h: "h (srv_session ref sv) = Inr (acts, s')"
    and cb: "srv_callbacks ref (fst (srv_heap sv ! ref)) acts
      (sv\<lparr>srv_heap := (srv_heap sv)[ref := (fst (srv_heap sv ! ref), s')]\<rparr>) = (out, sv')"
    using run ref by (auto simp: srv_onSession_def rbind_Inr_iff)
  let ?sv = "sv\<lparr>srv_heap := (srv_heap sv)[ref := (fst (srv_heap sv ! ref), s')]\<rparr>"
  have l: "leaves (srv_session ref sv) acts s'" using leaves [OF h] .
  then have "server_inv ?sv" using server_inv_update [OF assms(1) ref] by (simp add: leaves_def)
  moreover have "srv_session ref ?sv = s'" "fst (srv_heap ?sv ! ref) = fst (srv_heap sv ! ref)"
    using ref by (simp_all add: srv_session_def)
  ultimately show ?thesis
    using srv_callbacks_inv [of ?sv ref acts out sv'] ref assms(2) cb l h
    by (auto simp: leaves_def srv_session_def)
qed

section \<open>Every event keeps the invariant\<close>

lemma server_inv_new: "server_inv srv_new"
  by (rule server_invI) (simp_all add: srv_new_def ids_ok_def)

lemma server_inv_accept:
  assumes inv: "server_inv sv" and "length (srv_heap sv) + 1 < client_ids"
  shows "server_inv (sv\<lparr>srv_nextClientId := srv_nextClientId sv + 1, srv_heap := srv_heap sv @ [(srv_nextClientId sv, ss_new)],
    srv_allSessions := (srv_allSessions sv)(srv_nextClientId sv \<mapsto> length (srv_heap sv))\<rparr>)"
proof -
  let ?n = "length (srv_heap sv)" and ?i = "srv_nextClientId sv"
  have i: "?i = of_nat (?n + 1)" using server_invD(1) [OF inv] by (simp add: ids_ok_def)
  have "?n + 1 < 2 ^ LENGTH(64)" using assms(2) by (simp add: client_ids_def)
  then have "unat ?i = ?n + 1" unfolding i unat_of_nat by (rule mod_less)
  then have fresh: "srv_sessions sv ?i = None"
    using server_invD(2-4) [OF inv, of ?i] unat_heap_id [OF inv] assms(2)
    by (cases "srv_sessions sv ?i") fastforce+
  have ids: "ids_ok (srv_heap sv @ [(?i, ss_new)]) (?i + 1)"
    using server_invD(1) [OF inv] by (simp add: ids_ok_def ac_simps)
  have live: "srv_sessions sv i = Some ref \<Longrightarrow> ref < length (srv_heap sv)" for i ref
    using server_invD(2,4) [OF inv] by blast
  show ?thesis
    by (rule server_invI)
      (use ids fresh live server_invD(2-5) [OF inv] in \<open>auto simp: srv_session_def nth_append split: if_splits\<close>)
qed

lemma server_inv_stopAll:
  assumes "server_inv sv" and "srv_stopAll order sv = (out, sv')"
  shows "server_inv sv'"
  using assms
proof (induction order arbitrary: sv out)
  case (Cons i order)
  show ?case
  proof (cases "srv_allSessions sv i")
    case None
    then show ?thesis using Cons by simp
  next
    case (Some ref)
    let ?sv = "sv\<lparr>srv_heap := (srv_heap sv)[ref := (fst (srv_heap sv ! ref), snd (ss_stop (srv_session ref sv)))]\<rparr>"
    have ref: "ref < length (srv_heap sv)" using server_invD(2) [OF Cons.prems(1) Some] .
    have "server_inv ?sv" by (rule server_inv_update [OF Cons.prems(1) ref]) (simp add: ss_stop_def)
    moreover obtain o2 where "srv_stopAll order ?sv = (o2, sv')"
      using Cons.prems(2) Some by (auto split: prod.splits)
    ultimately show ?thesis using Cons.IH [of ?sv] by simp
  qed
qed simp

lemma srv_callbacks_heap: "srv_callbacks ref i acts sv = (out, sv') \<Longrightarrow> srv_heap sv' = srv_heap sv"
proof (induction acts arbitrary: sv out)
  case (Cons a as)
  then show ?case by (cases a) (auto simp: onSessionReady_def onSessionDisconnect_def split: prod.splits option.splits)
qed simp

lemma srv_onSession_heap: "srv_onSession ref h sv = Inr (out, sv') \<Longrightarrow> length (srv_heap sv') = length (srv_heap sv)"
  by (auto simp: srv_onSession_def rbind_Inr_iff dest!: srv_callbacks_heap split: if_splits prod.splits)

lemma srv_stopAll_heap: "srv_stopAll order sv = (out, sv') \<Longrightarrow> length (srv_heap sv') = length (srv_heap sv)"
  by (induction order arbitrary: sv out) (fastforce split: option.splits prod.splits)+

lemma server_event_heap: "server_event ev sv = Inr (out, sv') \<Longrightarrow> length (srv_heap sv) \<le> length (srv_heap sv')"
  by (cases ev) (auto simp: srv_onAccept_def Let_def and_then_Inr_iff srv_stop_def dest!: srv_onSession_heap srv_stopAll_heap
      split: if_splits prod.splits)

lemma server_event_inv:
  assumes inv: "server_inv sv" and ev: "server_event ev sv = Inr (out, sv')" and bound: "length (srv_heap sv') < client_ids"
  shows "server_inv sv'"
proof -
  have small: "length (srv_heap sv) < client_ids" using server_event_heap [OF ev] bound by linarith
  show ?thesis
  proof (cases ev)
    case (Accepted ec)
    show ?thesis
    proof (cases ec)
      case True
      then show ?thesis using inv ev Accepted by (simp add: srv_onAccept_def)
    next
      case False
      let ?sv1 = "sv\<lparr>srv_nextClientId := srv_nextClientId sv + 1, srv_heap := srv_heap sv @ [(srv_nextClientId sv, ss_new)],
        srv_allSessions := (srv_allSessions sv)(srv_nextClientId sv \<mapsto> length (srv_heap sv))\<rparr>"
      obtain o1 where on: "srv_onSession (length (srv_heap sv)) ss_start ?sv1 = Inr (o1, sv')"
        using ev Accepted False by (auto simp: srv_onAccept_def Let_def and_then_Inr_iff)
      have "length (srv_heap ?sv1) < client_ids" using srv_onSession_heap [OF on] bound by simp
      then show ?thesis
        using srv_onSession_inv [OF server_inv_accept [OF inv] _ leaves_handlers(3) on] by simp
    qed
  next
    case AcceptedGone
    then show ?thesis using ev by (simp add: srv_onAccept_def)
  next
    case (SessionRead ref ec data)
    then show ?thesis using srv_onSession_inv [OF inv small leaves_handlers(1)] ev by auto
  next
    case (SessionWritten ref ec)
    then show ?thesis using srv_onSession_inv [OF inv small leaves_handlers(2)] ev by auto
  next
    case (SessionEnqueue ref frame)
    then show ?thesis using srv_onSession_inv [OF inv small leaves_send] ev by auto
  next
    case (StopServer order)
    then obtain o1 sv1 where "srv_stopAll order sv = (o1, sv1)"
      "sv' = sv1\<lparr>srv_sessions := Map.empty, srv_allSessions := Map.empty\<rparr>"
      using ev by (auto simp: srv_stop_def split: prod.splits)
    then show ?thesis
      using server_invD(1) [OF server_inv_stopAll [OF inv]] by (intro server_invI) auto
  qed
qed

lemma server_run_heap: "server_run sv evs sv' \<Longrightarrow> length (srv_heap sv) \<le> length (srv_heap sv')"
  by (induction rule: server_run.induct) (auto dest: server_event_heap)

lemma server_run_inv:
  "server_run sv evs sv' \<Longrightarrow> server_inv sv \<Longrightarrow> length (srv_heap sv') < client_ids \<Longrightarrow> server_inv sv'"
proof (induction rule: server_run.induct)
  case (server_run_step sv evs sv' ev out sv'')
  have "length (srv_heap sv') < client_ids"
    using server_event_heap [OF server_run_step(2)] server_run_step.prems(2) by linarith
  then show ?case
    using server_event_inv [OF _ server_run_step(2)] server_run_step.IH server_run_step.prems by blast
qed

text \<open>Where a message goes.\<close>

lemma srv_send_one:
  assumes inv: "server_inv sv" and bound: "length (srv_heap sv) < client_ids" and ref: "ref < length (srv_heap sv)"
    and i: "i = of_nat (ref + 1)" and send: "srv_send p i order sv = Inr posts"
  shows "i \<noteq> 0" "posts = (if srv_sessions sv i \<noteq> None \<and> ss_state (srv_session ref sv) = Ready
      then [PostEnqueue ref (ipa_wire (gsup_frame p))] else [])"
proof -
  have "unat i = ref + 1" using unat_heap_id [OF inv bound ref] heap_id [OF inv ref] i by simp
  then show nz: "i \<noteq> 0" by auto
  have r: "r = ref" if "srv_sessions sv i = Some r" for r
    using heap_ref_unique [OF inv bound _ ref] server_invD(4) [OF inv that] heap_id [OF inv ref] i by simp
  have "rbind (ss_sendGsup p) (\<lambda>f. Inr [PostEnqueue ref f]) = Inr posts \<Longrightarrow> posts = [PostEnqueue ref (ipa_wire (gsup_frame p))]"
    by (auto simp: rbind_Inr_iff ss_sendGsup_def ipa_encode_def ipa_wire_def gsup_frame_def Let_def split: if_splits)
  then show "posts = (if srv_sessions sv i \<noteq> None \<and> ss_state (srv_session ref sv) = Ready
      then [PostEnqueue ref (ipa_wire (gsup_frame p))] else [])"
    using send nz r by (cases "srv_sessions sv i") (auto simp: srv_send_def srv_sendTo_def ss_isReady_def split: if_splits)
qed

section \<open>Properties\<close>

text \<open>
  C14: The session maps of the server are consistent in every state it can reach (while fewer than
  \<open>2^64 - 1\<close> connections have been accepted): every session in the map of ready sessions is also in
  the map of all sessions, under the client ID it was given when it was accepted; that ID is not 0,
  which means broadcast, and belongs to no other connection; and the session has completed its
  handshake.
\<close>

theorem server_maps_consistent:
  assumes "server_run srv_new evs sv" and "length (srv_heap sv) < 2 ^ 64 - 1" and "srv_sessions sv i = Some ref"
  shows "srv_allSessions sv i = Some ref \<and> ref < length (srv_heap sv) \<and> i \<noteq> 0 \<and>
    (\<forall>r < length (srv_heap sv). fst (srv_heap sv ! r) = i \<longleftrightarrow> r = ref) \<and> ss_state (srv_session ref sv) \<noteq> Handshaking"
proof -
  have bound: "length (srv_heap sv) < client_ids" using assms(2) by (simp only: client_ids_def)
  have inv: "server_inv sv" using server_run_inv [OF assms(1) server_inv_new bound] .
  have all: "srv_allSessions sv i = Some ref" and st: "ss_state (srv_session ref sv) \<noteq> Handshaking"
    using server_invD(4,5) [OF inv assms(3)] .
  have ref: "ref < length (srv_heap sv)" and i: "fst (srv_heap sv ! ref) = i" using server_invD(2,3) [OF inv all] .
  have "i \<noteq> 0" using unat_heap_id [OF inv bound ref] i by auto
  moreover have "r = ref" if "r < length (srv_heap sv)" "fst (srv_heap sv ! r) = i" for r
    using heap_ref_unique [OF inv bound _ that(1)] all that(2) by simp
  ultimately show ?thesis using all st ref i by blast
qed

text \<open>A connection that is accepted and completes its handshake.\<close>

definition demo_server :: IpaServer where
  "demo_server = \<lparr>srv_heap = [(1, \<lparr>ss_decoder = ipa_new, ss_state = Ready,
       ss_writeQueue = [[0, 4, 0xFE, 4, 1, 7], [0, 2, 0xFE, 6]], ss_writing = True\<rparr>)],
     srv_sessions = [1 \<mapsto> 0], srv_allSessions = [1 \<mapsto> 0], srv_nextClientId = 2\<rparr>"

lemmas session_defs = ss_start_def sendCcmIdGet_def sendCcmIdAck_def ss_new_def ipa_new_def ipa_encode_def ss_send_def
  ss_enqueue_def ss_doWrite_def ss_onRead_def ipa_feed_def ipa_next_eq processFrame_def handleCcm_eq

lemma demo_server_run: "server_run srv_new [Accepted False, SessionRead 0 False [0, 2, 0xFE, 5]] demo_server"
proof -
  let ?s = "\<lparr>ss_decoder = ipa_new, ss_state = Handshaking, ss_writeQueue = [[0, 4, 0xFE, 4, 1, 7]], ss_writing = True\<rparr>"
  let ?sv = "\<lparr>srv_heap = [(1, ?s)], srv_sessions = Map.empty, srv_allSessions = [1 \<mapsto> 0], srv_nextClientId = 2\<rparr>"
  have "\<exists>out. server_event (Accepted False) srv_new = Inr (out, ?sv)"
    by (simp add: srv_onAccept_def srv_new_def srv_onSession_def srv_session_def session_defs Let_def wire_consts)
  moreover have "\<exists>out. server_event (SessionRead 0 False [0, 2, 0xFE, 5]) ?sv = Inr (out, demo_server)"
    by (simp add: srv_onSession_def srv_session_def session_defs Let_def wire_consts ss_readLoop.simps onSessionReady_def
        demo_server_def)
  ultimately show ?thesis
    using server_run_step [OF server_run_step [OF server_run_nil]] by (metis append_Cons append_Nil)
qed

theorem server_maps_consistent_witness:
  "server_run srv_new [Accepted False, SessionRead 0 False [0, 2, 0xFE, 5]] demo_server \<and>
   srv_allSessions demo_server 1 = Some 0 \<and> ss_state (srv_session 0 demo_server) \<noteq> Handshaking"
  using server_maps_consistent [OF demo_server_run, of 1 0] demo_server_run by (simp add: demo_server_def)

text \<open>
  C13: Answers go back to where the request came from.  When a session passes a GSUP payload to the
  proxy under a client ID, then in every later state of the server, whatever connections were
  accepted, lost or stopped in between, a message sent to that client ID is posted to no other
  session; it is posted to that one, exactly once and framed as GSUP, as long as the session is
  registered and ready, and dropped otherwise.
\<close>

theorem server_answers_origin:
  assumes "server_run srv_new evs sv" and read: "server_event (SessionRead ref False data) sv = Inr (out, sv1)"
    and msg: "MessageCb d i \<in> set out" and later: "server_run sv1 evs' sv2"
    and small: "length (srv_heap sv2) < 2 ^ 64 - 1" and send: "srv_send p i order sv2 = Inr posts"
  shows "i \<noteq> 0 \<and> posts = (if srv_sessions sv2 i \<noteq> None \<and> ss_state (srv_session ref sv2) = Ready
      then [PostEnqueue ref (ipa_wire \<lparr>streamId = kStreamGsup, payload = p\<rparr>)] else [])"
proof -
  have bound2: "length (srv_heap sv2) < client_ids" using small by (simp only: client_ids_def)
  have bound1: "length (srv_heap sv1) < client_ids" using server_run_heap [OF later] bound2 by linarith
  have bound: "length (srv_heap sv) < client_ids" using server_event_heap [OF read] bound1 by linarith
  have inv: "server_inv sv" using server_run_inv [OF assms(1) server_inv_new bound] .
  have inv1: "server_inv sv1" using server_event_inv [OF inv read bound1] .
  have inv2: "server_inv sv2" using server_run_inv [OF later inv1 bound2] .
  have on: "srv_onSession ref (ss_onRead False data) sv = Inr (out, sv1)" using read by simp
  obtain acts where ref: "ref < length (srv_heap sv)" and "messages out = map (\<lambda>d. (d, fst (srv_heap sv ! ref))) (gsups_of acts)"
    using srv_onSession_inv [OF inv bound leaves_handlers(1) [of False data] on] by blast
  moreover have "(d, i) \<in> set (messages out)" using msg by (force simp: messages_def)
  ultimately have i: "i = of_nat (ref + 1)" using heap_id [OF inv ref] by auto
  have "ref < length (srv_heap sv2)"
    using ref server_event_heap [OF read] server_run_heap [OF later] by linarith
  from srv_send_one [OF inv2 bound2 this i send] show ?thesis by (simp add: gsup_frame_def)
qed

theorem server_answers_origin_witness:
  "\<exists>out. server_event (SessionRead 0 False [0, 2, 0xEE, 9]) demo_server = Inr (out, demo_server) \<and>
     MessageCb [9] 1 \<in> set out \<and> srv_send [5] 1 [] demo_server = Inr [PostEnqueue 0 [0, 2, 0xEE, 5]]"
proof -
  obtain out where read: "server_event (SessionRead 0 False [0, 2, 0xEE, 9]) demo_server = Inr (out, demo_server)"
    and msg: "MessageCb [9] 1 \<in> set out"
    by (simp add: srv_onSession_def srv_session_def session_defs Let_def wire_consts ss_readLoop.simps demo_server_def)
  have small: "length (srv_heap demo_server) < 2 ^ 64 - 1" by (simp add: demo_server_def)
  obtain posts where send: "srv_send [5] 1 [] demo_server = Inr posts"
    by (simp add: srv_send_def srv_sendTo_def demo_server_def srv_session_def ss_isReady_def ss_sendGsup_def ipa_encode_def)
  from server_answers_origin [OF demo_server_run read msg server_run_nil small send]
  have "posts = [PostEnqueue 0 [0, 2, 0xEE, 5]]"
    by (simp add: demo_server_def srv_session_def ipa_wire_def wire_consts)
  then show ?thesis using read msg send by blast
qed

end
