(* ===== verification/M3uaCodec.thy ===== *)
theory M3uaCodec
  imports Framing Tlv
begin

text \<open>
  \<open>src/transport/M3uaTypes.hpp\<close>, \<open>M3uaCodec.hpp\<close> and \<open>M3uaCodec.cpp\<close>: the messages of the M3UA
  adaptation layer, their codec and the stream reassembler \<open>M3uaDecoder\<close>.  A message is an octet
  header with the total length, followed by tag-length-value parameters padded to four octets.
\<close>

section \<open>Constants\<close>

definition kVersion :: byte where [wire_consts]: "kVersion = 0x01"
definition kClassMgmt :: byte where [wire_consts]: "kClassMgmt = 0x00"
definition kClassTransf :: byte where [wire_consts]: "kClassTransf = 0x01"
definition kClassSsnm :: byte where [wire_consts]: "kClassSsnm = 0x02"
definition kClassAspsm :: byte where [wire_consts]: "kClassAspsm = 0x03"
definition kClassAsptm :: byte where [wire_consts]: "kClassAsptm = 0x04"
definition kTypeErr :: byte where [wire_consts]: "kTypeErr = 0x00"
definition kTypeNtfy :: byte where [wire_consts]: "kTypeNtfy = 0x01"
definition kTypeData :: byte where [wire_consts]: "kTypeData = 0x01"
definition kTypeAspUp :: byte where [wire_consts]: "kTypeAspUp = 0x01"
definition kTypeAspUpAck :: byte where [wire_consts]: "kTypeAspUpAck = 0x02"
definition kTypeAspDown :: byte where [wire_consts]: "kTypeAspDown = 0x03"
definition kTypeAspDownAck :: byte where [wire_consts]: "kTypeAspDownAck = 0x04"
definition kTypeHeartbeat :: byte where [wire_consts]: "kTypeHeartbeat = 0x05"
definition kTypeHeartbeatAck :: byte where [wire_consts]: "kTypeHeartbeatAck = 0x06"
definition kTypeAspAc :: byte where [wire_consts]: "kTypeAspAc = 0x01"
definition kTypeAspAcAck :: byte where [wire_consts]: "kTypeAspAcAck = 0x02"
definition kTypeAspIa :: byte where [wire_consts]: "kTypeAspIa = 0x03"
definition kTypeAspIaAck :: byte where [wire_consts]: "kTypeAspIaAck = 0x04"
definition kTagInfoString :: u16 where [wire_consts]: "kTagInfoString = 0x0004"
definition kTagRoutingCtx :: u16 where [wire_consts]: "kTagRoutingCtx = 0x0006"
definition kTagDiagInfo :: u16 where [wire_consts]: "kTagDiagInfo = 0x0007"
definition kTagHeartbeatData :: u16 where [wire_consts]: "kTagHeartbeatData = 0x0009"
definition kTagTrafficMode :: u16 where [wire_consts]: "kTagTrafficMode = 0x000b"
definition kTagErrorCode :: u16 where [wire_consts]: "kTagErrorCode = 0x000c"
definition kTagStatus :: u16 where [wire_consts]: "kTagStatus = 0x000d"
definition kTagAspId :: u16 where [wire_consts]: "kTagAspId = 0x0011"
definition kTagAffectedPcInd :: u16 where [wire_consts]: "kTagAffectedPcInd = 0x0012"
definition kTagProtocolData :: u16 where [wire_consts]: "kTagProtocolData = 0x0210"
definition kSiSccp :: byte where [wire_consts]: "kSiSccp = 0x03"
definition kNiInternational :: byte where [wire_consts]: "kNiInternational = 0x00"
definition kNiNational :: byte where [wire_consts]: "kNiNational = 0x02"
definition kCommonHeaderSize :: nat where [wire_consts]: "kCommonHeaderSize = 8"
definition kTrafficModeOverride :: u32 where [wire_consts]: "kTrafficModeOverride = 1"
definition kTrafficModeLoadShare :: u32 where [wire_consts]: "kTrafficModeLoadShare = 2"
definition kTrafficModeBroadcast :: u32 where [wire_consts]: "kTrafficModeBroadcast = 3"
definition kMaxM3uaMessageSize :: u32 where [wire_consts]: "kMaxM3uaMessageSize = 64 * 1024"

section \<open>Messages\<close>

record ProtocolData =
  pd_opc :: u32
  pd_dpc :: u32
  pd_si :: byte
  pd_ni :: byte
  pd_mp :: byte
  pd_sls :: byte
  pd_userData :: bytes

definition ProtocolData_init :: ProtocolData where
  "ProtocolData_init = \<lparr>pd_opc = 0, pd_dpc = 0, pd_si = kSiSccp, pd_ni = kNiInternational, pd_mp = 0, pd_sls = 0,
     pd_userData = []\<rparr>"

record M3uaMessage =
  mu_msgClass :: byte
  mu_msgType :: byte
  mu_routingContext :: "u32 option"
  mu_protocolData :: "ProtocolData option"
  mu_heartbeatData :: bytes

definition makeAspUp :: M3uaMessage where
  "makeAspUp = \<lparr>mu_msgClass = kClassAspsm, mu_msgType = kTypeAspUp, mu_routingContext = None, mu_protocolData = None,
     mu_heartbeatData = []\<rparr>"

definition makeAspAc :: "u32 option \<Rightarrow> M3uaMessage" where
  "makeAspAc rc = \<lparr>mu_msgClass = kClassAsptm, mu_msgType = kTypeAspAc, mu_routingContext = rc, mu_protocolData = None,
     mu_heartbeatData = []\<rparr>"

definition makeHeartbeat :: "bytes \<Rightarrow> M3uaMessage" where
  "makeHeartbeat data = \<lparr>mu_msgClass = kClassAspsm, mu_msgType = kTypeHeartbeat, mu_routingContext = None,
     mu_protocolData = None, mu_heartbeatData = data\<rparr>"

definition makeHeartbeatAck :: "bytes \<Rightarrow> M3uaMessage" where
  "makeHeartbeatAck data = \<lparr>mu_msgClass = kClassAspsm, mu_msgType = kTypeHeartbeatAck, mu_routingContext = None,
     mu_protocolData = None, mu_heartbeatData = data\<rparr>"

definition makeData :: "ProtocolData \<Rightarrow> u32 option \<Rightarrow> M3uaMessage" where
  "makeData pd rc = \<lparr>mu_msgClass = kClassTransf, mu_msgType = kTypeData, mu_routingContext = rc,
     mu_protocolData = Some pd, mu_heartbeatData = []\<rparr>"

section \<open>Encoder\<close>

definition m3ua_pad :: "nat \<Rightarrow> nat" where
  "m3ua_pad n = (4 - n mod 4) mod 4"

definition m3ua_writeTlv :: "BufferWriter \<Rightarrow> u16 \<Rightarrow> bytes \<Rightarrow> BufferWriter" where
  "m3ua_writeTlv w tag val =
     (let len = of_nat (4 + length val);
          w = wr_writeBE16 w tag;
          w = wr_writeBE16 w len;
          w = wr_writeBytes w val
      in foldl (\<lambda>w _. wr_write8 w 0) w [0 ..< m3ua_pad (length val)])"

definition m3ua_writeTlvU32 :: "BufferWriter \<Rightarrow> u16 \<Rightarrow> u32 \<Rightarrow> BufferWriter" where
  "m3ua_writeTlvU32 w tag v =
     m3ua_writeTlv w tag [ucast (drop_bit 24 v AND 0xFF), ucast (drop_bit 16 v AND 0xFF), ucast (drop_bit 8 v AND 0xFF),
       ucast (v AND 0xFF)]"

definition m3ua_encode :: "M3uaMessage \<Rightarrow> bytes" where
  "m3ua_encode msg =
     (let body = wr_new;
          body = (case mu_routingContext msg of None \<Rightarrow> body | Some rc \<Rightarrow> m3ua_writeTlvU32 body kTagRoutingCtx rc);
          body = (if mu_heartbeatData msg \<noteq> [] then m3ua_writeTlv body kTagHeartbeatData (mu_heartbeatData msg) else body);
          body = (case mu_protocolData msg of None \<Rightarrow> body | Some pd \<Rightarrow>
            let pdw = wr_writeBE32 wr_new (pd_opc pd);
                pdw = wr_writeBE32 pdw (pd_dpc pd);
                pdw = wr_write8 pdw (pd_si pd);
                pdw = wr_write8 pdw (pd_ni pd);
                pdw = wr_write8 pdw (pd_mp pd);
                pdw = wr_write8 pdw (pd_sls pd);
                pdw = wr_writeBytes pdw (pd_userData pd)
            in m3ua_writeTlv body kTagProtocolData (wr_buf pdw));
          bodyBytes = wr_buf body;
          totalLen = of_nat (kCommonHeaderSize + length bodyBytes);
          w = wr_write8 wr_new kVersion;
          w = wr_write8 w 0x00;
          w = wr_write8 w (mu_msgClass msg);
          w = wr_write8 w (mu_msgType msg);
          w = wr_writeBE32 w totalLen;
          w = wr_writeBytes w bodyBytes
      in wr_buf w)"

section \<open>Decoder\<close>

text \<open>\<open>(uint32_t(v[i]) << 24) | ... | uint32_t(v[i + 3])\<close>\<close>

definition vec_be32 :: "bytes \<Rightarrow> nat \<Rightarrow> u32 result" where
  "vec_be32 v i =
     rbind (vec_at v i) (\<lambda>b0. rbind (vec_at v (i + 1)) (\<lambda>b1. rbind (vec_at v (i + 2)) (\<lambda>b2. rbind (vec_at v (i + 3)) (\<lambda>b3.
       Inr (push_bit 24 (ucast b0) OR push_bit 16 (ucast b1) OR push_bit 8 (ucast b2) OR ucast b3)))))"

lemma vec_be32_ok:
  "i + 4 \<le> length v \<Longrightarrow> vec_be32 v i = Inr (push_bit 24 (ucast (v ! i)) OR push_bit 16 (ucast (v ! (i + 1))) OR
     push_bit 8 (ucast (v ! (i + 2))) OR ucast (v ! (i + 3)))"
  by (simp add: vec_be32_def)

definition m3ua_tlv :: "u16 \<Rightarrow> bytes \<Rightarrow> M3uaMessage \<Rightarrow> M3uaMessage result" where
  "m3ua_tlv tag val msg =
     (if tag = kTagRoutingCtx then
        (if length val \<ge> 4 then rbind (vec_be32 val 0) (\<lambda>rc. Inr (msg\<lparr>mu_routingContext := Some rc\<rparr>)) else Inr msg)
      else if tag = kTagHeartbeatData then Inr (msg\<lparr>mu_heartbeatData := val\<rparr>)
      else if tag = kTagProtocolData then
        (if length val < 12 then Inl (runtime_error ''M3UA ProtocolData TLV too short'')
         else
           rbind (rd_readBE32 (rd_new val)) (\<lambda>(opc, pr).
           rbind (rd_readBE32 pr) (\<lambda>(dpc, pr).
           rbind (rd_read8 pr) (\<lambda>(si, pr).
           rbind (rd_read8 pr) (\<lambda>(ni, pr).
           rbind (rd_read8 pr) (\<lambda>(mp, pr).
           rbind (rd_read8 pr) (\<lambda>(sls, pr).
           rbind (rd_readBytes pr (rd_remaining pr)) (\<lambda>(userData, pr).
           Inr (msg\<lparr>mu_protocolData := Some \<lparr>pd_opc = opc, pd_dpc = dpc, pd_si = si, pd_ni = ni, pd_mp = mp,
                 pd_sls = sls, pd_userData = userData\<rparr>\<rparr>)))))))))
      else Inr msg)"

text \<open>The loop over the parameters; every round reads at least the four octets of a tag and a length.\<close>

function m3ua_tlvs :: "nat \<Rightarrow> BufferReader \<Rightarrow> M3uaMessage \<Rightarrow> M3uaMessage result" where
  "m3ua_tlvs bodyEnd r msg =
     (if rd_pos r + 4 \<le> bodyEnd then
        rbind (rd_readBE16 r) (\<lambda>(tag, r1).
        rbind (rd_readBE16 r1) (\<lambda>(len, r2).
        if len < 4 then Inl (runtime_error ''M3UA TLV: length < 4'')
        else
          let valueLen = unat len - 4 in
          if rd_pos r2 + valueLen > bodyEnd then Inl (runtime_error ''M3UA TLV: value extends past message'')
          else
            rbind (rd_readBytes r2 valueLen) (\<lambda>(val, r3).
            rbind (if m3ua_pad valueLen > 0 \<and> rd_pos r3 + m3ua_pad valueLen \<le> bodyEnd
                   then rd_readBytes r3 (m3ua_pad valueLen) else Inr ([], r3)) (\<lambda>(_, r4).
            rbind (m3ua_tlv tag val msg) (\<lambda>msg'.
            m3ua_tlvs bodyEnd r4 msg')))))
      else Inr msg)"
  by pat_completeness auto
termination
  by (relation "measure (\<lambda>(bodyEnd, r, _). bodyEnd - rd_pos r)")
    (auto dest!: rd_readBE16_pos simp: rd_readBytes_ok split: if_splits)

declare m3ua_tlvs.simps [simp del]

definition m3ua_decode :: "bytes \<Rightarrow> M3uaMessage option result" where
  "m3ua_decode data =
     (if length data < kCommonHeaderSize then Inr None
      else
        rbind (rd_read8 (rd_new data)) (\<lambda>(version, r).
        rbind (rd_read8 r) (\<lambda>(_, r).
        rbind (rd_read8 r) (\<lambda>(msgClass, r).
        rbind (rd_read8 r) (\<lambda>(msgType, r).
        rbind (rd_readBE32 r) (\<lambda>(totalLen, r).
        if version \<noteq> kVersion then Inl (runtime_error ''M3UA: unexpected version'')
        else if unat totalLen < kCommonHeaderSize then Inl (runtime_error ''M3UA: length < header size'')
        else if length data < unat totalLen then Inr None
        else
          rbind (m3ua_tlvs (unat totalLen) r
                   \<lparr>mu_msgClass = msgClass, mu_msgType = msgType, mu_routingContext = None, mu_protocolData = None,
                    mu_heartbeatData = []\<rparr>) (\<lambda>msg.
          Inr (Some msg))))))))"

section \<open>Stream reassembly\<close>

record M3uaDecoder =
  m3ua_buf :: bytes

definition m3ua_new :: M3uaDecoder where
  "m3ua_new = \<lparr>m3ua_buf = []\<rparr>"

definition m3ua_feed :: "M3uaDecoder \<Rightarrow> bytes \<Rightarrow> M3uaDecoder" where
  "m3ua_feed d data = d\<lparr>m3ua_buf := m3ua_buf d @ data\<rparr>"

definition m3ua_next :: "M3uaDecoder \<Rightarrow> M3uaMessage option result \<times> M3uaDecoder" where
  "m3ua_next d =
     (let buf = m3ua_buf d in
      if length buf < kCommonHeaderSize then (Inr None, d)
      else
        case vec_be32 buf 4 of Inl e \<Rightarrow> (Inl e, d) | Inr totalLen \<Rightarrow>
        if totalLen > kMaxM3uaMessageSize then
          (Inl (runtime_error ''M3UA: oversized message (possible DoS)''), d\<lparr>m3ua_buf := []\<rparr>)
        else if length buf < unat totalLen then (Inr None, d)
        else (rbind (vec_range buf 0 (unat totalLen)) m3ua_decode, d\<lparr>m3ua_buf := drop (unat totalLen) buf\<rparr>))"

text \<open>The lengths are checked before the accesses.\<close>

lemma m3ua_next_eq:
  "m3ua_next d =
     (let buf = m3ua_buf d;
          totalLen = (push_bit 24 (ucast (buf ! 4)) OR push_bit 16 (ucast (buf ! 5)) OR
            push_bit 8 (ucast (buf ! 6)) OR ucast (buf ! 7) :: u32) in
      if length buf < kCommonHeaderSize then (Inr None, d)
      else if totalLen > kMaxM3uaMessageSize then
        (Inl (runtime_error ''M3UA: oversized message (possible DoS)''), d\<lparr>m3ua_buf := []\<rparr>)
      else if length buf < unat totalLen then (Inr None, d)
      else (m3ua_decode (take (unat totalLen) buf), d\<lparr>m3ua_buf := drop (unat totalLen) buf\<rparr>))"
  by (simp add: m3ua_next_def vec_be32_ok wire_consts Let_def)

lemma m3ua_next_consumes:
  assumes "m3ua_next d = (Inr (Some m), d')"
  shows "8 + length (m3ua_buf d') \<le> length (m3ua_buf d)"
  using assms by (auto simp: m3ua_next_eq m3ua_decode_def Let_def wire_consts split: if_splits)

lemma m3ua_next_shrinks: "m3ua_next d = (Inr (Some m), d') \<Longrightarrow> length (m3ua_buf d') < length (m3ua_buf d)"
  using m3ua_next_consumes by fastforce

lemma m3ua_next_no_growth: "length (m3ua_buf (snd (m3ua_next d))) \<le> length (m3ua_buf d)"
  by (simp add: m3ua_next_eq Let_def)

text \<open>\<open>while (auto msg = decoder_.next()) ...\<close>\<close>

function m3ua_drain :: "M3uaDecoder \<Rightarrow> M3uaMessage list \<times> exc option \<times> M3uaDecoder" where
  "m3ua_drain d =
     (case m3ua_next d of
        (Inl e, d') \<Rightarrow> ([], Some e, d')
      | (Inr None, d') \<Rightarrow> ([], None, d')
      | (Inr (Some m), d') \<Rightarrow> (case m3ua_drain d' of (ms, e, d'') \<Rightarrow> (m # ms, e, d'')))"
  by pat_completeness auto
termination
  by (relation "measure (\<lambda>d. length (m3ua_buf d))") (auto dest: m3ua_next_shrinks [OF sym])

declare m3ua_drain.simps [simp del]

section \<open>What the encoder writes\<close>

definition mu_tlv :: "u16 \<Rightarrow> bytes \<Rightarrow> bytes" where
  "mu_tlv tag v =
     (let len = of_nat (4 + length v) :: u16
      in [ucast (drop_bit 8 tag AND 0xFF), ucast (tag AND 0xFF), ucast (drop_bit 8 len AND 0xFF), ucast (len AND 0xFF)] @
         v @ replicate (m3ua_pad (length v)) 0)"

definition be32 :: "u32 \<Rightarrow> bytes" where
  "be32 v = [ucast (drop_bit 24 v AND 0xFF), ucast (drop_bit 16 v AND 0xFF), ucast (drop_bit 8 v AND 0xFF),
     ucast (v AND 0xFF)]"

definition pd_bytes :: "ProtocolData \<Rightarrow> bytes" where
  "pd_bytes pd = be32 (pd_opc pd) @ be32 (pd_dpc pd) @ [pd_si pd, pd_ni pd, pd_mp pd, pd_sls pd] @ pd_userData pd"

definition mu_body :: "M3uaMessage \<Rightarrow> bytes" where
  "mu_body m =
     (case mu_routingContext m of None \<Rightarrow> [] | Some rc \<Rightarrow> mu_tlv kTagRoutingCtx (be32 rc)) @
     (if mu_heartbeatData m \<noteq> [] then mu_tlv kTagHeartbeatData (mu_heartbeatData m) else []) @
     (case mu_protocolData m of None \<Rightarrow> [] | Some pd \<Rightarrow> mu_tlv kTagProtocolData (pd_bytes pd))"

lemma wr_pad: "wr_buf (foldl (\<lambda>w _. wr_write8 w 0) w [0 ..< n]) = wr_buf w @ replicate n 0"
  by (induction n) (simp_all add: writer_simps replicate_append_same)

lemma m3ua_writeTlv_bytes [writer_simps]: "wr_buf (m3ua_writeTlv w tag v) = wr_buf w @ mu_tlv tag v"
  by (simp add: m3ua_writeTlv_def mu_tlv_def Let_def wr_pad writer_simps)

lemma m3ua_encode_bytes:
  "m3ua_encode m = [kVersion, 0, mu_msgClass m, mu_msgType m] @ be32 (of_nat (8 + length (mu_body m))) @ mu_body m"
  by (simp add: m3ua_encode_def mu_body_def m3ua_writeTlvU32_def Let_def writer_simps be32_def pd_bytes_def
      wire_consts split: option.split)

lemma length_mu_tlv: "length (mu_tlv tag v) \<le> length v + 7"
  by (simp add: mu_tlv_def Let_def m3ua_pad_def)

lemma length_be32 [simp]: "length (be32 v) = 4"
  by (simp add: be32_def)

lemma rd_readBE32_be32 [reader_simps]: "rd_readBE32 (rd_at pre (be32 v @ xs)) = Inr (v, rd_at (pre @ be32 v) xs)"
  by (simp add: be32_def rd_readBE32_at be32_join)

section \<open>Parameters in front of the decoder\<close>

interpretation mu: tlv_loop "\<lambda>r. m3ua_tlvs (length (rd_data r)) r"
  by unfold_locales (simp add: m3ua_tlvs.simps)

lemma consumes_mu_tlv:
  assumes "length v \<le> 65531" and tlv: "\<And>s. m3ua_tlv tag v s = Inr (f s)"
  shows "mu.consumes (mu_tlv tag v) f"
proof (rule mu.consumesI)
  fix pre rest s
  let ?len = "of_nat (4 + length v) :: u16" and ?pad = "replicate (m3ua_pad (length v)) (0 :: byte)"
  let ?h = "[ucast (drop_bit 8 tag AND 0xFF), ucast (tag AND 0xFF), ucast (drop_bit 8 ?len AND 0xFF), ucast (?len AND 0xFF)]"
  have len: "unat ?len = 4 + length v" using assms(1) by (simp add: unat_of_nat del: of_nat_add)
  then have ge: "\<not> ?len < 4" by (simp add: word_less_nat_alt del: of_nat_add)
  have pad: "rd_readBytes (rd_at pre' (?pad @ rest)) (m3ua_pad (length v)) = Inr (?pad, rd_at (pre' @ ?pad) rest)" for pre'
    by (rule rd_readBytes_at) simp
  have val: "rd_readBytes (rd_at pre' (v @ ?pad @ rest)) (length v) = Inr (v, rd_at (pre' @ v) (?pad @ rest))" for pre'
    by (rule rd_readBytes_at) simp
  have h: "rd_readBE16 (rd_at pre (?h @ v @ ?pad @ rest)) = Inr (tag, rd_at (pre @ take 2 ?h) (drop 2 ?h @ v @ ?pad @ rest))"
    "rd_readBE16 (rd_at (pre @ take 2 ?h) (drop 2 ?h @ v @ ?pad @ rest)) = Inr (?len, rd_at (pre @ ?h) (v @ ?pad @ rest))"
    using be16_join [of tag] be16_join [of ?len] by (simp_all add: rd_readBE16_at del: of_nat_add)
  show "m3ua_tlvs (length (rd_data (rd_at pre (mu_tlv tag v @ rest)))) (rd_at pre (mu_tlv tag v @ rest)) s =
      m3ua_tlvs (length (rd_data (rd_at (pre @ mu_tlv tag v) rest))) (rd_at (pre @ mu_tlv tag v) rest) (f s)"
    by (subst m3ua_tlvs.simps) (use h ge in \<open>simp add: mu_tlv_def Let_def len val pad tlv del: of_nat_add\<close>)
qed

lemma m3ua_tlv_tags:
  "m3ua_tlv kTagRoutingCtx (be32 rc) s = Inr (s\<lparr>mu_routingContext := Some rc\<rparr>)"
  "m3ua_tlv kTagHeartbeatData hb s = Inr (s\<lparr>mu_heartbeatData := hb\<rparr>)"
  "m3ua_tlv kTagProtocolData (pd_bytes pd) s = Inr (s\<lparr>mu_protocolData := Some pd\<rparr>)"
  by (simp_all add: m3ua_tlv_def wire_consts pd_bytes_def rd_new_at reader_simps)
    (simp add: be32_def vec_be32_def be32_join)

text \<open>A message whose encoding does not exceed what the stream decoder accepts.\<close>

definition mu_good :: "M3uaMessage \<Rightarrow> bool" where
  "mu_good m \<longleftrightarrow> length (m3ua_encode m) \<le> 65536"

lemma mu_good_lengths:
  assumes "mu_good m"
  shows "length (mu_heartbeatData m) \<le> 65531" "mu_protocolData m = Some pd \<Longrightarrow> length (pd_bytes pd) \<le> 65531"
    "unat (of_nat (8 + length (mu_body m)) :: u32) = 8 + length (mu_body m)" "length (mu_body m) \<le> 65528"
proof -
  have body: "length (mu_body m) \<le> 65528" using assms by (simp add: mu_good_def m3ua_encode_bytes)
  have tlv: "length v \<le> length (mu_tlv t v) - 4" for t v by (simp add: mu_tlv_def Let_def)
  show "length (mu_body m) \<le> 65528" by (fact body)
  show "length (mu_heartbeatData m) \<le> 65531"
    using body tlv [of "mu_heartbeatData m" kTagHeartbeatData] by (auto simp: mu_body_def split: if_splits)
  show "length (pd_bytes pd) \<le> 65531" if "mu_protocolData m = Some pd"
    using body tlv [of "pd_bytes pd" kTagProtocolData] that by (auto simp: mu_body_def)
  show "unat (of_nat (8 + length (mu_body m)) :: u32) = 8 + length (mu_body m)"
    using body by (simp add: unat_of_nat del: of_nat_add)
qed

lemma consumes_mu_body:
  assumes "mu_good m"
  shows "\<exists>f. mu.consumes (mu_body m) f \<and>
    f \<lparr>mu_msgClass = mu_msgClass m, mu_msgType = mu_msgType m, mu_routingContext = None, mu_protocolData = None,
       mu_heartbeatData = []\<rparr> = m"
proof -
  note len = mu_good_lengths [OF assms]
  let ?f1 = "case mu_routingContext m of None \<Rightarrow> \<lambda>s. s | Some rc \<Rightarrow> (\<lambda>s. s\<lparr>mu_routingContext := Some rc\<rparr>)"
  let ?f2 = "if mu_heartbeatData m \<noteq> [] then (\<lambda>s. s\<lparr>mu_heartbeatData := mu_heartbeatData m\<rparr>) else (\<lambda>s. s)"
  let ?f3 = "case mu_protocolData m of None \<Rightarrow> \<lambda>s. s | Some pd \<Rightarrow> (\<lambda>s. s\<lparr>mu_protocolData := Some pd\<rparr>)"
  have 1: "mu.consumes (case mu_routingContext m of None \<Rightarrow> [] | Some rc \<Rightarrow> mu_tlv kTagRoutingCtx (be32 rc)) ?f1"
    by (intro mu.consumes_option consumes_mu_tlv) (simp_all add: m3ua_tlv_tags)
  have 2: "mu.consumes (if mu_heartbeatData m \<noteq> [] then mu_tlv kTagHeartbeatData (mu_heartbeatData m) else []) ?f2"
    by (intro mu.consumes_if consumes_mu_tlv) (use len in \<open>simp_all add: m3ua_tlv_tags\<close>)
  have 3: "mu.consumes (case mu_protocolData m of None \<Rightarrow> [] | Some pd \<Rightarrow> mu_tlv kTagProtocolData (pd_bytes pd)) ?f3"
    by (intro mu.consumes_option consumes_mu_tlv) (use len in \<open>simp_all add: m3ua_tlv_tags\<close>)
  have "mu.consumes (mu_body m) (\<lambda>s. ?f3 (?f2 (?f1 s)))"
    unfolding mu_body_def by (rule mu.consumes_append [OF 1 mu.consumes_append [OF 2 3]])
  then show ?thesis
    by (intro exI [of _ "\<lambda>s. ?f3 (?f2 (?f1 s))"]) (cases m; simp split: option.split)
qed

lemma m3ua_decode_bytes:
  assumes "mu_good m"
  shows "m3ua_decode (m3ua_encode m) = Inr (Some m)"
proof -
  let ?n = "of_nat (8 + length (mu_body m)) :: u32"
  let ?h = "[kVersion, 0, mu_msgClass m, mu_msgType m]"
  note n = mu_good_lengths(3) [OF assms]
  obtain f where f: "mu.consumes (mu_body m) f"
    "f \<lparr>mu_msgClass = mu_msgClass m, mu_msgType = mu_msgType m, mu_routingContext = None, mu_protocolData = None,
       mu_heartbeatData = []\<rparr> = m"
    using consumes_mu_body [OF assms] by blast
  have "m3ua_tlvs (8 + length (mu_body m)) (rd_at (?h @ be32 ?n) (mu_body m))
      \<lparr>mu_msgClass = mu_msgClass m, mu_msgType = mu_msgType m, mu_routingContext = None, mu_protocolData = None,
       mu_heartbeatData = []\<rparr> = Inr m"
    using mu.loop_consumes [OF f(1), of "?h @ be32 ?n"] f(2) by simp
  then show ?thesis
    using n by (simp add: m3ua_decode_def m3ua_encode_bytes wire_consts rd_new_at reader_simps del: of_nat_add)
qed

section \<open>Messages in a stream\<close>

lemma m3ua_next_wire:
  assumes "mu_good m" and "m3ua_buf d = m3ua_encode m @ rest"
  shows "m3ua_next d = (Inr (Some m), d\<lparr>m3ua_buf := rest\<rparr>)"
proof -
  let ?n = "of_nat (8 + length (mu_body m)) :: u32"
  note n = mu_good_lengths(3) [OF assms(1)]
  have len: "length (m3ua_encode m) = 8 + length (mu_body m)" by (simp add: m3ua_encode_bytes)
  have small: "\<not> ?n > kMaxM3uaMessageSize"
    using n mu_good_lengths(4) [OF assms(1)] by (simp add: word_less_nat_alt wire_consts del: of_nat_add)
  have "push_bit 24 (ucast (m3ua_buf d ! 4)) OR push_bit 16 (ucast (m3ua_buf d ! 5)) OR
      push_bit 8 (ucast (m3ua_buf d ! 6)) OR ucast (m3ua_buf d ! 7) = ?n"
    using be32_join [of ?n] by (simp add: assms(2) m3ua_encode_bytes be32_def del: of_nat_add)
  then show ?thesis
    using small n len m3ua_decode_bytes [OF assms(1)]
    by (simp add: m3ua_next_eq Let_def assms(2) wire_consts del: of_nat_add)
qed

lemma m3ua_next_partial:
  assumes "mu_good m" and "strict_prefix (m3ua_buf d) (m3ua_encode m)"
  shows "m3ua_next d = (Inr None, d)"
proof (cases "length (m3ua_buf d) < 8")
  case True
  then show ?thesis by (simp add: m3ua_next_eq wire_consts)
next
  case False
  let ?n = "of_nat (8 + length (mu_body m)) :: u32"
  note n = mu_good_lengths(3) [OF assms(1)]
  have small: "\<not> ?n > kMaxM3uaMessageSize"
    using n mu_good_lengths(4) [OF assms(1)] by (simp add: word_less_nat_alt wire_consts del: of_nat_add)
  from assms(2) obtain xs where xs: "m3ua_encode m = m3ua_buf d @ xs" "xs \<noteq> []"
    by (auto simp: strict_prefix_def prefix_def)
  have "length (m3ua_encode m) = 8 + length (mu_body m)" by (simp add: m3ua_encode_bytes)
  then have short: "length (m3ua_buf d) < 8 + length (mu_body m)" using xs by (cases xs) simp_all
  have at: "m3ua_buf d ! i = m3ua_encode m ! i" if "i < 8" for i
    using that False xs(1) by (simp add: nth_append)
  have "push_bit 24 (ucast (m3ua_buf d ! 4)) OR push_bit 16 (ucast (m3ua_buf d ! 5)) OR
      push_bit 8 (ucast (m3ua_buf d ! 6)) OR ucast (m3ua_buf d ! 7) = ?n"
    using be32_join [of ?n] by (simp add: at m3ua_encode_bytes be32_def del: of_nat_add)
  then show ?thesis
    using small n short by (simp add: m3ua_next_eq Let_def wire_consts del: of_nat_add)
qed

interpretation m3ua_stream: stream_framer m3ua_feed m3ua_next m3ua_drain m3ua_buf m3ua_encode mu_good
proof unfold_locales
  show "m3ua_buf (m3ua_feed d bs) = m3ua_buf d @ bs" for d bs
    by (simp add: m3ua_feed_def)
  show "\<exists>d'. m3ua_next d = (Inr (Some m), d') \<and> m3ua_buf d' = rest"
    if "mu_good m" and "m3ua_buf d = m3ua_encode m @ rest" for m d rest
    using m3ua_next_wire [OF that] by simp
  show "m3ua_next d = (Inr None, d)" if "m3ua_buf d = []" for d
    using that by (simp add: m3ua_next_eq wire_consts)
qed (fact m3ua_next_partial m3ua_drain.simps)+

section \<open>No undefined behaviour\<close>

lemma no_ub_m3ua_tlv [simp]: "no_ub (m3ua_tlv tag v s)"
  unfolding m3ua_tlv_def
  by (cases "4 \<le> length v") (simp add: vec_be32_ok; intro no_ub_intros no_ub_reads impI; simp)+

lemma no_ub_m3ua_tlvs [simp]: "no_ub (m3ua_tlvs n r s)"
proof (induction n r s rule: m3ua_tlvs.induct)
  case (1 n r s)
  note IH = this
  show ?case
  proof (subst m3ua_tlvs.simps, split if_split, intro conjI impI no_ub_rbind, goal_cases)
    case (2 x)
    then show ?case
      using IH by (cases x) (auto simp: Let_def intro!: no_ub_rbind split: prod.split)
  qed simp_all
qed

lemma no_ub_m3ua_decode [simp]: "no_ub (m3ua_decode data)"
  unfolding m3ua_decode_def by (intro no_ub_intros no_ub_reads) simp_all

lemma no_ub_m3ua_next: "no_ub (fst (m3ua_next d))"
  by (simp add: m3ua_next_eq Let_def)

section \<open>Properties\<close>

text \<open>
  C26: M3UA messages survive the wire however TCP cuts the stream.  If every message encodes to at
  most 65536 octets and the encodings are concatenated and fed to the decoder in arbitrary pieces,
  drained after each, the decoder hands out exactly the messages, with routing context, heartbeat
  data and protocol data, in order and without an exception, and ends with an empty buffer.
\<close>

theorem m3ua_receive_messages:
  assumes "list_all (\<lambda>m. length (m3ua_encode m) \<le> 65536) ms" and "concat chunks = concat (map m3ua_encode ms)"
  shows "\<exists>d. receive m3ua_feed m3ua_drain m3ua_new chunks = (ms, None, d) \<and> m3ua_buf d = []"
  using m3ua_stream.receive_segmentation [of ms m3ua_new chunks] assms
  by (simp add: m3ua_new_def mu_good_def list_all_iff)

theorem m3ua_receive_messages_witness:
  "receive m3ua_feed m3ua_drain m3ua_new [[1, 0, 3, 1, 0], [0, 0, 8, 1, 0, 3, 5, 0, 0, 0, 16, 0, 9, 0, 5, 42], [0, 0, 0]] =
     ([makeAspUp, makeHeartbeat [42]], None, \<lparr>m3ua_buf = []\<rparr>)"
proof -
  have wire: "map m3ua_encode [makeAspUp, makeHeartbeat [42]] =
      [[1, 0, 3, 1, 0, 0, 0, 8], [1, 0, 3, 5, 0, 0, 0, 16, 0, 9, 0, 5, 42, 0, 0, 0]]"
    by code_simp
  then have "list_all (\<lambda>m. length (m3ua_encode m) \<le> 65536) [makeAspUp, makeHeartbeat [42]]" by simp
  from m3ua_receive_messages [OF this,
      of "[[1, 0, 3, 1, 0], [0, 0, 8, 1, 0, 3, 5, 0, 0, 0, 16, 0, 9, 0, 5, 42], [0, 0, 0]]"]
  show ?thesis unfolding wire by auto
qed

text \<open>
  C36: A length field of zero stalls the reassembler for good.  The call removes nothing and reports
  that the message is incomplete, so however many octets and complete messages arrive afterwards,
  nothing is ever handed out again, and the buffer grows with every read.
\<close>

theorem m3ua_zero_length_stalls:
  assumes "8 \<le> length (m3ua_buf d)" and "take 4 (drop 4 (m3ua_buf d)) = [0, 0, 0, 0]"
  shows "receive m3ua_feed m3ua_drain d chunks = ([], None, m3ua_feed d (concat chunks))"
  using assms
proof (induction chunks arbitrary: d)
  case (Cons c cs)
  let ?d = "m3ua_feed d c"
  have len: "8 \<le> length (m3ua_buf ?d)" and zero: "take 4 (drop 4 (m3ua_buf ?d)) = [0, 0, 0, 0]"
    using Cons.prems by (simp_all add: m3ua_feed_def)
  have "take 4 (drop 4 (m3ua_buf ?d)) = replicate 4 0" using zero by (simp add: eval_nat_numeral)
  then have "take 4 (drop 4 (m3ua_buf ?d)) ! i = 0" if "i < 4" for i using that by (simp del: take_drop)
  then have at: "m3ua_buf ?d ! (4 + i) = 0" if "i < 4" for i using that len by (simp del: take_drop)
  have "m3ua_buf ?d ! 4 = 0" "m3ua_buf ?d ! 5 = 0" "m3ua_buf ?d ! 6 = 0" "m3ua_buf ?d ! 7 = 0"
    using at [of 0] at [of 1] at [of 2] at [of 3] by simp_all
  then have "m3ua_next ?d = (Inr None, ?d)"
    using len by (simp add: m3ua_next_eq wire_consts m3ua_decode_def)
  then have "m3ua_drain ?d = ([], None, ?d)" by (simp add: m3ua_drain.simps [of ?d])
  moreover have "receive m3ua_feed m3ua_drain ?d cs = ([], None, m3ua_feed ?d (concat cs))"
    using Cons.IH [OF len zero] .
  moreover have "m3ua_feed ?d (concat cs) = m3ua_feed d (c @ concat cs)" by (simp add: m3ua_feed_def)
  ultimately show ?case by simp
qed (simp add: m3ua_feed_def)

theorem m3ua_zero_length_stalls_witness:
  "\<exists>d. receive m3ua_feed m3ua_drain \<lparr>m3ua_buf = [1, 0, 3, 1, 0, 0, 0, 0]\<rparr> [m3ua_encode makeAspUp] = ([], None, d)"
  using m3ua_zero_length_stalls [of "\<lparr>m3ua_buf = [1, 0, 3, 1, 0, 0, 0, 0]\<rparr>" "[m3ua_encode makeAspUp]"] by simp

text \<open>
  C28: The receive loop ends on every input.  Whatever octets the gateway sends, malformed ones
  included, the loop over \<open>next\<close> returns, and each turn has consumed at least the eight octets of a
  header: it hands out at most one message per eight octets buffered, and what it leaves in the
  buffer is never more than what was there.
\<close>

theorem m3ua_drain_terminates:
  "case m3ua_drain d of (ms, e, d') \<Rightarrow> 8 * length ms + length (m3ua_buf d') \<le> length (m3ua_buf d)"
proof (induction d rule: m3ua_drain.induct)
  case (1 d)
  obtain r d1 where nx: "m3ua_next d = (r, d1)" by force
  have le: "length (m3ua_buf d1) \<le> length (m3ua_buf d)" using m3ua_next_no_growth [of d] nx by simp
  show ?case
  proof (cases "\<exists>m. r = Inr (Some m)")
    case True
    then obtain m where r: "r = Inr (Some m)" by blast
    then have "8 + length (m3ua_buf d1) \<le> length (m3ua_buf d)" using m3ua_next_consumes nx by blast
    then show ?thesis
      using 1 [OF nx [symmetric] r refl] by (auto simp: m3ua_drain.simps [of d] nx r split: prod.splits)
  next
    case False
    then show ?thesis
      using le by (auto simp: m3ua_drain.simps [of d] nx split: sum.splits option.splits)
  qed
qed

end
