(* ===== verification/SccpCodec.thy ===== *)
theory SccpCodec
  imports Bcd
begin

text \<open>
  \<open>src/transport/ScccpTypes.hpp\<close>, \<open>ScccpCodec.hpp\<close> and \<open>ScccpCodec.cpp\<close>: SCCP addresses and Unitdata
  (UDT) messages, the envelope of every MAP PDU on the HLR side.  A vector built from an iterator
  range that leaves the message is undefined behaviour in the code and a value of its own here.
\<close>

section \<open>Constants\<close>

definition kMsgUdt :: byte where [wire_consts]: "kMsgUdt = 0x09"
definition kMsgUdts :: byte where [wire_consts]: "kMsgUdts = 0x0a"
definition kMsgXudt :: byte where [wire_consts]: "kMsgXudt = 0x11"
definition kProtoClass0 :: byte where [wire_consts]: "kProtoClass0 = 0x00"
definition kProtoClass0Ret :: byte where [wire_consts]: "kProtoClass0Ret = 0x08"
definition kAiRoutByGt :: byte where [wire_consts]: "kAiRoutByGt = 0x00"
definition kAiRoutBySsn :: byte where [wire_consts]: "kAiRoutBySsn = 0x80"
definition kGtiNoGt :: byte where [wire_consts]: "kGtiNoGt = 0x00"
definition kGtiNature :: byte where [wire_consts]: "kGtiNature = 0x10"
definition kGtiTtOnly :: byte where [wire_consts]: "kGtiTtOnly = 0x20"
definition kGtiTtNpEs :: byte where [wire_consts]: "kGtiTtNpEs = 0x30"
definition kGtiTtNpEsNai :: byte where [wire_consts]: "kGtiTtNpEsNai = 0x40"
definition kAiSsnPresent :: byte where [wire_consts]: "kAiSsnPresent = 0x08"
definition kSsnHlr :: byte where [wire_consts]: "kSsnHlr = 0x06"
definition kSsnVlr :: byte where [wire_consts]: "kSsnVlr = 0x07"
definition kSsnSgsn :: byte where [wire_consts]: "kSsnSgsn = 0x08"
definition kSsnGgsn :: byte where [wire_consts]: "kSsnGgsn = 0x09"
definition kNpIsdnTelephony :: byte where [wire_consts]: "kNpIsdnTelephony = 0x10"
definition kEsBcdOdd :: byte where [wire_consts]: "kEsBcdOdd = 0x01"
definition kEsBcdEven :: byte where [wire_consts]: "kEsBcdEven = 0x02"
definition kNaiInternational :: byte where [wire_consts]: "kNaiInternational = 0x04"
definition kTtInternational :: byte where [wire_consts]: "kTtInternational = 0x00"

section \<open>Addresses and messages\<close>

record SccpAddress =
  sa_routeByGt :: bool
  sa_digits :: string
  sa_tt :: byte
  sa_np :: byte
  sa_nai :: byte
  sa_ssnPresent :: bool
  sa_ssn :: byte
  sa_pcPresent :: bool
  sa_pc :: u32

definition SccpAddress_init :: SccpAddress where
  "SccpAddress_init = \<lparr>sa_routeByGt = True, sa_digits = [], sa_tt = kTtInternational, sa_np = kNpIsdnTelephony,
     sa_nai = kNaiInternational, sa_ssnPresent = False, sa_ssn = 0, sa_pcPresent = False, sa_pc = 0\<rparr>"

record SccpUdt =
  u_protocolClass :: byte
  u_calledParty :: SccpAddress
  u_callingParty :: SccpAddress
  u_data :: bytes

definition makeGtAddress :: "string \<Rightarrow> byte \<Rightarrow> bool \<Rightarrow> SccpAddress" where
  "makeGtAddress digits ssn hasSsn =
     (let a = SccpAddress_init\<lparr>sa_routeByGt := True, sa_digits := digits, sa_tt := kTtInternational,
                sa_np := kNpIsdnTelephony, sa_nai := kNaiInternational\<rparr>
      in if hasSsn then a\<lparr>sa_ssnPresent := True, sa_ssn := ssn\<rparr> else a)"

definition makeSsnAddress :: "u32 \<Rightarrow> byte \<Rightarrow> SccpAddress" where
  "makeSsnAddress pc ssn =
     SccpAddress_init\<lparr>sa_routeByGt := False, sa_pcPresent := True, sa_pc := pc, sa_ssnPresent := True,
       sa_ssn := ssn\<rparr>"

section \<open>Address codec\<close>

definition packBcd :: "string \<Rightarrow> bytes" where
  "packBcd digits = packDigits digits"

text \<open>The loop over the octets; the high nibble of the last one is dropped when the count is odd.\<close>

fun unpackBcd :: "bytes \<Rightarrow> bool \<Rightarrow> string" where
  "unpackBcd [] oddLen = []"
| "unpackBcd [b] oddLen =
     digitChar (b AND 0x0F) # (if oddLen then [] else [digitChar (drop_bit 4 b AND 0x0F)])"
| "unpackBcd (b # c # bs) oddLen =
     digitChar (b AND 0x0F) # digitChar (drop_bit 4 b AND 0x0F) # unpackBcd (c # bs) oddLen"

definition encodeAddress :: "SccpAddress \<Rightarrow> bytes" where
  "encodeAddress addr =
     (let w = wr_new in
      if sa_routeByGt addr then
        let ai = kAiRoutByGt OR kGtiTtNpEsNai;
            ai = (if sa_ssnPresent addr then ai OR kAiSsnPresent else ai);
            w = wr_write8 w ai;
            w = (if sa_ssnPresent addr then wr_write8 w (sa_ssn addr) else w);
            bcd = packBcd (sa_digits addr);
            odd = (length (sa_digits addr) mod 2 \<noteq> 0);
            es = (if odd then kEsBcdOdd else kEsBcdEven);
            nai = (if odd then sa_nai addr OR 0x80 else sa_nai addr);
            w = wr_write8 w (sa_tt addr);
            w = wr_write8 w (sa_np addr OR es);
            w = wr_write8 w nai;
            w = wr_writeBytes w bcd
        in wr_buf w
      else
        let ai = kAiRoutBySsn OR kAiSsnPresent;
            ai = (if sa_pcPresent addr then ai OR 0x01 else ai);
            w = wr_write8 w ai;
            w = (if sa_ssnPresent addr then wr_write8 w (sa_ssn addr) else w);
            w = (if sa_pcPresent addr then
                   wr_write8 (wr_write8 w (ucast (sa_pc addr AND 0xFF)))
                     (ucast (drop_bit 8 (sa_pc addr) AND 0x3F))
                 else w)
        in wr_buf w)"

definition decodeAddress :: "BufferReader \<Rightarrow> SccpAddress result" where
  "decodeAddress r =
     rbind (rd_read8 r) (\<lambda>(ai, r).
     let hasSsn = (ai AND kAiSsnPresent \<noteq> 0);
         gti = ai AND 0x70;
         hasGt = (gti \<noteq> kGtiNoGt);
         addr = SccpAddress_init\<lparr>sa_routeByGt := (ai AND kAiRoutBySsn = 0), sa_ssnPresent := hasSsn\<rparr>
     in rbind (if hasSsn then rbind (rd_read8 r) (\<lambda>(ssn, r). Inr (addr\<lparr>sa_ssn := ssn\<rparr>, r))
               else Inr (addr, r)) (\<lambda>(addr, r).
        if hasGt then
          if gti = kGtiTtNpEsNai then
            rbind (rd_read8 r) (\<lambda>(tt, r).
            rbind (rd_read8 r) (\<lambda>(npEs, r).
            rbind (rd_read8 r) (\<lambda>(naiRaw, r).
            rbind (rd_readBytes r (rd_remaining r)) (\<lambda>(bcd, r).
            Inr (addr\<lparr>sa_tt := tt, sa_np := npEs AND 0xF0, sa_nai := naiRaw AND 0x7F,
                   sa_digits := unpackBcd bcd (naiRaw AND 0x80 \<noteq> 0)\<rparr>)))))
          else rbind (rd_readBytes r (rd_remaining r)) (\<lambda>_. Inr addr)
        else Inr addr))"

section \<open>UDT codec\<close>

definition encodeUdt :: "SccpUdt \<Rightarrow> bytes" where
  "encodeUdt udt =
     (let called = encodeAddress (u_calledParty udt);
          calling = encodeAddress (u_callingParty udt);
          ptr1 = 3;
          ptr2 = of_nat (3 + length called);
          ptr3 = of_nat (3 + length called + length calling);
          w = wr_write8 wr_new kMsgUdt;
          w = wr_write8 w (u_protocolClass udt);
          w = wr_write8 w ptr1;
          w = wr_write8 w ptr2;
          w = wr_write8 w ptr3;
          w = wr_write8 w (of_nat (length called));
          w = wr_writeBytes w called;
          w = wr_write8 w (of_nat (length calling));
          w = wr_writeBytes w calling;
          w = wr_write8 w (of_nat (length (u_data udt)));
          w = wr_writeBytes w (u_data udt)
      in wr_buf w)"

definition decodeUdt :: "bytes \<Rightarrow> SccpUdt result" where
  "decodeUdt raw =
     (if length raw < 5 then Inl (runtime_error ''SCCP UDT too short'')
      else
        rbind (rd_read8 (rd_new raw)) (\<lambda>(msgType, r).
        if msgType \<noteq> kMsgUdt then Inl (runtime_error ''SCCP: not a UDT message'')
        else
        rbind (rd_read8 r) (\<lambda>(protoClass, r).
        let ptr1Pos = rd_pos r in
        rbind (rd_read8 r) (\<lambda>(ptr1, r).
        let ptr2Pos = rd_pos r in
        rbind (rd_read8 r) (\<lambda>(ptr2, r).
        let ptr3Pos = rd_pos r in
        rbind (rd_read8 r) (\<lambda>(ptr3, r).
        let calledLenPos = ptr1Pos + unat ptr1 in
        if calledLenPos \<ge> length raw then Inl (runtime_error ''SCCP UDT: called party pointer out of range'')
        else
        rbind (vec_at raw calledLenPos) (\<lambda>calledLen.
        rbind (vec_range raw (calledLenPos + 1) (calledLenPos + 1 + unat calledLen)) (\<lambda>calledBytes.
        rbind (decodeAddress (rd_new calledBytes)) (\<lambda>calledAddr.
        let callingLenPos = ptr2Pos + unat ptr2 in
        if callingLenPos \<ge> length raw then Inl (runtime_error ''SCCP UDT: calling party pointer out of range'')
        else
        rbind (vec_at raw callingLenPos) (\<lambda>callingLen.
        rbind (vec_range raw (callingLenPos + 1) (callingLenPos + 1 + unat callingLen)) (\<lambda>callingBytes.
        rbind (decodeAddress (rd_new callingBytes)) (\<lambda>callingAddr.
        let dataLenPos = ptr3Pos + unat ptr3 in
        if dataLenPos \<ge> length raw then Inl (runtime_error ''SCCP UDT: data pointer out of range'')
        else
        rbind (vec_at raw dataLenPos) (\<lambda>dataLenOctet.
        let dataLen = unat dataLenOctet in
        if dataLenPos + 1 + dataLen > length raw then Inl (runtime_error ''SCCP UDT: data extends past message'')
        else
        rbind (vec_range raw (dataLenPos + 1) (dataLenPos + 1 + dataLen)) (\<lambda>data.
        Inr \<lparr>u_protocolClass = protoClass, u_calledParty = calledAddr, u_callingParty = callingAddr,
             u_data = data\<rparr>))))))))))))))"

section \<open>Addresses survive the wire\<close>

lemma unpackBcd_packBcd:
  assumes "list_all isDigit s"
  shows "unpackBcd (packBcd s) (length s mod 2 \<noteq> 0) = s"
  unfolding packBcd_def using assms
proof (induction s rule: packDigits.induct)
  case (2 c)
  then have "isDigit c" by simp
  note digitVal_bounds [OF this] digitChar_Val [OF this]
  then show ?case using nibble_low [of "digitVal c" 15] by simp
next
  case (3 c d cs)
  then have "isDigit c" "isDigit d" by simp_all
  note bounds = digitVal_bounds [OF this(1)] digitVal_bounds [OF this(2)]
    digitChar_Val [OF this(1)] digitChar_Val [OF this(2)]
  have step: "unpackBcd (b # bs) odd = digitChar (b AND 0x0F) # digitChar (drop_bit 4 b AND 0x0F) # unpackBcd bs odd"
    if "bs \<noteq> [] \<or> \<not> odd" for b bs odd
    using that by (cases bs) auto
  have "packDigits cs \<noteq> [] \<or> \<not> length (c # d # cs) mod 2 \<noteq> 0"
    by (cases cs rule: packDigits.cases) auto
  from step [OF this] 3 bounds show ?case by (simp add: nibble_low nibble_high del: drop_bit_or)
qed simp

text \<open>
  What an address means on the wire: an address routed by global title keeps everything but a point
  code, which is not written; one routed by SSN keeps its SSN only, since the point code is written
  and never read back.
\<close>

definition addr_wf :: "SccpAddress \<Rightarrow> bool" where
  "addr_wf a \<longleftrightarrow>
     (if sa_routeByGt a then list_all isDigit (sa_digits a) \<and> sa_np a AND 0x0F = 0 \<and> sa_nai a AND 0x80 = 0
      else sa_ssnPresent a)"

definition addr_view :: "SccpAddress \<Rightarrow> SccpAddress" where
  "addr_view a =
     (if sa_routeByGt a then
        a\<lparr>sa_ssn := (if sa_ssnPresent a then sa_ssn a else 0), sa_pcPresent := False, sa_pc := 0\<rparr>
      else SccpAddress_init\<lparr>sa_routeByGt := False, sa_ssnPresent := True, sa_ssn := sa_ssn a\<rparr>)"

lemma nibble_or:
  assumes "np AND 0x0F = (0 :: byte)" and "es AND 0xF0 = 0"
  shows "(np OR es) AND 0xF0 = np"
proof -
  have full: "(255 :: byte) = - 1" by simp
  have "np AND 255 = np AND 0xF0"
    using assms(1) word_ao_dist2 [of np "0x0F" "0xF0"] by simp
  then have "np AND 0xF0 = np" unfolding full by simp
  then show ?thesis using assms(2) by (simp add: bit.conj_disj_distrib2)
qed

lemma odd_flag:
  assumes "nai AND 0x80 = (0 :: byte)"
  shows "(nai OR 0x80) AND 0x7F = nai" "(nai OR 0x80) AND 0x80 \<noteq> 0" "nai AND 0x7F = nai"
proof -
  have full: "(255 :: byte) = - 1" by simp
  have "nai AND 255 = nai AND 0x7F"
    using assms word_ao_dist2 [of nai "0x80" "0x7F"] by simp
  then show "nai AND 0x7F = nai" unfolding full by simp
  then show "(nai OR 0x80) AND 0x7F = nai" by (simp add: bit.conj_disj_distrib2)
  show "(nai OR 0x80) AND 0x80 \<noteq> 0" using assms by (simp add: bit.conj_disj_distrib2)
qed

lemma decodeAddress_encodeAddress:
  assumes "addr_wf a"
  shows "decodeAddress (rd_new (encodeAddress a)) = Inr (addr_view a)"
proof (cases "sa_routeByGt a")
  case True
  with assms have a: "list_all isDigit (sa_digits a)" "sa_np a AND 0x0F = 0" "sa_nai a AND 0x80 = 0"
    by (simp_all add: addr_wf_def)
  have np: "(sa_np a OR 1) AND 0xF0 = sa_np a" "(sa_np a OR 2) AND 0xF0 = sa_np a"
    using nibble_or [OF a(2)] by simp_all
  show ?thesis
    using True a(3) unpackBcd_packBcd [OF a(1)]
    by (cases "odd (length (sa_digits a))"; cases "sa_ssnPresent a")
      (simp_all add: decodeAddress_def encodeAddress_def addr_view_def Let_def wire_consts writer_simps rd_new_at
        reader_simps np odd_flag odd_iff_mod_2_eq_one SccpAddress_init_def)
next
  case False
  with assms show ?thesis
    by (cases "sa_pcPresent a")
      (simp_all add: decodeAddress_def encodeAddress_def addr_view_def addr_wf_def Let_def wire_consts writer_simps
        rd_new_at reader_simps SccpAddress_init_def)
qed

section \<open>Messages survive the wire\<close>

lemma vec_range_at: "from = length pre \<Longrightarrow> vec_range (pre @ v @ post) from (from + length v) = Inr v"
  by (simp add: vec_range_def)

text \<open>
  The decoder past the header: one address and the data, each found through its length octet.
\<close>

definition party_at :: "bytes \<Rightarrow> nat \<Rightarrow> exc \<Rightarrow> SccpAddress result" where
  "party_at raw p e =
     (if p \<ge> length raw then Inl e
      else rbind (vec_range raw (p + 1) (p + 1 + unat (raw ! p))) (\<lambda>bs. decodeAddress (rd_new bs)))"

definition data_at :: "bytes \<Rightarrow> nat \<Rightarrow> bytes result" where
  "data_at raw p =
     (if p \<ge> length raw then Inl (runtime_error ''SCCP UDT: data pointer out of range'')
      else if p + 1 + unat (raw ! p) > length raw then Inl (runtime_error ''SCCP UDT: data extends past message'')
      else vec_range raw (p + 1) (p + 1 + unat (raw ! p)))"

lemma decodeUdt_parts:
  assumes "5 \<le> length raw" and "raw ! 0 = kMsgUdt"
  shows "decodeUdt raw =
    rbind (party_at raw (2 + unat (raw ! 2)) (runtime_error ''SCCP UDT: called party pointer out of range'')) (\<lambda>called.
    rbind (party_at raw (3 + unat (raw ! 3)) (runtime_error ''SCCP UDT: calling party pointer out of range'')) (\<lambda>calling.
    rbind (data_at raw (4 + unat (raw ! 4))) (\<lambda>data.
    Inr \<lparr>u_protocolClass = raw ! 1, u_calledParty = called, u_callingParty = calling, u_data = data\<rparr>)))"
proof -
  have read: "rd_read8 \<lparr>rd_data = raw, rd_pos = p\<rparr> = Inr (raw ! p, \<lparr>rd_data = raw, rd_pos = p + 1\<rparr>)" if "p < 5" for p
    using assms(1) that by (simp add: rd_checked rd_check_def)
  show ?thesis
    using assms by (simp add: decodeUdt_def rd_new_def [of raw] read Let_def party_at_def data_at_def rbind_assoc rbind_if
        del: One_nat_def split del: if_split cong: if_cong)
qed

text \<open>The layout of an encoded message, as a plain list of octets.\<close>

lemma encodeUdt_bytes:
  "encodeUdt u =
     (let called = encodeAddress (u_calledParty u); calling = encodeAddress (u_callingParty u)
      in [9, u_protocolClass u, 3, of_nat (3 + length called), of_nat (3 + length called + length calling)] @
         [of_nat (length called)] @ called @ [of_nat (length calling)] @ calling @
         [of_nat (length (u_data u))] @ u_data u)"
  by (simp add: encodeUdt_def Let_def writer_simps wire_consts)

text \<open>
  Decoding an encoded message: the addresses are read back, and of the data as many octets as the
  one-octet length field says, which is the length modulo 256.
\<close>

definition udt_fits :: "SccpUdt \<Rightarrow> bool" where
  "udt_fits u \<longleftrightarrow> addr_wf (u_calledParty u) \<and> addr_wf (u_callingParty u) \<and>
     length (encodeAddress (u_calledParty u)) + length (encodeAddress (u_callingParty u)) \<le> 252"

lemma decodeUdt_encoded:
  assumes dec: "decodeAddress (rd_new (encodeAddress (u_calledParty u))) = Inr a"
      "decodeAddress (rd_new (encodeAddress (u_callingParty u))) = Inr b"
    and "length (encodeAddress (u_calledParty u)) + length (encodeAddress (u_callingParty u)) \<le> 252"
  shows "decodeUdt (encodeUdt u) =
    Inr \<lparr>u_protocolClass = u_protocolClass u, u_calledParty = a,
      u_callingParty = b, u_data = take (length (u_data u) mod 256) (u_data u)\<rparr>"
proof -
  define A where "A = encodeAddress (u_calledParty u)"
  define B where "B = encodeAddress (u_callingParty u)"
  let ?d = "u_data u"
  let ?n = "length ?d mod 256"
  let ?hd = "[9, u_protocolClass u, 3, of_nat (3 + length A), of_nat (3 + length A + length B)] :: bytes"
  let ?raw = "?hd @ [of_nat (length A)] @ A @ [of_nat (length B)] @ B @ [of_nat (length ?d)] @ ?d"
  note dec = dec [folded A_def B_def]
  have fit: "length A + length B \<le> 252" using assms(3) by (simp add: A_def B_def)
  have raw: "encodeUdt u = ?raw" by (simp add: encodeUdt_bytes Let_def A_def B_def)
  have lens: "unat (of_nat (length A) :: byte) = length A" "unat (of_nat (length B) :: byte) = length B"
    "unat (of_nat (length ?d) :: byte) = ?n" "unat (of_nat (3 + length A) :: byte) = 3 + length A"
    "unat (of_nat (3 + length A + length B) :: byte) = 3 + length A + length B"
    using fit by (simp_all add: unat_of_nat del: of_nat_add)
  have at: "?raw ! 5 = of_nat (length A)" "?raw ! (6 + length A) = of_nat (length B)"
    "?raw ! (7 + length A + length B) = of_nat (length ?d)"
    by (simp_all add: nth_append nth_Cons')
  have rngA: "vec_range ?raw 6 (6 + length A) = Inr A"
    using vec_range_at [of 6 "?hd @ [of_nat (length A)]" A] by simp
  have rngB: "vec_range ?raw (7 + length A) (7 + length A + length B) = Inr B"
    using vec_range_at [of "7 + length A" "?hd @ [of_nat (length A)] @ A @ [of_nat (length B)]" B] by simp
  have rngD: "vec_range ?raw (8 + length A + length B) (8 + length A + length B + ?n) = Inr (take ?n ?d)"
    using vec_range_at [of "8 + length A + length B"
        "?hd @ [of_nat (length A)] @ A @ [of_nat (length B)] @ B @ [of_nat (length ?d)]" "take ?n ?d" "drop ?n ?d"]
    by (simp add: min_absorb2)
  have "party_at ?raw 5 e = Inr a" for e
    unfolding party_at_def at lens using rngA by (simp add: dec)
  moreover have "party_at ?raw (6 + length A) e = Inr b" for e
    unfolding party_at_def at lens using rngB by (simp add: dec)
  moreover have "data_at ?raw (7 + length A + length B) = Inr (take ?n ?d)"
    unfolding data_at_def at lens using rngD mod_less_eq_dividend [of "length ?d" 256]
    by (simp add: add.assoc not_less)
  moreover have ptr: "5 \<le> length ?raw" "?raw ! 0 = kMsgUdt" "2 + unat (?raw ! 2) = 5" "3 + unat (?raw ! 3) = 6 + length A"
    "4 + unat (?raw ! 4) = 7 + length A + length B" "?raw ! 1 = u_protocolClass u"
    using lens(4,5) by (simp_all add: wire_consts unat_byte_of_nat [of 3, simplified])
  ultimately show ?thesis unfolding raw decodeUdt_parts [OF ptr(1,2)] ptr(3-6) by simp
qed

lemma decodeUdt_encodeUdt:
  assumes "udt_fits u"
  shows "decodeUdt (encodeUdt u) =
    Inr \<lparr>u_protocolClass = u_protocolClass u, u_calledParty = addr_view (u_calledParty u),
      u_callingParty = addr_view (u_callingParty u), u_data = take (length (u_data u) mod 256) (u_data u)\<rparr>"
  using assms unfolding udt_fits_def by (intro decodeUdt_encoded decodeAddress_encodeAddress) simp_all

section \<open>Addresses of the proxy\<close>

lemma length_encodeAddress_gt:
  "sa_routeByGt a \<Longrightarrow>
   length (encodeAddress a) = 4 + (if sa_ssnPresent a then 1 else 0) + (length (sa_digits a) + 1) div 2"
  by (simp add: encodeAddress_def Let_def writer_simps packBcd_def length_packDigits)

lemma makeGtAddress_fields:
  "sa_routeByGt (makeGtAddress ds ssn has)" "sa_digits (makeGtAddress ds ssn has) = ds"
  "sa_ssnPresent (makeGtAddress ds ssn has) = has"
  by (simp_all add: makeGtAddress_def Let_def SccpAddress_init_def)

lemma addr_wf_makeGtAddress: "list_all isDigit ds \<Longrightarrow> addr_wf (makeGtAddress ds ssn has)"
  by (simp add: addr_wf_def makeGtAddress_def SccpAddress_init_def Let_def wire_consts)

lemma addr_view_makeGtAddress: "addr_view (makeGtAddress ds ssn True) = makeGtAddress ds ssn True"
  by (simp add: addr_view_def makeGtAddress_def SccpAddress_init_def Let_def)

lemma udt_fits_makeGtAddress:
  assumes "list_all isDigit ds" "length ds \<le> 100" "list_all isDigit ds'" "length ds' \<le> 100"
  shows "udt_fits \<lparr>u_protocolClass = c, u_calledParty = makeGtAddress ds ssn True,
    u_callingParty = makeGtAddress ds' ssn' True, u_data = d\<rparr>"
  using assms by (simp add: udt_fits_def addr_wf_makeGtAddress length_encodeAddress_gt makeGtAddress_fields)

section \<open>Bounds of the decoder\<close>

lemma no_ub_decodeAddress [simp]: "no_ub (decodeAddress r)"
  unfolding decodeAddress_def Let_def by (intro no_ub_intros no_ub_reads) simp_all

text \<open>The octets announced by the length octet at \<open>p\<close> lie inside the message.\<close>

definition inside :: "bytes \<Rightarrow> nat \<Rightarrow> bool" where
  "inside raw p \<longleftrightarrow> (p < length raw \<longrightarrow> p + 1 + unat (raw ! p) \<le> length raw)"

lemma no_ub_party_at: "is_std_exception e \<Longrightarrow> no_ub (party_at raw p e) \<longleftrightarrow> inside raw p"
  by (auto simp: party_at_def inside_def vec_range_def)

lemma no_ub_data_at: "no_ub (data_at raw p)"
  by (simp add: data_at_def vec_range_def)

section \<open>Properties\<close>

text \<open>
  C25: A Unitdata message survives the wire when its data has at most 255 octets and its addresses fit
  (\<open>udt_fits\<close>): an address routed by global title has decimal digits only, a numbering plan in the upper
  four bits of its octet and a nature of address below 128; an address routed by SSN has an SSN; and
  both encoded addresses together have at most 252 octets.  Decoding the encoded message then gives the
  protocol class, the data and both addresses back.  An address routed by global title loses only what
  that form does not carry, a point code and the value of an absent SSN; an address routed by SSN keeps
  its SSN alone: its point code is written and never read.
\<close>

theorem sccp_udt_roundtrip:
  assumes "udt_fits u" and "length (u_data u) \<le> 255"
  shows "decodeUdt (encodeUdt u) =
    Inr (u\<lparr>u_calledParty := addr_view (u_calledParty u), u_callingParty := addr_view (u_callingParty u)\<rparr>)"
  using decodeUdt_encodeUdt [OF assms(1)] assms(2) by simp

theorem sccp_udt_roundtrip_witness:
  "let u = \<lparr>u_protocolClass = 0, u_calledParty = makeGtAddress ''49161000000'' kSsnHlr True,
            u_callingParty = makeSsnAddress 2 kSsnSgsn, u_data = [1, 2, 3]\<rparr>
   in decodeUdt (encodeUdt u) = Inr (u\<lparr>u_callingParty := (makeSsnAddress 2 kSsnSgsn)\<lparr>sa_pcPresent := False, sa_pc := 0\<rparr>\<rparr>)"
proof -
  let ?u = "\<lparr>u_protocolClass = 0, u_calledParty = makeGtAddress ''49161000000'' kSsnHlr True,
            u_callingParty = makeSsnAddress 2 kSsnSgsn, u_data = [1, 2, 3]\<rparr>"
  have "udt_fits ?u" by code_simp
  from sccp_udt_roundtrip [OF this] show ?thesis
    by (simp add: Let_def addr_view_makeGtAddress) (simp add: addr_view_def makeSsnAddress_def SccpAddress_init_def)
qed

text \<open>
  The encoder does not check the length of the data.  A message with more than 255 octets of
  data is encoded with a length octet reduced modulo 256, and the receiver gets only that many
  octets: the MAP PDU is cut without an error on either side.
\<close>

lemma sccp_data_truncated:
  assumes "udt_fits u" and "length (u_data u) > 255"
  shows "\<exists>v. decodeUdt (encodeUdt u) = Inr v \<and> u_data v = take (length (u_data u) mod 256) (u_data u) \<and>
    u_data v \<noteq> u_data u"
proof -
  let ?d = "u_data u"
  have "length (take (length ?d mod 256) ?d) < 256" by (simp add: min_less_iff_disj)
  with assms(2) have "take (length ?d mod 256) ?d \<noteq> ?d" by force
  then show ?thesis using decodeUdt_encodeUdt [OF assms(1)] by simp
qed

text \<open>
  C29: Where the decoder is safe.  The length octets of the two addresses are not checked against the
  message: when the one of the called party announces more octets than there are, the address is
  copied from behind the end of the vector.  When both addresses lie inside, every input, however
  malformed, either decodes or throws; the data is checked.
\<close>

theorem sccp_decode_bounds:
  assumes "5 \<le> length raw" and "raw ! 0 = kMsgUdt"
  shows "(inside raw (2 + unat (raw ! 2)) \<and> inside raw (3 + unat (raw ! 3)) \<longrightarrow> no_ub (decodeUdt raw)) \<and>
    (\<not> inside raw (2 + unat (raw ! 2)) \<longrightarrow>
       decodeUdt raw = Inl (undefined_behaviour ''iterator range past the end''))"
proof (intro conjI impI)
  assume "inside raw (2 + unat (raw ! 2)) \<and> inside raw (3 + unat (raw ! 3))"
  then show "no_ub (decodeUdt raw)"
    unfolding decodeUdt_parts [OF assms] by (intro no_ub_rbind) (simp_all add: no_ub_party_at no_ub_data_at)
next
  assume "\<not> inside raw (2 + unat (raw ! 2))"
  then show "decodeUdt raw = Inl (undefined_behaviour ''iterator range past the end'')"
    unfolding decodeUdt_parts [OF assms] by (auto simp: party_at_def inside_def vec_range_def)
qed

theorem sccp_decode_bounds_witness:
  "decodeUdt [9, 0, 3, 3, 3, 200] = Inl (undefined_behaviour ''iterator range past the end'')"
  using sccp_decode_bounds [of "[9, 0, 3, 3, 3, 200]"] by (simp add: inside_def wire_consts)

end
