(* ===== verification/MapTransport.thy ===== *)
theory MapTransport
  imports M3uaCodec SccpCodec WriteQueue
begin

text \<open>
  \<open>src/transport/MapTransport.hpp\<close> and \<open>MapTransport.cpp\<close>: the connection to the Signalling Gateway,
  with the M3UA state machine, SCCP wrapping, the write queue and reconnection.  As for a session,
  every handler is a function on the transport that returns what it does to the outside in order;
  the callbacks go to the proxy and do not touch the transport.  Name resolution and opening the
  socket are calls of asio: their outcome is an argument of \<open>connect\<close>.
\<close>

section \<open>State\<close>

datatype AspState = Disconnected | Connecting | AspUp | Active | TransportStopped

record MapTransportConfig =
  cfg_sgHost :: string
  cfg_sgPort :: u16
  cfg_opc :: u32
  cfg_dpc :: u32
  cfg_routingContext :: "u32 option"
  cfg_hlrGt :: string
  cfg_hlrSsn :: byte
  cfg_localGt :: string
  cfg_localSsn :: byte
  cfg_reconnectInterval :: nat
  cfg_beatInterval :: nat
  cfg_useSCTP :: bool

definition MapTransportConfig_init :: MapTransportConfig where
  "MapTransportConfig_init = \<lparr>cfg_sgHost = [], cfg_sgPort = 2905, cfg_opc = 0, cfg_dpc = 0, cfg_routingContext = None,
     cfg_hlrGt = [], cfg_hlrSsn = kSsnHlr, cfg_localGt = [], cfg_localSsn = kSsnSgsn, cfg_reconnectInterval = 5,
     cfg_beatInterval = 30, cfg_useSCTP = False\<rparr>"

record MapTransport =
  mt_cfg :: MapTransportConfig
  mt_state :: AspState
  mt_socketOpen :: bool
  mt_decoder :: M3uaDecoder
  mt_writeQueue :: "bytes list"
  mt_writing :: bool

datatype TransportAct =
    MtAsyncWrite bytes
  | MtAsyncRead
  | MtAsyncConnect
  | MtPostOnConnectError
  | MtReconnectTimer nat
  | MtBeatTimer nat
  | MtCancelReconnect
  | MtCancelBeat
  | MtCloseSocket
  | MtMessageCb bytes
  | MtDisconnectCb

type_synonym mt_result = "(TransportAct list \<times> MapTransport) result"

definition mt_new :: "MapTransportConfig \<Rightarrow> MapTransport" where
  "mt_new cfg = \<lparr>mt_cfg = cfg, mt_state = Disconnected, mt_socketOpen = False, mt_decoder = m3ua_new, mt_writeQueue = [],
     mt_writing = False\<rparr>"

section \<open>Write queue\<close>

definition mt_doWrite :: "MapTransport \<Rightarrow> bytes list \<times> MapTransport" where
  "mt_doWrite t =
     (if mt_writeQueue t = [] then ([], t\<lparr>mt_writing := False\<rparr>)
      else ([hd (mt_writeQueue t)], t\<lparr>mt_writing := True\<rparr>))"

definition mt_enqueue :: "bytes \<Rightarrow> MapTransport \<Rightarrow> bytes list \<times> MapTransport" where
  "mt_enqueue frame t =
     (let t1 = t\<lparr>mt_writeQueue := mt_writeQueue t @ [frame]\<rparr>
      in if \<not> mt_writing t1 then mt_doWrite t1 else ([], t1))"

definition sendRaw :: "M3uaMessage \<Rightarrow> MapTransport \<Rightarrow> mt_result" where
  "sendRaw msg t = (case mt_enqueue (m3ua_encode msg) t of (ws, t') \<Rightarrow> Inr (map MtAsyncWrite ws, t'))"

section \<open>Connection management\<close>

definition scheduleConnect :: "MapTransport \<Rightarrow> mt_result" where
  "scheduleConnect t =
     (if mt_state t = TransportStopped then Inr ([], t)
      else Inr ([MtReconnectTimer (if mt_state t = Disconnected then 0 else cfg_reconnectInterval (mt_cfg t))], t))"

definition mt_start :: "MapTransport \<Rightarrow> mt_result" where
  "mt_start t = scheduleConnect t"

definition mt_stop :: "MapTransport \<Rightarrow> mt_result" where
  "mt_stop t =
     Inr ([MtCancelReconnect, MtCancelBeat, MtCloseSocket], t\<lparr>mt_state := TransportStopped, mt_socketOpen := False\<rparr>)"

definition mt_connect :: "bool \<Rightarrow> bool \<Rightarrow> MapTransport \<Rightarrow> mt_result" where
  "mt_connect resolved opened t =
     (let t1 = t\<lparr>mt_state := Connecting\<rparr> in
      if \<not> resolved then Inr ([MtPostOnConnectError], t1)
      else
        let acts = (if mt_socketOpen t1 then [MtCloseSocket] else []);
            t2 = t1\<lparr>mt_socketOpen := False\<rparr>
        in if \<not> opened then Inr (acts @ [MtPostOnConnectError], t2)
           else Inr (acts @ [MtAsyncConnect], t2\<lparr>mt_socketOpen := True\<rparr>))"

definition mt_onReconnectTimer :: "bool \<Rightarrow> bool \<Rightarrow> bool \<Rightarrow> MapTransport \<Rightarrow> mt_result" where
  "mt_onReconnectTimer ec resolved opened t =
     (if \<not> ec \<and> mt_state t \<noteq> TransportStopped then mt_connect resolved opened t else Inr ([], t))"

definition resetConnection :: "MapTransport \<Rightarrow> MapTransport" where
  "resetConnection t = t\<lparr>mt_writeQueue := [], mt_writing := False, mt_decoder := m3ua_new\<rparr>"

definition sendAspUp :: "MapTransport \<Rightarrow> mt_result" where
  "sendAspUp t = sendRaw makeAspUp (t\<lparr>mt_state := AspUp\<rparr>)"

definition sendAspAc :: "MapTransport \<Rightarrow> mt_result" where
  "sendAspAc t = sendRaw (makeAspAc (cfg_routingContext (mt_cfg t))) t"

definition mt_onConnect :: "bool \<Rightarrow> MapTransport \<Rightarrow> mt_result" where
  "mt_onConnect ec t =
     (if ec then scheduleConnect ((resetConnection t)\<lparr>mt_state := Disconnected\<rparr>)
      else and_then (Inr ([MtAsyncRead], t)) sendAspUp)"

section \<open>M3UA state machine\<close>

definition startBeat :: "MapTransport \<Rightarrow> mt_result" where
  "startBeat t = Inr ([MtBeatTimer (cfg_beatInterval (mt_cfg t))], t)"

definition onBeat :: "MapTransport \<Rightarrow> mt_result" where
  "onBeat t = (if mt_state t \<noteq> Active then Inr ([], t) else and_then (sendRaw (makeHeartbeat []) t) startBeat)"

definition mt_onBeatTimer :: "bool \<Rightarrow> MapTransport \<Rightarrow> mt_result" where
  "mt_onBeatTimer ec t = (if \<not> ec \<and> mt_state t \<noteq> TransportStopped then onBeat t else Inr ([], t))"

definition processMessage :: "M3uaMessage \<Rightarrow> MapTransport \<Rightarrow> mt_result" where
  "processMessage msg t =
     (if mu_msgClass msg = kClassAspsm \<and> mu_msgType msg = kTypeAspUpAck then sendAspAc t
      else if mu_msgClass msg = kClassAsptm \<and> mu_msgType msg = kTypeAspAcAck then startBeat (t\<lparr>mt_state := Active\<rparr>)
      else if mu_msgClass msg = kClassAspsm \<and> mu_msgType msg = kTypeHeartbeat then
        sendRaw (makeHeartbeatAck (mu_heartbeatData msg)) t
      else if mu_msgClass msg = kClassAspsm \<and> mu_msgType msg = kTypeHeartbeatAck then Inr ([], t)
      else if mu_msgClass msg = kClassTransf \<and> mu_msgType msg = kTypeData then
        (case mu_protocolData msg of
           None \<Rightarrow> Inr ([], t)
         | Some pd \<Rightarrow>
             if pd_si pd \<noteq> kSiSccp then Inr ([], t)
             else try_catch is_std_exception (decodeUdt (pd_userData pd))
                    (\<lambda>udt. Inr ([MtMessageCb (u_data udt)], t)) (Inr ([], t)))
      else Inr ([], t))"

section \<open>Sending\<close>

text \<open>The function \<open>send\<close> posts.\<close>

definition mt_send :: "bytes \<Rightarrow> MapTransport \<Rightarrow> mt_result" where
  "mt_send pl t =
     (if mt_state t \<noteq> Active then Inr ([], t)
      else
        let cfg = mt_cfg t;
            udt = \<lparr>u_protocolClass = kProtoClass0, u_calledParty = makeGtAddress (cfg_hlrGt cfg) (cfg_hlrSsn cfg) True,
                   u_callingParty = makeGtAddress (cfg_localGt cfg) (cfg_localSsn cfg) True, u_data = pl\<rparr>;
            sccpFrame = encodeUdt udt;
            pd = ProtocolData_init\<lparr>pd_opc := cfg_opc cfg, pd_dpc := cfg_dpc cfg, pd_si := kSiSccp, pd_ni := kNiInternational,
                   pd_sls := 0, pd_userData := sccpFrame\<rparr>
        in sendRaw (makeData pd (cfg_routingContext cfg)) t)"

text \<open>The completion handler of \<open>async_write\<close>: without an error, and in general.\<close>

definition mt_written :: "MapTransport \<Rightarrow> (bytes list \<times> MapTransport) result" where
  "mt_written t = rbind (pop_front (mt_writeQueue t)) (\<lambda>q. Inr (mt_doWrite (t\<lparr>mt_writeQueue := q\<rparr>)))"

definition mt_onWrite :: "bool \<Rightarrow> MapTransport \<Rightarrow> mt_result" where
  "mt_onWrite ec t =
     (if \<not> ec then rbind (mt_written t) (\<lambda>(ws, t'). Inr (map MtAsyncWrite ws, t'))
      else if mt_state t \<noteq> TransportStopped then
        let t1 = (resetConnection (t\<lparr>mt_state := Disconnected\<rparr>))\<lparr>mt_socketOpen := False\<rparr>
        in and_then (Inr ([MtCloseSocket, MtDisconnectCb], t1)) scheduleConnect
      else Inr ([], t))"

section \<open>Receiving\<close>

lemma sendRaw_decoder: "sendRaw m t = Inr (acts, t') \<Longrightarrow> mt_decoder t' = mt_decoder t"
  by (auto simp: sendRaw_def mt_enqueue_def mt_doWrite_def Let_def split: prod.splits if_splits)

lemma processMessage_decoder: "processMessage m t = Inr (acts, t') \<Longrightarrow> mt_decoder t' = mt_decoder t"
  by (auto simp: processMessage_def sendAspAc_def startBeat_def try_catch_def dest: sendRaw_decoder
      split: if_splits option.splits sum.splits)

text \<open>\<open>while (auto msg = decoder_.next()) try { processMessage(*msg); } catch (const std::exception&) {}\<close>\<close>

function mt_readLoop :: "MapTransport \<Rightarrow> mt_result" where
  "mt_readLoop t =
     (case m3ua_next (mt_decoder t) of
        (Inl e, _) \<Rightarrow> Inl e
      | (Inr None, d) \<Rightarrow> Inr ([], t\<lparr>mt_decoder := d\<rparr>)
      | (Inr (Some msg), d) \<Rightarrow>
          and_then (try_catch is_std_exception (processMessage msg (t\<lparr>mt_decoder := d\<rparr>)) Inr
                      (Inr ([], t\<lparr>mt_decoder := d\<rparr>)))
            mt_readLoop)"
  by pat_completeness auto
termination
  by (relation "measure (\<lambda>t. length (m3ua_buf (mt_decoder t)))")
    (auto simp: try_catch_def dest!: processMessage_decoder m3ua_next_shrinks [OF sym] split: sum.splits if_splits)

declare mt_readLoop.simps [simp del]

definition mt_onRead :: "bool \<Rightarrow> bytes \<Rightarrow> MapTransport \<Rightarrow> mt_result" where
  "mt_onRead ec data t =
     (if ec then
        (if mt_state t \<noteq> TransportStopped then
           let t1 = (resetConnection (t\<lparr>mt_state := Disconnected\<rparr>))\<lparr>mt_socketOpen := False\<rparr>
           in and_then (Inr ([MtCancelBeat, MtCloseSocket, MtDisconnectCb], t1)) scheduleConnect
         else Inr ([], t))
      else
        and_then (mt_readLoop (t\<lparr>mt_decoder := m3ua_feed (mt_decoder t) data\<rparr>)) (\<lambda>t.
        Inr (if mt_state t \<noteq> TransportStopped \<and> mt_state t \<noteq> Disconnected then [MtAsyncRead] else [], t)))"

section \<open>The write queue of the transport\<close>

interpretation mt: write_queue mt_writeQueue mt_writing mt_enqueue mt_written
  by unfold_locales
    (auto simp: mt_enqueue_def mt_doWrite_def mt_written_def Let_def hd_append take_Suc split: if_splits)

definition mt_payloads_of :: "TransportAct list \<Rightarrow> bytes list" where
  "mt_payloads_of acts = [b. MtMessageCb b \<leftarrow> acts]"

lemma mt_payloads_of_simps [simp]:
  "mt_payloads_of [] = []" "mt_payloads_of (a @ b) = mt_payloads_of a @ mt_payloads_of b"
  "mt_payloads_of (map MtAsyncWrite ws) = []" "mt_payloads_of [MtMessageCb p] = [p]" "mt_payloads_of [MtBeatTimer n] = []"
  "mt_payloads_of [MtAsyncRead] = []" "mt_payloads_of [MtAsyncWrite w] = []"
  by (induction ws) (simp_all add: mt_payloads_of_def)

text \<open>A handler that queues the frames \<open>rs\<close>, passes the payloads \<open>ps\<close> on and leaves the transport in state \<open>st\<close>.\<close>

definition yields :: "mt_result \<Rightarrow> MapTransport \<Rightarrow> bytes list \<Rightarrow> bytes list \<Rightarrow> AspState \<Rightarrow> MapTransport \<Rightarrow> bool" where
  "yields r t rs ps st t' \<longleftrightarrow> (\<exists>acts. r = Inr (acts, t') \<and> mt_payloads_of acts = ps) \<and>
     mt_writeQueue t' = mt_writeQueue t @ rs \<and> mt_state t' = st \<and> mt_cfg t' = mt_cfg t"

lemma yields_trans:
  "yields r t rs ps st t1 \<Longrightarrow> yields (f t1) t1 rs' ps' st' t' \<Longrightarrow> yields (and_then r f) t (rs @ rs') (ps @ ps') st' t'"
  by (auto simp: yields_def)

lemma yields_sendRaw: "\<exists>t'. yields (sendRaw m t) t [m3ua_encode m] [] (mt_state t) t'"
  by (auto simp: yields_def sendRaw_def mt_enqueue_def mt_doWrite_def Let_def split: if_splits)

section \<open>What the transport does with the messages it receives\<close>

definition mu_is :: "byte \<Rightarrow> byte \<Rightarrow> M3uaMessage \<Rightarrow> bool" where
  "mu_is c t m \<longleftrightarrow> mu_msgClass m = c \<and> mu_msgType m = t"

definition mt_replies :: "MapTransportConfig \<Rightarrow> M3uaMessage \<Rightarrow> bytes list" where
  "mt_replies cfg m =
     (if mu_is kClassAspsm kTypeAspUpAck m then [m3ua_encode (makeAspAc (cfg_routingContext cfg))]
      else if mu_is kClassAspsm kTypeHeartbeat m then [m3ua_encode (makeHeartbeatAck (mu_heartbeatData m))]
      else [])"

definition mt_next :: "AspState \<Rightarrow> M3uaMessage \<Rightarrow> AspState" where
  "mt_next st m = (if mu_is kClassAsptm kTypeAspAcAck m then Active else st)"

definition sccp_of :: "M3uaMessage \<Rightarrow> bytes option" where
  "sccp_of m =
     (if mu_is kClassTransf kTypeData m then
        (case mu_protocolData m of None \<Rightarrow> None | Some pd \<Rightarrow> if pd_si pd = kSiSccp then Some (pd_userData pd) else None)
      else None)"

definition map_of_msg :: "M3uaMessage \<Rightarrow> bytes list" where
  "map_of_msg m = (case sccp_of m of None \<Rightarrow> [] | Some raw \<Rightarrow> (case decodeUdt raw of Inl _ \<Rightarrow> [] | Inr u \<Rightarrow> [u_data u]))"

text \<open>A message whose SCCP part, if any, does not make the SCCP decoder read out of bounds.\<close>

definition mu_safe :: "M3uaMessage \<Rightarrow> bool" where
  "mu_safe m \<longleftrightarrow> (case sccp_of m of None \<Rightarrow> True | Some raw \<Rightarrow> no_ub (decodeUdt raw))"

lemma processMessage_eq:
  "mu_is kClassAspsm kTypeAspUpAck m \<Longrightarrow> processMessage m t = sendAspAc t"
  "mu_is kClassAsptm kTypeAspAcAck m \<Longrightarrow> processMessage m t = startBeat (t\<lparr>mt_state := Active\<rparr>)"
  "mu_is kClassAspsm kTypeHeartbeat m \<Longrightarrow> processMessage m t = sendRaw (makeHeartbeatAck (mu_heartbeatData m)) t"
  "sccp_of m = Some raw \<Longrightarrow> processMessage m t =
     try_catch is_std_exception (decodeUdt raw) (\<lambda>udt. Inr ([MtMessageCb (u_data udt)], t)) (Inr ([], t))"
  "\<not> mu_is kClassAspsm kTypeAspUpAck m \<Longrightarrow> \<not> mu_is kClassAsptm kTypeAspAcAck m \<Longrightarrow> \<not> mu_is kClassAspsm kTypeHeartbeat m \<Longrightarrow>
     sccp_of m = None \<Longrightarrow> processMessage m t = Inr ([], t)"
  by (auto simp: processMessage_def mu_is_def sccp_of_def wire_consts split: if_splits option.splits)

lemma mu_is_unique: "mu_is c k m \<Longrightarrow> mu_is c' k' m \<longleftrightarrow> c = c' \<and> k = k'"
  by (auto simp: mu_is_def)

lemma sccp_of_data: "sccp_of m = Some raw \<Longrightarrow> mu_is kClassTransf kTypeData m"
  by (simp add: sccp_of_def split: if_splits)

lemma sccp_of_control: "mu_is c k m \<Longrightarrow> c \<noteq> kClassTransf \<Longrightarrow> sccp_of m = None"
  by (auto simp: sccp_of_def mu_is_def)

lemma processMessage_yields:
  assumes "mu_safe m"
  shows "\<exists>t'. yields (processMessage m t) t (mt_replies (mt_cfg t) m) (map_of_msg m) (mt_next (mt_state t) m) t'"
proof -
  have ne: "kClassTransf \<noteq> kClassAspsm" "kClassTransf \<noteq> kClassAsptm" "kClassAsptm \<noteq> kClassAspsm" "kTypeHeartbeat \<noteq> kTypeAspUpAck"
    by (simp_all add: wire_consts)
  note spec = mt_replies_def mt_next_def map_of_msg_def
  consider (up) "mu_is kClassAspsm kTypeAspUpAck m" | (ac) "mu_is kClassAsptm kTypeAspAcAck m"
    | (hb) "mu_is kClassAspsm kTypeHeartbeat m" | (data) raw where "sccp_of m = Some raw"
    | (other) "\<not> mu_is kClassAspsm kTypeAspUpAck m" "\<not> mu_is kClassAsptm kTypeAspAcAck m"
        "\<not> mu_is kClassAspsm kTypeHeartbeat m" "sccp_of m = None"
    by (cases "sccp_of m") blast+
  then show ?thesis
  proof cases
    case up
    then show ?thesis
      using yields_sendRaw [of "makeAspAc (cfg_routingContext (mt_cfg t))" t] sccp_of_control [OF up] ne
      by (simp add: spec processMessage_eq(1) mu_is_unique [OF up] sendAspAc_def)
  next
    case ac
    then show ?thesis
      using sccp_of_control [OF ac] ne
      by (intro exI [of _ "t\<lparr>mt_state := Active\<rparr>"])
        (simp add: spec processMessage_eq(2) mu_is_unique [OF ac] startBeat_def yields_def)
  next
    case hb
    then show ?thesis
      using yields_sendRaw [of "makeHeartbeatAck (mu_heartbeatData m)" t] sccp_of_control [OF hb] ne
      by (simp add: spec processMessage_eq(3) mu_is_unique [OF hb])
  next
    case (data raw)
    then have "no_ub (decodeUdt raw)" using assms by (simp add: mu_safe_def)
    then show ?thesis
      using data ne by (intro exI [of _ t])
        (simp add: spec processMessage_eq(4) mu_is_unique [OF sccp_of_data [OF data]] try_catch_std yields_def split: sum.split)
  next
    case other
    then show ?thesis by (intro exI [of _ t]) (simp add: spec processMessage_eq(5) yields_def)
  qed
qed

lemma yields_decoder [simp]: "yields r (t\<lparr>mt_decoder := d\<rparr>) rs ps st t' = yields r t rs ps st t'"
  by (simp add: yields_def)

lemma mt_readLoop_yields:
  assumes "m3ua_drain (mt_decoder t) = (ms, None, d')" and "list_all mu_safe ms"
  shows "\<exists>t'. yields (mt_readLoop t) t (concat (map (mt_replies (mt_cfg t)) ms)) (concat (map map_of_msg ms))
    (foldl mt_next (mt_state t) ms) t' \<and> mt_decoder t' = d'"
  using assms
proof (induction ms arbitrary: t)
  case Nil
  then have "m3ua_next (mt_decoder t) = (Inr None, d')"
    by (auto simp: m3ua_drain.simps [of "mt_decoder t"] split: prod.splits sum.splits option.splits)
  then show ?case
    by (intro exI [of _ "t\<lparr>mt_decoder := d'\<rparr>"]) (simp add: mt_readLoop.simps [of t] yields_def)
next
  case (Cons m ms)
  then obtain d where n: "m3ua_next (mt_decoder t) = (Inr (Some m), d)" and d: "m3ua_drain d = (ms, None, d')"
    by (auto simp: m3ua_drain.simps [of "mt_decoder t"] split: prod.splits sum.splits option.splits)
  let ?t = "t\<lparr>mt_decoder := d\<rparr>"
  obtain t1 where p: "yields (processMessage m ?t) ?t (mt_replies (mt_cfg ?t) m) (map_of_msg m) (mt_next (mt_state ?t) m) t1"
    using processMessage_yields [of m ?t] Cons.prems(2) by auto
  then obtain acts where acts: "processMessage m ?t = Inr (acts, t1)" by (auto simp: yields_def)
  have "mt_decoder t1 = d" using processMessage_decoder [OF acts] by simp
  moreover have fields: "mt_cfg t1 = mt_cfg t" "mt_state t1 = mt_next (mt_state t) m" using p by (simp_all add: yields_def)
  ultimately obtain t' where q: "yields (mt_readLoop t1) t1 (concat (map (mt_replies (mt_cfg t)) ms)) (concat (map map_of_msg ms))
      (foldl mt_next (mt_next (mt_state t) m) ms) t'" "mt_decoder t' = d'"
    using Cons.IH [of t1] d Cons.prems(2) by auto
  have "mt_readLoop t = and_then (processMessage m ?t) mt_readLoop" by (simp add: mt_readLoop.simps [of t] n acts)
  then show ?case using yields_trans [where f = mt_readLoop, OF p q(1)] q(2) by auto
qed

fun mt_reads :: "bytes list \<Rightarrow> MapTransport \<Rightarrow> mt_result" where
  "mt_reads [] t = Inr ([], t)"
| "mt_reads (c # cs) t = and_then (mt_onRead False c t) (mt_reads cs)"

lemma mt_onRead_yields:
  assumes "m3ua_drain (m3ua_feed (mt_decoder t) data) = (ms, None, d')" and "list_all mu_safe ms"
  shows "\<exists>t'. yields (mt_onRead False data t) t (concat (map (mt_replies (mt_cfg t)) ms)) (concat (map map_of_msg ms))
    (foldl mt_next (mt_state t) ms) t' \<and> mt_decoder t' = d'"
proof -
  let ?t = "t\<lparr>mt_decoder := m3ua_feed (mt_decoder t) data\<rparr>"
  obtain t' where t': "yields (mt_readLoop ?t) ?t (concat (map (mt_replies (mt_cfg ?t)) ms)) (concat (map map_of_msg ms))
    (foldl mt_next (mt_state ?t) ms) t'" "mt_decoder t' = d'"
    using mt_readLoop_yields [of ?t ms d'] assms by auto
  then show ?thesis by (intro exI [of _ t']) (auto simp: mt_onRead_def yields_def)
qed

lemma mt_reads_yields:
  assumes "receive m3ua_feed m3ua_drain (mt_decoder t) chunks = (ms, None, d')" and "list_all mu_safe ms"
  shows "\<exists>t'. yields (mt_reads chunks t) t (concat (map (mt_replies (mt_cfg t)) ms)) (concat (map map_of_msg ms))
    (foldl mt_next (mt_state t) ms) t' \<and> mt_decoder t' = d'"
  using assms
proof (induction chunks arbitrary: t ms)
  case Nil
  then show ?case by (intro exI [of _ t]) (simp add: yields_def)
next
  case (Cons c cs)
  obtain ms1 d1 ms2 where r: "m3ua_drain (m3ua_feed (mt_decoder t) c) = (ms1, None, d1)"
    "receive m3ua_feed m3ua_drain d1 cs = (ms2, None, d')" "ms = ms1 @ ms2"
    using Cons.prems(1) by (auto split: prod.splits option.splits)
  obtain t1 where p: "yields (mt_onRead False c t) t (concat (map (mt_replies (mt_cfg t)) ms1)) (concat (map map_of_msg ms1))
    (foldl mt_next (mt_state t) ms1) t1" "mt_decoder t1 = d1"
    using mt_onRead_yields [OF r(1)] Cons.prems(2) r(3) by auto
  have fields: "mt_cfg t1 = mt_cfg t" "mt_state t1 = foldl mt_next (mt_state t) ms1" using p by (simp_all add: yields_def)
  obtain t' where q: "yields (mt_reads cs t1) t1 (concat (map (mt_replies (mt_cfg t)) ms2)) (concat (map map_of_msg ms2))
    (foldl mt_next (foldl mt_next (mt_state t) ms1) ms2) t'" "mt_decoder t' = d'"
    using Cons.IH [of t1 ms2] r(2,3) p(2) fields Cons.prems(2) by auto
  then show ?case using yields_trans [where f = "mt_reads cs", OF p(1) q(1)] r(3) by auto
qed

section \<open>What the transport sends\<close>

definition sends_digits :: "MapTransportConfig \<Rightarrow> bool" where
  "sends_digits cfg \<longleftrightarrow> list_all isDigit (cfg_hlrGt cfg) \<and> length (cfg_hlrGt cfg) \<le> 100 \<and>
     list_all isDigit (cfg_localGt cfg) \<and> length (cfg_localGt cfg) \<le> 100"

definition udt_for :: "MapTransportConfig \<Rightarrow> bytes \<Rightarrow> SccpUdt" where
  "udt_for cfg pl = \<lparr>u_protocolClass = kProtoClass0, u_calledParty = makeGtAddress (cfg_hlrGt cfg) (cfg_hlrSsn cfg) True,
     u_callingParty = makeGtAddress (cfg_localGt cfg) (cfg_localSsn cfg) True, u_data = pl\<rparr>"

definition data_for :: "MapTransportConfig \<Rightarrow> bytes \<Rightarrow> M3uaMessage" where
  "data_for cfg pl = makeData (ProtocolData_init\<lparr>pd_opc := cfg_opc cfg, pd_dpc := cfg_dpc cfg, pd_si := kSiSccp,
     pd_ni := kNiInternational, pd_sls := 0, pd_userData := encodeUdt (udt_for cfg pl)\<rparr>) (cfg_routingContext cfg)"

lemma mt_send_active: "mt_state t = Active \<Longrightarrow> mt_send pl t = sendRaw (data_for (mt_cfg t) pl) t"
  by (simp add: mt_send_def data_for_def udt_for_def Let_def)

lemma udt_for_decodes:
  assumes "sends_digits cfg" and "length pl \<le> 255"
  shows "decodeUdt (encodeUdt (udt_for cfg pl)) = Inr (udt_for cfg pl)"
proof -
  have "udt_fits (udt_for cfg pl)"
    using assms(1) unfolding udt_for_def sends_digits_def by (intro udt_fits_makeGtAddress) auto
  from decodeUdt_encodeUdt [OF this] show ?thesis
    using assms(2) by (simp add: udt_for_def addr_view_makeGtAddress)
qed

lemma length_encodeUdt: "length (encodeUdt u) =
    8 + length (encodeAddress (u_calledParty u)) + length (encodeAddress (u_callingParty u)) + length (u_data u)"
  by (simp add: encodeUdt_bytes Let_def)

lemma data_for_good:
  assumes "sends_digits cfg" and "length pl \<le> 255"
  shows "mu_good (data_for cfg pl)"
proof -
  have "Suc (length (cfg_hlrGt cfg)) div 2 \<le> 51" "Suc (length (cfg_localGt cfg)) div 2 \<le> 51"
    using assms(1) by (auto simp: sends_digits_def)
  then have "length (encodeUdt (udt_for cfg pl)) \<le> 500"
    using assms(2) by (simp add: length_encodeUdt udt_for_def length_encodeAddress_gt makeGtAddress_fields)
  then have pd: "length (mu_tlv kTagProtocolData (pd_bytes pd)) \<le> 600" if "pd_userData pd = encodeUdt (udt_for cfg pl)" for pd
    using length_mu_tlv [of kTagProtocolData "pd_bytes pd"] that by (simp add: pd_bytes_def)
  have rc: "length (mu_tlv kTagRoutingCtx (be32 rc)) \<le> 11" for rc
    using length_mu_tlv [of kTagRoutingCtx "be32 rc"] by simp
  obtain p where p: "mu_protocolData (data_for cfg pl) = Some p" "pd_userData p = encodeUdt (udt_for cfg pl)"
    "mu_heartbeatData (data_for cfg pl) = []"
    by (simp add: data_for_def makeData_def)
  have "length (case r of None \<Rightarrow> [] | Some rc \<Rightarrow> mu_tlv kTagRoutingCtx (be32 rc)) \<le> 11" for r
    using rc by (simp split: option.split)
  from add_mono [OF this pd [OF p(2)]] have "length (mu_body (data_for cfg pl)) \<le> 611" using p(1,3) by (simp add: mu_body_def)
  then show ?thesis by (simp add: mu_good_def m3ua_encode_bytes)
qed

section \<open>Events\<close>

text \<open>
  The transport with the event loop: the buffers handed to \<open>async_write\<close> that have not completed.
  Closing the socket makes outstanding operations complete with an error, but a write that has
  already succeeded completes without one, whenever its handler runs.
\<close>

datatype TransportEvent =
    TimerExpires bool bool bool
  | ConnectCompletes bool
  | MtReadCompletes bool bytes
  | MtWriteCompletes bool
  | BeatExpires bool
  | SendMap bytes
  | StopTransport

fun transport_event :: "TransportEvent \<Rightarrow> MapTransport \<Rightarrow> mt_result" where
  "transport_event (TimerExpires ec resolved opened) t = mt_onReconnectTimer ec resolved opened t"
| "transport_event (ConnectCompletes ec) t = mt_onConnect ec t"
| "transport_event (MtReadCompletes ec data) t = mt_onRead ec data t"
| "transport_event (MtWriteCompletes ec) t = mt_onWrite ec t"
| "transport_event (BeatExpires ec) t = mt_onBeatTimer ec t"
| "transport_event (SendMap pl) t = mt_send pl t"
| "transport_event StopTransport t = mt_stop t"

fun transport_run :: "TransportEvent list \<Rightarrow> MapTransport \<Rightarrow> mt_result" where
  "transport_run [] t = Inr ([], t)"
| "transport_run (ev # evs) t = and_then (transport_event ev t) (transport_run evs)"

lemma transport_run_append: "transport_run (evs @ evs') t = and_then (transport_run evs t) (transport_run evs')"
proof (induction evs arbitrary: t)
  case (Cons ev evs)
  then show ?case by (simp add: and_then_assoc cong: and_then_cong)
qed (simp add: and_then_silent)

lemma transport_run_reads: "transport_run (map (MtReadCompletes False) chunks) t = mt_reads chunks t"
  by (induction chunks arbitrary: t) (simp_all cong: and_then_cong)

text \<open>An error on an established connection: everything of it is forgotten.\<close>

definition fresh :: "MapTransport \<Rightarrow> bool" where
  "fresh t \<longleftrightarrow> mt_state t = Disconnected \<and> mt_writeQueue t = [] \<and> \<not> mt_writing t \<and> m3ua_buf (mt_decoder t) = []"

lemma error_resets:
  assumes "mt_state t \<noteq> TransportStopped" and "ev = MtReadCompletes True data \<or> ev = MtWriteCompletes True"
  shows "\<exists>acts t'. transport_event ev t = Inr (acts, t') \<and> fresh t' \<and> mt_cfg t' = mt_cfg t \<and>
    filter (\<lambda>a. a = MtDisconnectCb) acts = [MtDisconnectCb] \<and> MtReconnectTimer 0 \<in> set acts"
  using assms by (auto simp: mt_onRead_def mt_onWrite_def resetConnection_def scheduleConnect_def fresh_def m3ua_new_def Let_def)

lemma connect_fresh:
  assumes "fresh t"
  shows "\<exists>acts t'. transport_run [TimerExpires False True True, ConnectCompletes False] t = Inr (acts, t') \<and>
    mt_state t' = AspUp \<and> mt_writeQueue t' = [m3ua_encode makeAspUp] \<and> m3ua_buf (mt_decoder t') = [] \<and>
    mt_cfg t' = mt_cfg t \<and> MtDisconnectCb \<notin> set acts \<and> MtPostOnConnectError \<notin> set acts \<and> mt_payloads_of acts = []"
  using assms by (auto simp: mt_payloads_of_def fresh_def mt_onReconnectTimer_def mt_connect_def mt_onConnect_def sendAspUp_def sendRaw_def
      mt_enqueue_def mt_doWrite_def Let_def)

text \<open>No handler but the error handlers asks for a reconnect or reports a disconnect.\<close>

lemma processMessage_quiet:
  "processMessage m t = Inr (acts, t') \<Longrightarrow>
     MtReconnectTimer n \<notin> set acts \<and> MtDisconnectCb \<notin> set acts \<and> MtPostOnConnectError \<notin> set acts"
  by (auto simp: processMessage_def sendAspAc_def startBeat_def sendRaw_def try_catch_def
      split: if_splits option.splits sum.splits prod.splits)

lemma mt_readLoop_quiet:
  "mt_readLoop t = Inr (acts, t') \<Longrightarrow>
     MtReconnectTimer n \<notin> set acts \<and> MtDisconnectCb \<notin> set acts \<and> MtPostOnConnectError \<notin> set acts"
proof (induction t arbitrary: acts rule: mt_readLoop.induct)
  case (1 t)
  obtain r d where nx: "m3ua_next (mt_decoder t) = (r, d)" by force
  then obtain v where r: "r = Inr v" using 1(2) by (cases r) (simp_all add: mt_readLoop.simps [of t])
  show ?case
  proof (cases v)
    case None
    then show ?thesis using 1(2) nx r by (auto simp: mt_readLoop.simps [of t])
  next
    case (Some m)
    let ?p = "try_catch is_std_exception (processMessage m (t\<lparr>mt_decoder := d\<rparr>)) Inr (Inr ([], t\<lparr>mt_decoder := d\<rparr>))"
    obtain a t1 b where p: "?p = Inr (a, t1)" "mt_readLoop t1 = Inr (b, t')" "acts = a @ b"
      using 1(2) nx r Some by (auto simp: mt_readLoop.simps [of t] and_then_Inr_iff)
    have "MtReconnectTimer n \<notin> set a \<and> MtDisconnectCb \<notin> set a \<and> MtPostOnConnectError \<notin> set a"
      using p(1) by (auto simp: try_catch_def dest: processMessage_quiet split: sum.splits if_splits)
    moreover have "MtReconnectTimer n \<notin> set b \<and> MtDisconnectCb \<notin> set b \<and> MtPostOnConnectError \<notin> set b"
      using 1(1) [OF nx [symmetric] r Some p(1,2)] .
    ultimately show ?thesis using p(3) by simp
  qed
qed

lemma mt_reads_quiet:
  "mt_reads chunks t = Inr (acts, t') \<Longrightarrow> MtDisconnectCb \<notin> set acts \<and> MtPostOnConnectError \<notin> set acts"
  by (induction chunks arbitrary: t acts)
    (auto simp: and_then_Inr_iff mt_onRead_def dest!: mt_readLoop_quiet split: if_splits)

text \<open>The way from a fresh connection to the active state.\<close>

lemma transport_establishes:
  assumes fresh: "fresh t" and acks: "mu_is kClassAspsm kTypeAspUpAck a" "mu_is kClassAsptm kTypeAspAcAck b" "mu_good a" "mu_good b"
    and octets: "concat chunks = m3ua_encode a @ m3ua_encode b"
  shows "\<exists>acts t'. transport_run ([TimerExpires False True True, ConnectCompletes False] @ map (MtReadCompletes False) chunks) t =
      Inr (acts, t') \<and> mt_state t' = Active \<and>
    mt_writeQueue t' = [m3ua_encode makeAspUp, m3ua_encode (makeAspAc (cfg_routingContext (mt_cfg t)))] \<and>
    m3ua_buf (mt_decoder t') = [] \<and> mt_cfg t' = mt_cfg t \<and>
    MtDisconnectCb \<notin> set acts \<and> MtPostOnConnectError \<notin> set acts \<and> mt_payloads_of acts = []"
proof -
  obtain acts2 t2 where c: "transport_run [TimerExpires False True True, ConnectCompletes False] t = Inr (acts2, t2)"
    "mt_state t2 = AspUp" "mt_writeQueue t2 = [m3ua_encode makeAspUp]" "m3ua_buf (mt_decoder t2) = []" "mt_cfg t2 = mt_cfg t"
    "MtDisconnectCb \<notin> set acts2" "MtPostOnConnectError \<notin> set acts2" "mt_payloads_of acts2 = []"
    using connect_fresh [OF fresh] by auto
  have ne: "kClassTransf \<noteq> kClassAspsm" "kClassTransf \<noteq> kClassAsptm" "kClassAsptm \<noteq> kClassAspsm" by (simp_all add: wire_consts)
  have none: "sccp_of a = None" "sccp_of b = None" using sccp_of_control acks(1,2) ne by auto
  then have safe: "list_all mu_safe [a, b]" by (simp add: mu_safe_def)
  obtain d where d: "receive m3ua_feed m3ua_drain (mt_decoder t2) chunks = ([a, b], None, d)" "m3ua_buf d = []"
    using m3ua_stream.receive_segmentation [of "[a, b]" "mt_decoder t2" chunks] acks(3,4) octets c(4) by auto
  then obtain t3 where y: "yields (mt_reads chunks t2) t2 (concat (map (mt_replies (mt_cfg t2)) [a, b])) (concat (map map_of_msg [a, b]))
      (foldl mt_next AspUp [a, b]) t3" "mt_decoder t3 = d"
    using mt_reads_yields [OF _ safe] c(2) by metis
  moreover have "concat (map (mt_replies (mt_cfg t2)) [a, b]) = [m3ua_encode (makeAspAc (cfg_routingContext (mt_cfg t)))]"
    "foldl mt_next AspUp [a, b] = Active" "concat (map map_of_msg [a, b]) = []"
    using ne c(5) mu_is_unique [OF acks(1)] mu_is_unique [OF acks(2)] none
    by (simp_all add: mt_replies_def mt_next_def map_of_msg_def)
  ultimately obtain acts3 where r: "mt_reads chunks t2 = Inr (acts3, t3)" "mt_state t3 = Active" "mt_payloads_of acts3 = []"
    "mt_writeQueue t3 = [m3ua_encode makeAspUp, m3ua_encode (makeAspAc (cfg_routingContext (mt_cfg t)))]" "mt_cfg t3 = mt_cfg t"
    using c(3,5) by (auto simp: yields_def)
  have "transport_run ([TimerExpires False True True, ConnectCompletes False] @ map (MtReadCompletes False) chunks) t =
      Inr (acts2 @ acts3, t3)"
    using transport_run_append [of "[TimerExpires False True True, ConnectCompletes False]" "map (MtReadCompletes False) chunks" t]
      c(1) r(1) transport_run_reads by simp
  then show ?thesis using c(6-8) mt_reads_quiet [OF r(1)] r(2-5) d(2) y(2) by auto
qed

section \<open>Properties\<close>

text \<open>
  C18: What the transport does with its input.  Whatever messages the Signalling Gateway sends, each
  encoded in at most 65536 octets, and however TCP cuts the stream, the read handlers return and do
  together what the reference says message by message: the MAP payloads of the SCCP Unitdata in DATA
  messages go to the proxy in order (a Unitdata that does not decode is skipped), an ASPUP_ACK is
  answered with ASPAC, a heartbeat with its data, and an ASPAC_ACK makes the transport active.  The
  addresses of every Unitdata must lie inside it, since the SCCP decoder does not check that.
\<close>

theorem transport_reads_messages:
  assumes "list_all (\<lambda>m. length (m3ua_encode m) \<le> 65536) ms" and "list_all mu_safe ms"
    and "concat chunks = concat (map m3ua_encode ms)" and "m3ua_buf (mt_decoder t) = []"
  shows "\<exists>acts t'. mt_reads chunks t = Inr (acts, t') \<and> mt_payloads_of acts = concat (map map_of_msg ms) \<and>
    mt_state t' = foldl mt_next (mt_state t) ms \<and>
    mt_writeQueue t' = mt_writeQueue t @ concat (map (mt_replies (mt_cfg t)) ms) \<and> m3ua_buf (mt_decoder t') = []"
proof -
  obtain d where "receive m3ua_feed m3ua_drain (mt_decoder t) chunks = (ms, None, d)" "m3ua_buf d = []"
    using m3ua_stream.receive_segmentation [of ms "mt_decoder t" chunks] assms by (auto simp: mu_good_def list_all_iff)
  then show ?thesis using mt_reads_yields [of t chunks ms d] assms(2) by (auto simp: yields_def)
qed

text \<open>The concrete transport and messages of the witnesses.\<close>

definition demo_cfg :: MapTransportConfig where
  "demo_cfg = MapTransportConfig_init\<lparr>cfg_opc := 1, cfg_dpc := 2, cfg_hlrGt := ''49161000000'', cfg_localGt := ''49161000001''\<rparr>"

definition demo_ack :: "byte \<Rightarrow> M3uaMessage" where
  "demo_ack c = \<lparr>mu_msgClass = c, mu_msgType = 2, mu_routingContext = None, mu_protocolData = None, mu_heartbeatData = []\<rparr>"

lemma demo_facts:
  "sends_digits demo_cfg" "mu_is kClassAspsm kTypeAspUpAck (demo_ack 3)" "mu_is kClassAsptm kTypeAspAcAck (demo_ack 4)"
  "length (m3ua_encode (demo_ack 3)) \<le> 65536" "length (m3ua_encode (demo_ack 4)) \<le> 65536"
  "sccp_of (demo_ack 3) = None"
  by (simp_all add: sends_digits_def demo_cfg_def isDigit_def mu_is_def demo_ack_def m3ua_encode_bytes mu_body_def
      sccp_of_def wire_consts)

theorem transport_reads_messages_witness:
  "\<exists>acts t'. mt_reads [m3ua_encode (demo_ack 3), m3ua_encode (data_for demo_cfg [1, 2])] (mt_new demo_cfg) = Inr (acts, t') \<and>
     mt_payloads_of acts = [[1, 2]]"
proof -
  let ?d = "data_for demo_cfg [1, 2]"
  have good: "length (m3ua_encode ?d) \<le> 65536" using data_for_good [OF demo_facts(1), of "[1, 2]"] by (simp add: mu_good_def)
  have dec: "decodeUdt (encodeUdt (udt_for demo_cfg [1, 2])) = Inr (udt_for demo_cfg [1, 2])"
    by (rule udt_for_decodes [OF demo_facts(1)]) simp
  have raw: "sccp_of ?d = Some (encodeUdt (udt_for demo_cfg [1, 2]))"
    by (simp add: sccp_of_def mu_is_def data_for_def makeData_def)
  have "map_of_msg (demo_ack 3) = []" "map_of_msg ?d = [[1, 2]]"
    using demo_facts(6) raw dec by (simp_all add: map_of_msg_def udt_for_def)
  moreover have "list_all mu_safe [demo_ack 3, ?d]" using demo_facts(6) raw dec by (simp add: mu_safe_def)
  ultimately show ?thesis
    using transport_reads_messages [of "[demo_ack 3, ?d]" "[m3ua_encode (demo_ack 3), m3ua_encode ?d]" "mt_new demo_cfg"]
      good demo_facts(4) by (auto simp: mt_new_def m3ua_new_def simp del: mt_reads.simps)
qed

text \<open>
  What the transport sends.  In the active state, with global titles of digits and a MAP payload
  of at most 255 octets, \<open>send\<close> queues exactly one frame, which the gateway decodes to a DATA message
  with the configured point codes and routing context, whose SCCP Unitdata carries the payload from
  the local global title to the one of the HLR.  In every other state nothing is sent or queued.
\<close>

lemma transport_send_wire:
  assumes "sends_digits (mt_cfg t)" and "length pl \<le> 255"
  shows "(mt_state t = Active \<longrightarrow> (\<exists>acts t' f m pd u. mt_send pl t = Inr (acts, t') \<and>
      mt_writeQueue t' = mt_writeQueue t @ [f] \<and> m3ua_decode f = Inr (Some m) \<and>
      mu_msgClass m = kClassTransf \<and> mu_msgType m = kTypeData \<and> mu_routingContext m = cfg_routingContext (mt_cfg t) \<and>
      mu_protocolData m = Some pd \<and> pd_si pd = kSiSccp \<and> pd_opc pd = cfg_opc (mt_cfg t) \<and> pd_dpc pd = cfg_dpc (mt_cfg t) \<and>
      decodeUdt (pd_userData pd) = Inr u \<and> u_data u = pl \<and> sa_digits (u_calledParty u) = cfg_hlrGt (mt_cfg t) \<and>
      sa_digits (u_callingParty u) = cfg_localGt (mt_cfg t))) \<and>
    (mt_state t \<noteq> Active \<longrightarrow> mt_send pl t = Inr ([], t))"
proof -
  let ?m = "data_for (mt_cfg t) pl"
  obtain acts t' where "mt_state t = Active \<longrightarrow> mt_send pl t = Inr (acts, t') \<and> mt_writeQueue t' = mt_writeQueue t @ [m3ua_encode ?m]"
    using yields_sendRaw [of ?m t] mt_send_active [of t pl] by (auto simp: yields_def)
  moreover have "m3ua_decode (m3ua_encode ?m) = Inr (Some ?m)" using m3ua_decode_bytes data_for_good [OF assms] by blast
  moreover obtain pd where pd: "mu_protocolData ?m = Some pd" "pd_userData pd = encodeUdt (udt_for (mt_cfg t) pl)" "pd_si pd = kSiSccp"
    "pd_opc pd = cfg_opc (mt_cfg t)" "pd_dpc pd = cfg_dpc (mt_cfg t)" "mu_msgClass ?m = kClassTransf" "mu_msgType ?m = kTypeData"
    "mu_routingContext ?m = cfg_routingContext (mt_cfg t)"
    by (simp add: data_for_def makeData_def)
  moreover have "decodeUdt (pd_userData pd) = Inr (udt_for (mt_cfg t) pl)"
    using udt_for_decodes [OF assms] pd(2) by simp
  moreover have "u_data (udt_for (mt_cfg t) pl) = pl" "sa_digits (u_calledParty (udt_for (mt_cfg t) pl)) = cfg_hlrGt (mt_cfg t)"
    "sa_digits (u_callingParty (udt_for (mt_cfg t) pl)) = cfg_localGt (mt_cfg t)"
    by (simp_all add: udt_for_def makeGtAddress_fields)
  moreover have "mt_state t \<noteq> Active \<longrightarrow> mt_send pl t = Inr ([], t)" by (simp add: mt_send_def)
  ultimately show ?thesis by blast
qed

text \<open>
  The transport recovers.  In every state but stopped, a read or write error reports the
  disconnect to the proxy exactly once, and after it, when the gateway can be reached again and sends
  its ASPUP_ACK and ASPAC_ACK, however cut, the transport is active, and all it has queued on the new
  connection is ASPUP and ASPAC: nothing of the old queue or of a message received in part is left.
\<close>

lemma transport_recovers:
  assumes "mt_state t \<noteq> TransportStopped" and "ev = MtReadCompletes True data \<or> ev = MtWriteCompletes True"
    and "mu_is kClassAspsm kTypeAspUpAck a" and "mu_is kClassAsptm kTypeAspAcAck b"
    and "length (m3ua_encode a) \<le> 65536" and "length (m3ua_encode b) \<le> 65536"
    and "concat chunks = m3ua_encode a @ m3ua_encode b"
  shows "\<exists>acts t'. transport_run ([ev, TimerExpires False True True, ConnectCompletes False] @
      map (MtReadCompletes False) chunks) t = Inr (acts, t') \<and> mt_state t' = Active \<and>
    mt_writeQueue t' = [m3ua_encode makeAspUp, m3ua_encode (makeAspAc (cfg_routingContext (mt_cfg t)))] \<and>
    filter (\<lambda>x. x = MtDisconnectCb) acts = [MtDisconnectCb]"
proof -
  obtain acts1 t1 where e: "transport_event ev t = Inr (acts1, t1)" "fresh t1" "mt_cfg t1 = mt_cfg t"
    "filter (\<lambda>x. x = MtDisconnectCb) acts1 = [MtDisconnectCb]"
    using error_resets [OF assms(1,2)] by blast
  have good: "mu_good a" "mu_good b" using assms(5,6) by (simp_all add: mu_good_def)
  obtain acts2 t2 where c: "transport_run ([TimerExpires False True True, ConnectCompletes False] @ map (MtReadCompletes False) chunks) t1 =
      Inr (acts2, t2)" "mt_state t2 = Active"
    "mt_writeQueue t2 = [m3ua_encode makeAspUp, m3ua_encode (makeAspAc (cfg_routingContext (mt_cfg t)))]" "MtDisconnectCb \<notin> set acts2"
    using transport_establishes [OF e(2) assms(3,4) good assms(7)] e(3) by metis
  have "transport_run ([ev, TimerExpires False True True, ConnectCompletes False] @ map (MtReadCompletes False) chunks) t =
      Inr (acts1 @ acts2, t2)"
    using e(1) c(1) by simp
  moreover have "filter (\<lambda>x. x = MtDisconnectCb) acts2 = []" using c(4) by (auto simp: filter_empty_conv)
  ultimately show ?thesis using e(4) c(2,3) by auto
qed

text \<open>
  C35: The reconnect interval of the configuration is never used.  Every handler that schedules a new
  attempt has set the state to disconnected before, so the delay is always 0: while the gateway is
  down, attempts follow each other without a pause.
\<close>

theorem transport_reconnects_at_once:
  assumes "transport_event ev t = Inr (acts, t')" and "MtReconnectTimer n \<in> set acts"
  shows "n = 0"
  using assms
  by (cases ev)
    (auto simp: mt_onReconnectTimer_def mt_connect_def mt_onConnect_def mt_onRead_def mt_onWrite_def mt_onBeatTimer_def onBeat_def
      startBeat_def mt_send_def mt_stop_def scheduleConnect_def resetConnection_def sendAspUp_def sendRaw_def and_then_Inr_iff
      rbind_Inr_iff Let_def dest!: mt_readLoop_quiet [where n = n] split: if_splits prod.splits)

theorem transport_reconnects_at_once_witness:
  "\<exists>acts t'. transport_event (ConnectCompletes True) (mt_new MapTransportConfig_init) = Inr (acts, t') \<and>
     MtReconnectTimer 0 \<in> set acts \<and> cfg_reconnectInterval MapTransportConfig_init = 5"
proof -
  obtain acts t' n where r: "transport_event (ConnectCompletes True) (mt_new MapTransportConfig_init) = Inr (acts, t')"
    "MtReconnectTimer n \<in> set acts"
    by (auto simp: mt_onConnect_def scheduleConnect_def mt_new_def resetConnection_def)
  moreover have "n = 0" by (rule transport_reconnects_at_once [OF r])
  ultimately show ?thesis by (auto simp: MapTransportConfig_init_def)
qed

text \<open>
  C34: A write that completes after the connection was reset is undefined behaviour.  When the read
  handler sees the end of the connection while a write has succeeded and its handler is still to
  run, the reset has emptied the queue, and the completion handler removes the first element of an
  empty deque.  This happens in a run of a fresh transport, whatever its configuration: it connects,
  the ASPUP is written, and the gateway closes the connection before the handler of the write runs.
\<close>

theorem transport_stale_write:
  "(mt_state t \<noteq> TransportStopped \<longrightarrow> transport_run [MtReadCompletes True data, MtWriteCompletes False] t =
      Inl (undefined_behaviour ''pop_front on an empty deque'')) \<and>
   (\<exists>acts t1. transport_run [TimerExpires False True True, ConnectCompletes False] (mt_new cfg) = Inr (acts, t1) \<and>
      MtAsyncWrite (m3ua_encode makeAspUp) \<in> set acts) \<and>
   transport_run [TimerExpires False True True, ConnectCompletes False, MtReadCompletes True [], MtWriteCompletes False] (mt_new cfg) =
     Inl (undefined_behaviour ''pop_front on an empty deque'')"
proof -
  have stale: "transport_run [MtReadCompletes True data, MtWriteCompletes False] t =
      Inl (undefined_behaviour ''pop_front on an empty deque'')" if "mt_state t \<noteq> TransportStopped" for t data
    using that by (simp add: mt_onRead_def mt_onWrite_def mt_written_def resetConnection_def scheduleConnect_def Let_def)
  obtain acts t1 where c: "transport_run [TimerExpires False True True, ConnectCompletes False] (mt_new cfg) = Inr (acts, t1)"
    "mt_state t1 = AspUp"
    using connect_fresh [of "mt_new cfg"] by (auto simp: fresh_def mt_new_def m3ua_new_def)
  have "MtAsyncWrite (m3ua_encode makeAspUp) \<in> set acts"
    using c(1) by (auto simp: mt_onReconnectTimer_def mt_connect_def mt_onConnect_def sendAspUp_def sendRaw_def
        mt_enqueue_def mt_doWrite_def mt_new_def Let_def)
  moreover have "transport_run ([TimerExpires False True True, ConnectCompletes False] @ [MtReadCompletes True [], MtWriteCompletes False])
      (mt_new cfg) = Inl (undefined_behaviour ''pop_front on an empty deque'')"
    unfolding transport_run_append c(1) using stale [of t1 "[]"] c(2) by simp
  ultimately show ?thesis using stale c(1) by simp
qed

theorem transport_stale_write_witness:
  "transport_run [MtReadCompletes True [], MtWriteCompletes False] (mt_new MapTransportConfig_init) =
     Inl (undefined_behaviour ''pop_front on an empty deque'')"
  using transport_stale_write [of "mt_new MapTransportConfig_init" "[]"] by (simp add: mt_new_def del: transport_run.simps)

end
