(* ===== verification/System.thy ===== *)
theory System
  imports ProxyRuns IpaServer MapTransport
begin

text \<open>
  The program as \<open>main\<close> puts it together: the proxy between the two transports, on one event loop.
  The transports call the proxy synchronously from their handlers, through the callbacks that
  \<open>Proxy::start\<close> registers; the proxy calls \<open>send\<close> of the transports, which posts a function to the
  event loop.  Posted functions run one after the other in the order in which they were posted.
  One event is one handler run by the loop.  The handler reads the clock once in the model, the code
  once per call of the proxy.
\<close>

section \<open>State\<close>

text \<open>The posted functions: \<open>IpaServer::send\<close>, \<open>IpaSession::sendGsup\<close>, \<open>MapTransport::send\<close> and \<open>onConnect\<close> with an error.\<close>

datatype Task =
    ServerSend bytes ClientId
  | SessionSend session_ref bytes
  | TransportSend bytes
  | ConnectFailed

record System =
  sys_proxy :: Proxy
  sys_server :: IpaServer
  sys_transport :: MapTransport
  sys_tasks :: "Task list"

definition system_new :: "int \<Rightarrow> MapTransportConfig \<Rightarrow> System" where
  "system_new limit cfg =
     \<lparr>sys_proxy = proxy_new limit, sys_server = srv_new, sys_transport = mt_new cfg, sys_tasks = []\<rparr>"

section \<open>Calls between the components\<close>

fun task_of :: "Action \<Rightarrow> Task" where
  "task_of (SendSgsn d c) = ServerSend d c"
| "task_of (SendHlr d) = TransportSend d"

definition call_proxy :: "int \<Rightarrow> Event \<Rightarrow> System \<Rightarrow> System result" where
  "call_proxy now ev sys =
     rbind (proxy_event now ev (sys_proxy sys)) (\<lambda>(acts, p).
       Inr (sys\<lparr>sys_proxy := p, sys_tasks := sys_tasks sys @ map task_of acts\<rparr>))"

text \<open>What the callbacks and posts of a handler of the server do; operations on sockets are left to asio.\<close>

fun server_effect :: "int \<Rightarrow> ServerAct \<Rightarrow> System \<Rightarrow> System result" where
  "server_effect now (MessageCb d i) sys = call_proxy now (SgsnMessage d i) sys"
| "server_effect now (PostEnqueue ref f) sys = Inr (sys\<lparr>sys_tasks := sys_tasks sys @ [SessionSend ref f]\<rparr>)"
| "server_effect now _ sys = Inr sys"

text \<open>\<open>order\<close> is the order in which the proxy visits its pending operations on a disconnect.\<close>

fun transport_effect :: "int \<Rightarrow> u32 list \<Rightarrow> TransportAct \<Rightarrow> System \<Rightarrow> System result" where
  "transport_effect now order (MtMessageCb pl) sys = call_proxy now (HlrMessage pl) sys"
| "transport_effect now order MtDisconnectCb sys = call_proxy now (HlrDisconnected order) sys"
| "transport_effect now order MtPostOnConnectError sys = Inr (sys\<lparr>sys_tasks := sys_tasks sys @ [ConnectFailed]\<rparr>)"
| "transport_effect now order _ sys = Inr sys"

definition server_handler :: "int \<Rightarrow> (ServerAct list \<times> IpaServer) result \<Rightarrow> System \<Rightarrow> System result" where
  "server_handler now r sys =
     rbind r (\<lambda>(out, sv). foldM (server_effect now) out (sys\<lparr>sys_server := sv\<rparr>))"

definition transport_handler :: "int \<Rightarrow> u32 list \<Rightarrow> mt_result \<Rightarrow> System \<Rightarrow> System result" where
  "transport_handler now order r sys =
     rbind r (\<lambda>(acts, t). foldM (transport_effect now order) acts (sys\<lparr>sys_transport := t\<rparr>))"

section \<open>The event loop\<close>

datatype SystemEvent =
    ServerIo ServerEvent
  | TransportIo TransportEvent "u32 list"
  | RunTask "client_id list" "u32 list"
  | Timer "u32 list" int "string list"

fun run_task :: "int \<Rightarrow> client_id list \<Rightarrow> u32 list \<Rightarrow> Task \<Rightarrow> System \<Rightarrow> System result" where
  "run_task now sessions order (ServerSend d c) sys =
     rbind (srv_send d c sessions (sys_server sys)) (\<lambda>out. foldM (server_effect now) out sys)"
| "run_task now sessions order (SessionSend ref f) sys =
     server_handler now (server_event (SessionEnqueue ref f) (sys_server sys)) sys"
| "run_task now sessions order (TransportSend d) sys =
     transport_handler now order (transport_event (SendMap d) (sys_transport sys)) sys"
| "run_task now sessions order ConnectFailed sys =
     transport_handler now order (transport_event (ConnectCompletes True) (sys_transport sys)) sys"

fun system_event :: "int \<Rightarrow> SystemEvent \<Rightarrow> System \<Rightarrow> System result" where
  "system_event now (ServerIo ev) sys = server_handler now (server_event ev (sys_server sys)) sys"
| "system_event now (TransportIo ev order) sys = transport_handler now order (transport_event ev (sys_transport sys)) sys"
| "system_event now (RunTask sessions order) sys =
     (case sys_tasks sys of [] \<Rightarrow> Inr sys | t # ts \<Rightarrow> run_task now sessions order t (sys\<lparr>sys_tasks := ts\<rparr>))"
| "system_event now (Timer order now' hlrOrder) sys = call_proxy now (Tick order now' hlrOrder) sys"

fun system_run :: "(int \<times> SystemEvent) list \<Rightarrow> System \<Rightarrow> System result" where
  "system_run [] sys = Inr sys"
| "system_run ((now, ev) # evs) sys = rbind (system_event now ev sys) (system_run evs)"

lemma system_run_append: "system_run (evs @ evs') sys = rbind (system_run evs sys) (system_run evs')"
proof (induction evs arbitrary: sys)
  case (Cons e evs)
  then show ?case by (cases e) (simp add: rbind_assoc cong: rbind_cong)
qed simp

section \<open>Effects that concern the other components\<close>

lemma effects_silent [simp]:
  "foldM (server_effect now) (map (SessionIo ref \<circ> AsyncWrite) ws) sys = Inr sys"
  "foldM (transport_effect now order) (map MtAsyncWrite ws) sys = Inr sys"
  by (induction ws) simp_all

section \<open>From an SGSN to the gateway\<close>

text \<open>A ready session that is at a frame boundary.\<close>

definition at_frame :: "session_ref \<Rightarrow> IpaServer \<Rightarrow> bool" where
  "at_frame ref sv \<longleftrightarrow> ref < length (srv_heap sv) \<and> ss_state (srv_session ref sv) = Ready \<and>
     ipa_buf (ss_decoder (srv_session ref sv)) = []"

lemma session_reads_gsup:
  assumes "ss_state s = Ready" and "ipa_buf (ss_decoder s) = []" and "length pl \<le> 4095"
  shows "ss_onRead False (ipa_wire (gsup_frame pl)) s = Inr ([OnGsup pl, AsyncRead], s)"
proof -
  let ?d = "ipa_feed (ss_decoder s) (ipa_wire (gsup_frame pl))"
  have good: "ipa_good (gsup_frame pl)" using assms(3) by (simp add: ipa_good_def gsup_frame_def)
  have dec: "ss_decoder s = \<lparr>ipa_buf = []\<rparr>" using assms(2) by simp
  have "ipa_next ?d = (Inr (Some (gsup_frame pl)), ss_decoder s)"
    using ipa_next_wire [OF good, of ?d "[]"] by (simp add: dec ipa_feed_def)
  moreover have "ipa_next (ss_decoder s) = (Inr None, ss_decoder s)" using ipa_stream.get_empty [OF assms(2)] .
  moreover have "processFrame (gsup_frame pl) s = Inr ([OnGsup pl], s)"
    using assms(1) by (simp add: processFrame_def gsup_frame_def wire_consts)
  ultimately have "ss_readLoop (s\<lparr>ss_decoder := ?d\<rparr>) = Inr ([OnGsup pl], s)"
    by (simp add: ss_readLoop.simps)
  then show ?thesis using assms(1) by (simp add: ss_onRead_def)
qed

lemma server_reads_gsup:
  assumes "at_frame ref sv" and "length pl \<le> 4095"
  shows "server_event (SessionRead ref False (ipa_wire (gsup_frame pl))) sv =
    Inr ([MessageCb pl (fst (srv_heap sv ! ref)), SessionIo ref AsyncRead], sv)"
proof -
  let ?s = "srv_session ref sv"
  have "(srv_heap sv)[ref := (fst (srv_heap sv ! ref), ?s)] = srv_heap sv" by (simp add: srv_session_def)
  then show ?thesis
    using assms session_reads_gsup [of ?s pl] by (simp add: at_frame_def srv_onSession_def)
qed

lemma system_reads_gsup:
  assumes "at_frame ref (sys_server sys)" and "length pl \<le> 4095"
  shows "system_event now (ServerIo (SessionRead ref False (ipa_wire (gsup_frame pl)))) sys =
    call_proxy now (SgsnMessage pl (fst (srv_heap (sys_server sys) ! ref))) sys"
  using server_reads_gsup [OF assms]
  by (cases "call_proxy now (SgsnMessage pl (fst (srv_heap (sys_server sys) ! ref))) sys") (simp_all add: server_handler_def)

lemma system_sends_map:
  assumes "sys_tasks sys = [TransportSend bs]" and "mt_state (sys_transport sys) = Active"
  shows "\<exists>sys'. system_event now (RunTask ss os) sys = Inr sys' \<and> sys_tasks sys' = [] \<and> sys_proxy sys' = sys_proxy sys \<and>
    sys_server sys' = sys_server sys \<and> mt_state (sys_transport sys') = Active \<and>
    mt_decoder (sys_transport sys') = mt_decoder (sys_transport sys) \<and>
    mt_writeQueue (sys_transport sys') = mt_writeQueue (sys_transport sys) @ [m3ua_encode (data_for (mt_cfg (sys_transport sys)) bs)]"
proof -
  let ?t = "sys_transport sys" and ?m = "data_for (mt_cfg (sys_transport sys)) bs"
  obtain ws t' where e: "mt_enqueue (m3ua_encode ?m) ?t = (ws, t')" by force
  have q: "mt_writeQueue t' = mt_writeQueue ?t @ [m3ua_encode ?m]" "mt_state t' = mt_state ?t" "mt_decoder t' = mt_decoder ?t"
    using e by (auto simp: mt_enqueue_def mt_doWrite_def Let_def split: if_splits)
  have "mt_send bs ?t = Inr (map MtAsyncWrite ws, t')" using e assms(2) by (simp add: mt_send_active sendRaw_def)
  then show ?thesis
    using assms q by (simp add: transport_handler_def)
qed

section \<open>From the gateway to an SGSN\<close>

lemma transport_reads_data:
  assumes "mt_state t = Active" and "m3ua_buf (mt_decoder t) = []" and "mu_good m" and "sccp_of m = Some raw"
    and "decodeUdt raw = Inr u"
  shows "mt_onRead False (m3ua_encode m) t = Inr ([MtMessageCb (u_data u), MtAsyncRead], t)"
proof -
  let ?d = "m3ua_feed (mt_decoder t) (m3ua_encode m)"
  have dec: "mt_decoder t = \<lparr>m3ua_buf = []\<rparr>" using assms(2) by simp
  have "m3ua_next ?d = (Inr (Some m), mt_decoder t)"
    using m3ua_next_wire [OF assms(3), of ?d "[]"] by (simp add: dec m3ua_feed_def)
  moreover have "m3ua_next (mt_decoder t) = (Inr None, mt_decoder t)" using m3ua_stream.get_empty [OF assms(2)] .
  moreover have "processMessage m t = Inr ([MtMessageCb (u_data u)], t)" using processMessage_eq(4) [OF assms(4)] assms(5) by simp
  ultimately have "mt_readLoop (t\<lparr>mt_decoder := ?d\<rparr>) = Inr ([MtMessageCb (u_data u)], t)"
    by (simp add: mt_readLoop.simps)
  then show ?thesis using assms(1) by (simp add: mt_onRead_def)
qed

lemma system_reads_map:
  assumes "mt_state (sys_transport sys) = Active" and "m3ua_buf (mt_decoder (sys_transport sys)) = []" and "mu_good m"
    and "sccp_of m = Some raw" and "decodeUdt raw = Inr u"
  shows "system_event now (TransportIo (MtReadCompletes False (m3ua_encode m)) os) sys = call_proxy now (HlrMessage (u_data u)) sys"
  using transport_reads_data [OF assms]
  by (cases "call_proxy now (HlrMessage (u_data u)) sys") (simp_all add: transport_handler_def)

text \<open>The two posted functions that bring a message to a session.\<close>

lemma system_sends_gsup:
  assumes "sys_tasks sys = [ServerSend d i]" and "i \<noteq> 0" and "srv_sessions (sys_server sys) i = Some ref"
    and "ref < length (srv_heap (sys_server sys))" and "ss_state (srv_session ref (sys_server sys)) = Ready" and "length d \<le> 0xFFFF"
  shows "\<exists>sys'. system_run [(now, RunTask ss os), (now', RunTask ss os)] sys = Inr sys' \<and> sys_tasks sys' = [] \<and>
    sys_proxy sys' = sys_proxy sys \<and> sys_transport sys' = sys_transport sys \<and>
    ss_writeQueue (srv_session ref (sys_server sys')) =
      ss_writeQueue (srv_session ref (sys_server sys)) @ [ipa_wire (gsup_frame d)]"
proof -
  let ?sv = "sys_server sys" and ?w = "ipa_wire (gsup_frame d)"
  have "srv_send d i ss ?sv = Inr [PostEnqueue ref ?w]"
    using assms(2-6) by (simp add: srv_send_def srv_sendTo_def ss_isReady_def ss_sendGsup_def ipa_encode_wire gsup_frame_def)
  then have "system_event now (RunTask ss os) sys = Inr (sys\<lparr>sys_tasks := [SessionSend ref ?w]\<rparr>)" using assms(1) by simp
  moreover obtain ws s' where e: "ss_enqueue ?w (srv_session ref ?sv) = (ws, s')" by force
  have q: "ss_writeQueue s' = ss_writeQueue (srv_session ref ?sv) @ [?w]"
    using e by (auto simp: ss_enqueue_def ss_doWrite_def Let_def split: if_splits)
  have cb: "srv_callbacks ref i (map AsyncWrite ws) sv = (map (SessionIo ref \<circ> AsyncWrite) ws, sv)" for i sv
    by (induction ws) simp_all
  have "server_event (SessionEnqueue ref ?w) ?sv = Inr (map (SessionIo ref \<circ> AsyncWrite) ws,
      ?sv\<lparr>srv_heap := (srv_heap ?sv)[ref := (fst (srv_heap ?sv ! ref), s')]\<rparr>)"
    using assms(4) e by (simp add: srv_onSession_def ss_send_def cb)
  then have "system_event now' (RunTask ss os) (sys\<lparr>sys_tasks := [SessionSend ref ?w]\<rparr>) =
      Inr (sys\<lparr>sys_tasks := [], sys_server := ?sv\<lparr>srv_heap := (srv_heap ?sv)[ref := (fst (srv_heap ?sv ! ref), s')]\<rparr>\<rparr>)"
    by (simp add: server_handler_def)
  ultimately show ?thesis using q assms(4) by (simp add: srv_session_def)
qed

section \<open>A request and its answer, from wire to wire\<close>

text \<open>
  What the gateway finds in a frame of the transport: a DATA message with a Unitdata that carries
  the payload; and what an SGSN finds in a frame of a session.
\<close>

definition gateway_gets :: "bytes \<Rightarrow> bytes \<Rightarrow> bool" where
  "gateway_gets f bs \<longleftrightarrow> (\<exists>m pd u. m3ua_decode f = Inr (Some m) \<and> mu_msgClass m = kClassTransf \<and> mu_msgType m = kTypeData \<and>
     mu_protocolData m = Some pd \<and> decodeUdt (pd_userData pd) = Inr u \<and> u_data u = bs)"

definition sgsn_gets :: "bytes \<Rightarrow> bytes \<Rightarrow> bool" where
  "sgsn_gets w pl \<longleftrightarrow> ipa_next (ipa_feed ipa_new w) = (Inr (Some \<lparr>streamId = kStreamGsup, payload = pl\<rparr>), ipa_new)"

lemma gateway_gets_data:
  assumes "sends_digits cfg" and "length bs \<le> 255"
  shows "gateway_gets (m3ua_encode (data_for cfg bs)) bs"
proof -
  have "m3ua_decode (m3ua_encode (data_for cfg bs)) = Inr (Some (data_for cfg bs))"
    using m3ua_decode_bytes data_for_good [OF assms] by blast
  then show ?thesis
    using udt_for_decodes [OF assms] by (simp add: gateway_gets_def) (simp add: data_for_def makeData_def udt_for_def)
qed

lemma sgsn_gets_gsup: "length pl \<le> 4095 \<Longrightarrow> sgsn_gets (ipa_wire (gsup_frame pl)) pl"
  using ipa_next_wire [of "gsup_frame pl" "ipa_feed ipa_new (ipa_wire (gsup_frame pl))" "[]"]
  by (simp add: sgsn_gets_def ipa_good_def gsup_frame_def ipa_feed_def ipa_new_def)

lemma request_to_gateway:
  assumes at: "at_frame ref (sys_server sys)" and i: "i = fst (srv_heap (sys_server sys) ! ref)"
    and req: "gsup_wf g" "gsup_encode g = Inr pl" "(g_type g, op) \<in> set sgsn_requests" "length pl \<le> 4095"
      "\<And>x. g_msisdn g = Some x \<Longrightarrow> length x \<le> 100"
    and free: "find_tx (txMgr (sys_proxy sys)) (next_tid (txMgr (sys_proxy sys))) = None"
    and hlr: "mt_state (sys_transport sys) = Active" "sends_digits (mt_cfg (sys_transport sys))" and idle: "sys_tasks sys = []"
  shows "\<exists>sys' f bs r. system_run [(now, ServerIo (SessionRead ref False (ipa_wire (gsup_frame pl)))), (now', RunTask ss os)] sys = Inr sys' \<and>
    mt_writeQueue (sys_transport sys') = mt_writeQueue (sys_transport sys) @ [f] \<and> gateway_gets f bs \<and> map_decode bs = Inr r \<and>
    m_component r = Invoke \<and> m_operation r = op \<and> m_imsi r = g_imsi g \<and> m_transactionId r = next_tid (txMgr (sys_proxy sys)) \<and>
    sys_tasks sys' = [] \<and> sys_server sys' = sys_server sys \<and> mt_state (sys_transport sys') = Active \<and>
    mt_decoder (sys_transport sys') = mt_decoder (sys_transport sys) \<and>
    pending (sys_proxy sys') (next_tid (txMgr (sys_proxy sys))) (next_entry (g_imsi g, i, now) (txMgr (sys_proxy sys))) op"
proof -
  let ?p = "sys_proxy sys" and ?cfg = "mt_cfg (sys_transport sys)"
  obtain bs r p' where f: "handleGsupPayload now pl i ?p = Inr ([SendHlr bs], p')" "map_decode bs = Inr r" "bs = map_pdu r"
    "gsupToMap g (next_tid (txMgr ?p)) (fst (nextInvokeId (txMgr ?p))) = Inr r" "m_operation r = op"
    "find_tx (txMgr p') = (find_tx (txMgr ?p))(next_tid (txMgr ?p) \<mapsto> next_entry (g_imsi g, i, now) (txMgr ?p))"
    "pendingOps p' = (pendingOps ?p)(next_tid (txMgr ?p) \<mapsto> op)"
    using forward_ok [OF req(1-3) free, of now i] by blast
  have imsi: "length (g_imsi g) \<le> 15" using req(1) by (simp add: gsup_wf_def)
  have "length bs \<le> 255" using length_map_pdu_le(2) [OF gsupToMap_argBody [OF f(4) imsi req(5)]] f(3) by simp
  then have gets: "gateway_gets (m3ua_encode (data_for ?cfg bs)) bs" using gateway_gets_data hlr(2) by blast
  let ?sys1 = "sys\<lparr>sys_proxy := p', sys_tasks := [TransportSend bs]\<rparr>"
  have "system_event now (ServerIo (SessionRead ref False (ipa_wire (gsup_frame pl)))) sys = Inr ?sys1"
    using system_reads_gsup [OF at req(4)] f(1) idle i by (simp add: call_proxy_def proxy_event_def)
  moreover obtain sys' where "system_event now' (RunTask ss os) ?sys1 = Inr sys'" "sys_tasks sys' = []" "sys_proxy sys' = p'"
    "sys_server sys' = sys_server sys" "mt_state (sys_transport sys') = Active" "mt_decoder (sys_transport sys') = mt_decoder (sys_transport sys)"
    "mt_writeQueue (sys_transport sys') = mt_writeQueue (sys_transport sys) @ [m3ua_encode (data_for ?cfg bs)]"
    using system_sends_map [of ?sys1 bs now' ss os] hlr(1) by auto
  moreover have "pending p' (next_tid (txMgr ?p)) (next_entry (g_imsi g, i, now) (txMgr ?p)) op" using f(6,7) by (simp add: pending_def)
  ultimately show ?thesis using f(2,5) gets gsupToMap_envelope [OF f(4)] by auto
qed

lemma answer_to_sgsn:
  assumes pend: "pending (sys_proxy sys) tid t op" "op \<in> snd ` set sgsn_requests" "clientContext t = i"
    and answer: "m_component r = ReturnResult" "m_operation r = op" "m_transactionId r = tid" "map_encode r = Inr bs"
      "list_all isDigit (m_imsi r)" "mapToGsup (r\<lparr>m_imsi := tx_imsi t\<rparr>) = Inr a" "gsup_wf a"
    and wire: "mu_good m" "sccp_of m = Some raw" "decodeUdt raw = Inr u" "u_data u = bs"
    and hlr: "mt_state (sys_transport sys) = Active" "m3ua_buf (mt_decoder (sys_transport sys)) = []" and idle: "sys_tasks sys = []"
    and sgsn: "i \<noteq> 0" "srv_sessions (sys_server sys) i = Some ref" "ref < length (srv_heap (sys_server sys))"
      "ss_state (srv_session ref (sys_server sys)) = Ready" "gsup_encode a = Inr data" "length data \<le> 4095"
  shows "\<exists>sys' w. system_run [(now, TransportIo (MtReadCompletes False (m3ua_encode m)) os), (now', RunTask ss os), (now'', RunTask ss os)] sys =
      Inr sys' \<and>
    ss_writeQueue (srv_session ref (sys_server sys')) = ss_writeQueue (srv_session ref (sys_server sys)) @ [w] \<and>
    sgsn_gets w data \<and> gsup_decode data = Inr a \<and> find_tx (txMgr (sys_proxy sys')) tid = None"
proof -
  let ?p = "sys_proxy sys"
  have h: "handleMapPayload now bs ?p = Inr ([SendSgsn data i], drop_tx tid ?p)" "gsup_decode data = Inr a"
    using answer_result [OF pend(1,2) answer(1-5), of a now] answer(6,7) sgsn(5) pend(3) by auto
  let ?sys1 = "sys\<lparr>sys_proxy := drop_tx tid ?p, sys_tasks := [ServerSend data i]\<rparr>"
  have read: "system_event now (TransportIo (MtReadCompletes False (m3ua_encode m)) os) sys = Inr ?sys1"
    using system_reads_map [OF hlr wire(1-3)] h(1) wire(4) idle by (simp add: call_proxy_def proxy_event_def)
  obtain sys' where "system_run [(now', RunTask ss os), (now'', RunTask ss os)] ?sys1 = Inr sys'" "sys_proxy sys' = drop_tx tid ?p"
    "ss_writeQueue (srv_session ref (sys_server sys')) = ss_writeQueue (srv_session ref (sys_server sys)) @ [ipa_wire (gsup_frame data)]"
    using system_sends_gsup [of ?sys1 data i ref now' ss os now''] sgsn by auto
  moreover have "find_tx (txMgr (drop_tx tid ?p)) tid = None"
    using tx.find_remove [of "txMgr ?p" tid tid] by (simp add: drop_tx_def)
  ultimately show ?thesis using read h(2) sgsn_gets_gsup [OF sgsn(6)] by auto
qed

end
