(* ===== verification/SystemRuns.thy ===== *)
theory SystemRuns
  imports System
begin

text \<open>
  Runs of the whole program: the handlers the event loop can run, in any order.  A completion handler
  runs only for an operation that is outstanding, the iteration orders are orders of the keys of the
  tables, and the functions that \<open>main\<close> never calls do not occur.  Every such run is a run of the proxy
  alone, so what was shown of the proxy holds of the program; and the theory says what can end it.
\<close>

section \<open>Runs\<close>

definition server_ok :: "ServerEvent \<Rightarrow> IpaServer \<Rightarrow> bool" where
  "server_ok ev sv \<longleftrightarrow>
     (case ev of
        Accepted ec \<Rightarrow> True
      | AcceptedGone \<Rightarrow> True
      | SessionRead ref ec data \<Rightarrow> ref < length (srv_heap sv)
      | SessionWritten ref ec \<Rightarrow> ref < length (srv_heap sv) \<and> ss_writing (srv_session ref sv)
      | _ \<Rightarrow> False)"

definition transport_ok :: "TransportEvent \<Rightarrow> u32 list \<Rightarrow> Proxy \<Rightarrow> bool" where
  "transport_ok ev order p \<longleftrightarrow>
     (case ev of
        MtReadCompletes ec data \<Rightarrow> ec \<longrightarrow> event_ok (HlrDisconnected order) p
      | MtWriteCompletes ec \<Rightarrow> ec \<longrightarrow> event_ok (HlrDisconnected order) p
      | SendMap pl \<Rightarrow> False
      | StopTransport \<Rightarrow> False
      | _ \<Rightarrow> True)"

definition system_ok :: "SystemEvent \<Rightarrow> System \<Rightarrow> bool" where
  "system_ok ev sys \<longleftrightarrow>
     (case ev of
        ServerIo e \<Rightarrow> server_ok e (sys_server sys)
      | TransportIo e order \<Rightarrow> transport_ok e order (sys_proxy sys)
      | RunTask sessions order \<Rightarrow> distinct sessions \<and> set sessions = dom (srv_sessions (sys_server sys))
      | Timer order now' hlrOrder \<Rightarrow> event_ok (Tick order now' hlrOrder) (sys_proxy sys))"

text \<open>The posted function a handler takes from the queue of the loop.\<close>

definition task_done :: "SystemEvent \<Rightarrow> System \<Rightarrow> Task list" where
  "task_done ev sys = (case ev of RunTask _ _ \<Rightarrow> take 1 (sys_tasks sys) | _ \<Rightarrow> [])"

inductive system_reach :: "int \<Rightarrow> MapTransportConfig \<Rightarrow> (int \<times> SystemEvent) list \<Rightarrow> Task list \<Rightarrow> System \<Rightarrow> bool" where
  reach_new: "system_reach limit cfg [] [] (system_new limit cfg)"
| reach_step: "system_reach limit cfg evs hist sys \<Longrightarrow> system_ok ev sys \<Longrightarrow> system_event now ev sys = Inr sys' \<Longrightarrow>
    system_reach limit cfg (evs @ [(now, ev)]) (hist @ task_done ev sys) sys'"

section \<open>Every run is a run of the proxy\<close>

lemma proxy_run_single: "proxy_step p l p' \<Longrightarrow> proxy_run p [l] p'"
  using run_step [OF run_nil] by fastforce

lemma proxy_run_trans:
  assumes "proxy_run p tr p1" and "proxy_run p1 tr' p2"
  shows "proxy_run p (tr @ tr') p2"
  using assms(2,1)
proof (induction rule: proxy_run.induct)
  case (run_step p1 tr' p2 l p3)
  then show ?case using proxy_run.run_step by (metis append_assoc)
qed simp

text \<open>The posted functions that a call of \<open>send\<close> by the proxy caused.\<close>

fun from_proxy :: "Task \<Rightarrow> bool" where
  "from_proxy (ServerSend d c) = True"
| "from_proxy (TransportSend d) = True"
| "from_proxy _ = False"

lemma from_proxy_task_of [simp]: "from_proxy (task_of a)"
  by (cases a) simp_all

definition posts :: "label list \<Rightarrow> Task list" where
  "posts tr = concat (map (\<lambda>(now, ev, acts). map task_of acts) tr)"

lemma posts_simps [simp]: "posts [] = []" "posts (tr @ tr') = posts tr @ posts tr'" "posts [(now, ev, acts)] = map task_of acts"
  by (simp_all add: posts_def)

text \<open>Part of a handler that calls the proxy, perhaps several times.\<close>

definition calls :: "System \<Rightarrow> System \<Rightarrow> bool" where
  "calls sys sys' \<longleftrightarrow> (\<exists>tr. proxy_run (sys_proxy sys) tr (sys_proxy sys') \<and>
     filter from_proxy (sys_tasks sys') = filter from_proxy (sys_tasks sys) @ posts tr)"

lemma calls_silent: "sys_proxy sys' = sys_proxy sys \<Longrightarrow> filter from_proxy (sys_tasks sys') = filter from_proxy (sys_tasks sys) \<Longrightarrow> calls sys sys'"
  using run_nil by (auto simp: calls_def intro!: exI [of _ "[]"])

lemma calls_trans: "calls sys sys1 \<Longrightarrow> calls sys1 sys2 \<Longrightarrow> calls sys sys2"
  unfolding calls_def by (metis append_assoc posts_simps(2) proxy_run_trans)

lemma calls_proxy:
  assumes "call_proxy now ev sys = Inr sys'" and "event_ok ev (sys_proxy sys)"
  shows "calls sys sys'"
proof -
  obtain acts p where r: "proxy_event now ev (sys_proxy sys) = Inr (acts, p)"
    "sys' = sys\<lparr>sys_proxy := p, sys_tasks := sys_tasks sys @ map task_of acts\<rparr>"
    using assms(1) by (auto simp: call_proxy_def rbind_Inr_iff)
  have "proxy_run (sys_proxy sys) [(now, ev, acts)] p"
    using assms(2) r(1) by (intro proxy_run_single) (simp add: proxy_step_simps)
  moreover have "filter from_proxy (map task_of acts) = map task_of acts" by (simp add: filter_id_conv)
  ultimately show ?thesis unfolding calls_def using r(2) by (auto intro!: exI [of _ "[(now, ev, acts)]"])
qed

lemma call_proxy_frame:
  "call_proxy now ev sys = Inr sys' \<Longrightarrow> sys_server sys' = sys_server sys \<and> sys_transport sys' = sys_transport sys"
  by (auto simp: call_proxy_def rbind_Inr_iff)

lemma call_proxy_returns: "\<exists>sys'. call_proxy now ev sys = Inr sys'"
  using proxy_event_returns [of now ev "sys_proxy sys"] by (auto simp: call_proxy_def)

lemma server_effects_calls: "foldM (server_effect now) out sys = Inr sys' \<Longrightarrow> calls sys sys'"
proof (induction out arbitrary: sys)
  case (Cons a out)
  then obtain sys1 where s: "server_effect now a sys = Inr sys1" "foldM (server_effect now) out sys1 = Inr sys'"
    by (auto simp: rbind_Inr_iff)
  have "calls sys sys1"
    using s(1) calls_proxy [of now _ sys sys1] by (cases a) (auto simp: event_ok_def intro!: calls_silent)
  then show ?case using Cons.IH [OF s(2)] calls_trans by blast
qed (simp add: calls_silent)

lemma transport_effects_calls:
  "foldM (transport_effect now order) acts sys = Inr sys' \<Longrightarrow> MtDisconnectCb \<notin> set acts \<Longrightarrow> calls sys sys'"
proof (induction acts arbitrary: sys)
  case (Cons a acts)
  then obtain sys1 where s: "transport_effect now order a sys = Inr sys1" "foldM (transport_effect now order) acts sys1 = Inr sys'"
    by (auto simp: rbind_Inr_iff)
  have "calls sys sys1"
    using s(1) Cons.prems(2) calls_proxy [of now _ sys sys1] by (cases a) (auto simp: event_ok_def intro!: calls_silent)
  then show ?case using Cons.IH [OF s(2)] Cons.prems(2) calls_trans by auto
qed (simp add: calls_silent)

text \<open>Only the handlers of an error report the disconnect, and then nothing else.\<close>

lemma transport_event_disconnect:
  assumes "transport_event ev t = Inr (acts, t')" and "MtDisconnectCb \<in> set acts"
  shows "(\<exists>data. ev = MtReadCompletes True data \<and> acts = [MtCancelBeat, MtCloseSocket, MtDisconnectCb, MtReconnectTimer 0]) \<or>
    ev = MtWriteCompletes True \<and> acts = [MtCloseSocket, MtDisconnectCb, MtReconnectTimer 0]"
  using assms
  by (cases ev)
    (auto simp: mt_onReconnectTimer_def mt_connect_def mt_onConnect_def mt_onRead_def mt_onWrite_def mt_onBeatTimer_def onBeat_def
      startBeat_def mt_send_def mt_stop_def scheduleConnect_def resetConnection_def sendAspUp_def sendRaw_def and_then_Inr_iff
      rbind_Inr_iff Let_def dest!: mt_readLoop_quiet split: if_splits prod.splits)

lemma transport_handler_calls:
  assumes "transport_handler now order (transport_event ev (sys_transport sys)) sys = Inr sys'"
    and "transport_ok ev order (sys_proxy sys) \<or> (\<exists>pl. ev = SendMap pl)"
  shows "calls sys sys'"
proof -
  obtain acts t where r: "transport_event ev (sys_transport sys) = Inr (acts, t)"
    "foldM (transport_effect now order) acts (sys\<lparr>sys_transport := t\<rparr>) = Inr sys'"
    using assms(1) by (auto simp: transport_handler_def rbind_Inr_iff)
  have "calls (sys\<lparr>sys_transport := t\<rparr>) sys'"
  proof (cases "MtDisconnectCb \<in> set acts")
    case True
    then have "call_proxy now (HlrDisconnected order) (sys\<lparr>sys_transport := t\<rparr>) = Inr sys'" "event_ok (HlrDisconnected order) (sys_proxy sys)"
      using transport_event_disconnect [OF r(1)] r(2) assms(2) by (auto simp: transport_ok_def rbind_Inr_iff)
    then show ?thesis using calls_proxy [of now "HlrDisconnected order" "sys\<lparr>sys_transport := t\<rparr>" sys'] by simp
  next
    case False
    then show ?thesis using transport_effects_calls r(2) by blast
  qed
  then show ?thesis by (simp add: calls_def)
qed

lemma server_handler_calls: "server_handler now r sys = Inr sys' \<Longrightarrow> calls sys sys'"
proof -
  assume "server_handler now r sys = Inr sys'"
  then obtain out sv where "foldM (server_effect now) out (sys\<lparr>sys_server := sv\<rparr>) = Inr sys'"
    by (auto simp: server_handler_def rbind_Inr_iff)
  then have "calls (sys\<lparr>sys_server := sv\<rparr>) sys'" by (rule server_effects_calls)
  then show ?thesis by (simp add: calls_def)
qed

lemma run_task_calls: "run_task now sessions order t sys = Inr sys' \<Longrightarrow> calls sys sys'"
proof (cases t)
  case ConnectFailed
  then show "run_task now sessions order t sys = Inr sys' \<Longrightarrow> calls sys sys'"
    using transport_handler_calls [of now order "ConnectCompletes True" sys sys'] by (simp add: transport_ok_def)
next
  case (TransportSend d)
  then show "run_task now sessions order t sys = Inr sys' \<Longrightarrow> calls sys sys'"
    using transport_handler_calls [of now order "SendMap d" sys sys'] by simp
qed (auto simp: rbind_Inr_iff dest: server_effects_calls server_handler_calls)

lemma system_event_calls:
  assumes "system_event now ev sys = Inr sys'" and "system_ok ev sys"
  shows "\<exists>tr. proxy_run (sys_proxy sys) tr (sys_proxy sys') \<and>
    filter from_proxy (task_done ev sys) @ filter from_proxy (sys_tasks sys') = filter from_proxy (sys_tasks sys) @ posts tr"
proof (cases "\<exists>ss os t ts. ev = RunTask ss os \<and> sys_tasks sys = t # ts")
  case True
  then obtain ss os t ts where ev: "ev = RunTask ss os" "sys_tasks sys = t # ts" by blast
  then have "calls (sys\<lparr>sys_tasks := ts\<rparr>) sys'" using assms(1) run_task_calls by simp
  then show ?thesis using ev by (auto simp: calls_def task_done_def)
next
  case False
  then have "calls sys sys'"
    using assms transport_handler_calls [of now _ _ sys sys'] server_handler_calls calls_proxy
    by (cases ev) (auto simp: system_ok_def intro: calls_silent split: list.splits)
  moreover have "task_done ev sys = []" using False by (cases ev; cases "sys_tasks sys") (auto simp: task_done_def)
  ultimately show ?thesis by (simp add: calls_def)
qed

lemma system_reach_calls:
  "system_reach limit cfg evs hist sys \<Longrightarrow> \<exists>tr. proxy_run (proxy_new limit) tr (sys_proxy sys) \<and>
     filter from_proxy hist @ filter from_proxy (sys_tasks sys) = posts tr"
proof (induction rule: system_reach.induct)
  case (reach_new limit cfg)
  then show ?case using run_nil by (auto simp: system_new_def intro!: exI [of _ "[]"])
next
  case (reach_step limit cfg evs hist sys ev now sys')
  then obtain tr tr' where "proxy_run (proxy_new limit) tr (sys_proxy sys)"
    "filter from_proxy hist @ filter from_proxy (sys_tasks sys) = posts tr" "proxy_run (sys_proxy sys) tr' (sys_proxy sys')"
    "filter from_proxy (task_done ev sys) @ filter from_proxy (sys_tasks sys') = filter from_proxy (sys_tasks sys) @ posts tr'"
    using system_event_calls by blast
  then show ?case using proxy_run_trans by (metis append_assoc filter_append posts_simps(2))
qed

section \<open>Sessions and posted functions stay in order\<close>

text \<open>
  The invariant of the program: a session is writing exactly when its queue is not empty, and the maps
  of the server and the posted functions refer to session objects that exist.
\<close>

definition busy_ok :: "IpaSession \<Rightarrow> bool" where
  "busy_ok s \<longleftrightarrow> ss_writing s = (ss_writeQueue s \<noteq> [])"

definition refs_ok :: "IpaServer \<Rightarrow> bool" where
  "refs_ok sv \<longleftrightarrow> (\<forall>i ref. srv_sessions sv i = Some ref \<longrightarrow> ref < length (srv_heap sv)) \<and>
     (\<forall>i ref. srv_allSessions sv i = Some ref \<longrightarrow> ref < length (srv_heap sv))"

definition server_good :: "IpaServer \<Rightarrow> bool" where
  "server_good sv \<longleftrightarrow> refs_ok sv \<and> (\<forall>(i, s) \<in> set (srv_heap sv). busy_ok s)"

fun task_good :: "nat \<Rightarrow> Task \<Rightarrow> bool" where
  "task_good n (SessionSend ref f) = (ref < n)"
| "task_good n _ = True"

definition system_inv :: "System \<Rightarrow> bool" where
  "system_inv sys \<longleftrightarrow> server_good (sys_server sys) \<and> list_all (task_good (length (srv_heap (sys_server sys)))) (sys_tasks sys)"

lemma task_good_mono: "task_good m t \<Longrightarrow> m \<le> n \<Longrightarrow> task_good n t"
  by (cases t) simp_all

lemma task_good_task_of [simp]: "task_good n (task_of a)"
  by (cases a) simp_all

lemma busy_ok_wq: "busy_ok s \<longleftrightarrow> (\<exists>out wire. ss.wq_inv (s, out, wire))"
  by (simp add: busy_ok_def ss.wq_inv_def)

lemma busy_ok_queues: "queues rs r s acts s' \<Longrightarrow> busy_ok s \<Longrightarrow> busy_ok s'"
  unfolding busy_ok_wq queues_def by blast

lemma busy_ok_handlers:
  assumes "busy_ok s"
  shows "ss_onRead ec data s = Inr (acts, s') \<Longrightarrow> busy_ok s'" "ss_send f s = Inr (acts, s') \<Longrightarrow> busy_ok s'"
    "ss_onWrite ec s = Inr (acts, s') \<Longrightarrow> busy_ok s'"
proof -
  show "ss_onRead ec data s = Inr (acts, s') \<Longrightarrow> busy_ok s'" using onRead_ok busy_ok_queues assms by blast
  show "ss_send f s = Inr (acts, s') \<Longrightarrow> busy_ok s'"
    using queues_send [of f s] busy_ok_queues [OF _ assms] by (auto simp: queues_def)
  show "ss_onWrite ec s = Inr (acts, s') \<Longrightarrow> busy_ok s'"
    using assms by (auto simp: ss_onWrite_def ss_written_def ss_doWrite_def busy_ok_def rbind_Inr_iff split: if_splits)
qed

lemma busy_ok_start: "ss_start ss_new = Inr (acts, s') \<Longrightarrow> busy_ok s'"
proof -
  assume "ss_start ss_new = Inr (acts, s')"
  then obtain a f where "ss_send f ss_new = Inr (a, s')" by (auto simp: ss_start_def sendCcmIdGet_def and_then_Inr_iff rbind_Inr_iff)
  moreover have "busy_ok ss_new" by (simp add: busy_ok_def ss_new_def)
  ultimately show ?thesis using busy_ok_handlers(2) by blast
qed

text \<open>The callbacks of a session change the maps at its own entry only, and post nothing.\<close>

lemma srv_callbacks_refs:
  assumes "srv_callbacks ref i acts sv = (out, sv')" and "refs_ok sv"
  shows "refs_ok sv' \<and> srv_heap sv' = srv_heap sv \<and> (\<forall>r f. PostEnqueue r f \<notin> set out)"
  using assms
proof (induction acts arbitrary: sv out)
  case (Cons a acts)
  obtain out1 sv1 where a: "srv_callback ref i a sv = (out1, sv1)" by force
  then obtain out2 where r: "srv_callbacks ref i acts sv1 = (out2, sv')" "out = out1 @ out2"
    using Cons.prems(1) by (auto split: prod.splits)
  have "refs_ok sv1 \<and> srv_heap sv1 = srv_heap sv \<and> (\<forall>r f. PostEnqueue r f \<notin> set out1)"
    using a Cons.prems(2) by (cases a) (auto simp: refs_ok_def onSessionReady_def onSessionDisconnect_def split: option.splits if_splits)
  then show ?case using Cons.IH [OF r(1)] r(2) by auto
qed simp

text \<open>A handler of a session that keeps its queue in order.\<close>

lemma srv_onSession_refs:
  assumes "srv_onSession ref h sv = Inr (out, sv')" and "refs_ok sv"
  shows "\<exists>acts s' i. h (srv_session ref sv) = Inr (acts, s') \<and> refs_ok sv' \<and> srv_heap sv' = (srv_heap sv)[ref := (i, s')] \<and>
    ref < length (srv_heap sv) \<and> (\<forall>r f. PostEnqueue r f \<notin> set out)"
proof -
  let ?i = "fst (srv_heap sv ! ref)"
  obtain acts s' where h: "h (srv_session ref sv) = Inr (acts, s')" "ref < length (srv_heap sv)"
    and cb: "srv_callbacks ref ?i acts (sv\<lparr>srv_heap := (srv_heap sv)[ref := (?i, s')]\<rparr>) = (out, sv')"
    using assms(1) by (auto simp: srv_onSession_def rbind_Inr_iff split: if_splits)
  have "refs_ok (sv\<lparr>srv_heap := (srv_heap sv)[ref := (?i, s')]\<rparr>)" using assms(2) by (simp add: refs_ok_def)
  from srv_callbacks_refs [OF cb this] show ?thesis using h by auto
qed

lemma heap_update:
  assumes "\<forall>(i, s) \<in> set heap. busy_ok s" and "busy_ok s'"
  shows "\<forall>(i, s) \<in> set (heap[ref := (j, s')]). busy_ok s"
  using assms set_update_subset_insert [of heap ref "(j, s')"] by blast

lemma server_good_session: "server_good sv \<Longrightarrow> ref < length (srv_heap sv) \<Longrightarrow> busy_ok (srv_session ref sv)"
  unfolding server_good_def srv_session_def by (metis (mono_tags, lifting) case_prodD nth_mem prod.collapse)

lemma srv_onSession_good:
  assumes "srv_onSession ref h sv = Inr (out, sv')" and "server_good sv"
    and "\<And>acts s'. busy_ok (srv_session ref sv) \<Longrightarrow> h (srv_session ref sv) = Inr (acts, s') \<Longrightarrow> busy_ok s'"
  shows "server_good sv' \<and> length (srv_heap sv') = length (srv_heap sv) \<and> (\<forall>r f. PostEnqueue r f \<notin> set out)"
proof -
  obtain acts s' i where h: "h (srv_session ref sv) = Inr (acts, s')" "refs_ok sv'" "srv_heap sv' = (srv_heap sv)[ref := (i, s')]"
    "ref < length (srv_heap sv)" "\<forall>r f. PostEnqueue r f \<notin> set out"
    using srv_onSession_refs [OF assms(1)] assms(2) by (auto simp: server_good_def)
  have "busy_ok s'" using assms(3) [OF server_good_session [OF assms(2) h(4)] h(1)] .
  then show ?thesis using h assms(2) heap_update [of "srv_heap sv" s' ref i] by (simp add: server_good_def)
qed

lemma srv_onAccept_good:
  assumes "srv_onAccept ec True sv = Inr (out, sv')" and "server_good sv"
  shows "server_good sv' \<and> length (srv_heap sv) \<le> length (srv_heap sv') \<and> (\<forall>r f. PostEnqueue r f \<notin> set out)"
proof (cases ec)
  case False
  let ?i = "srv_nextClientId sv" and ?ref = "length (srv_heap sv)"
  let ?sv = "sv\<lparr>srv_nextClientId := ?i + 1, srv_heap := srv_heap sv @ [(?i, ss_new)], srv_allSessions := (srv_allSessions sv)(?i \<mapsto> ?ref)\<rparr>"
  obtain out1 where r: "srv_onSession ?ref ss_start ?sv = Inr (out1, sv')" "out = out1 @ [AcceptNext]"
    using assms(1) False by (auto simp: srv_onAccept_def Let_def and_then_Inr_iff)
  have good: "server_good ?sv" using assms(2) by (auto simp: server_good_def refs_ok_def less_Suc_eq busy_ok_def ss_new_def)
  have "srv_session ?ref ?sv = ss_new" by (simp add: srv_session_def)
  then show ?thesis using srv_onSession_good [OF r(1) good] busy_ok_start r(2) by auto
qed (use assms in \<open>simp add: srv_onAccept_def\<close>)

lemma server_event_good:
  assumes "server_event ev sv = Inr (out, sv')" and "server_good sv" and "\<nexists>order. ev = StopServer order"
  shows "server_good sv' \<and> length (srv_heap sv) \<le> length (srv_heap sv') \<and> (\<forall>r f. PostEnqueue r f \<notin> set out)"
proof (cases ev)
  case (Accepted ec)
  then show ?thesis using srv_onAccept_good assms(1,2) by simp
next
  case (SessionRead ref ec data)
  then show ?thesis using srv_onSession_good [of ref "ss_onRead ec data"] busy_ok_handlers(1) assms(1,2) by fastforce
next
  case (SessionWritten ref ec)
  then show ?thesis using srv_onSession_good [of ref "ss_onWrite ec"] busy_ok_handlers(3) assms(1,2) by fastforce
next
  case (SessionEnqueue ref f)
  then show ?thesis using srv_onSession_good [of ref "ss_send f"] busy_ok_handlers(2) assms(1,2) by fastforce
qed (use assms(1,3) in \<open>simp_all add: srv_onAccept_def\<close>)

lemma srv_sendTo_refs: "srv_sendTo pl ref sv = Inr out \<Longrightarrow> PostEnqueue r f \<in> set out \<Longrightarrow> r = ref"
  by (auto simp: srv_sendTo_def rbind_Inr_iff split: if_splits)

lemma srv_broadcast_refs:
  "srv_broadcast pl order sv = Inr out \<Longrightarrow> PostEnqueue r f \<in> set out \<Longrightarrow> \<exists>i. srv_sessions sv i = Some r"
proof (induction order arbitrary: out)
  case (Cons i order)
  show ?case
  proof (cases "srv_sessions sv i")
    case None
    then show ?thesis using Cons by simp
  next
    case (Some ref)
    then obtain a b where "srv_sendTo pl ref sv = Inr a" "srv_broadcast pl order sv = Inr b" "out = a @ b"
      using Cons.prems(1) by (auto simp: rbind_Inr_iff)
    then show ?thesis using Cons.IH Cons.prems(2) srv_sendTo_refs [of pl ref sv a r f] Some by auto
  qed
qed simp

lemma srv_send_refs:
  assumes "srv_send pl c order sv = Inr out" and "PostEnqueue r f \<in> set out" and "refs_ok sv"
  shows "r < length (srv_heap sv)"
  using assms srv_broadcast_refs [of pl order sv out r f] srv_sendTo_refs [of pl _ sv out r f]
  by (auto simp: srv_send_def refs_ok_def split: if_splits option.splits)

lemma system_inv_call: "call_proxy now ev sys = Inr sys' \<Longrightarrow> system_inv sys \<Longrightarrow> system_inv sys'"
  by (auto simp: call_proxy_def rbind_Inr_iff system_inv_def list_all_iff)

lemma system_inv_server_effects:
  "foldM (server_effect now) out sys = Inr sys' \<Longrightarrow> system_inv sys \<Longrightarrow>
     (\<And>r f. PostEnqueue r f \<in> set out \<Longrightarrow> r < length (srv_heap (sys_server sys))) \<Longrightarrow> system_inv sys'"
proof (induction out arbitrary: sys)
  case (Cons a out)
  then obtain sys1 where s: "server_effect now a sys = Inr sys1" "foldM (server_effect now) out sys1 = Inr sys'"
    by (auto simp: rbind_Inr_iff)
  have "system_inv sys1 \<and> sys_server sys1 = sys_server sys"
  proof (cases a)
    case (MessageCb d i)
    then show ?thesis using s(1) Cons.prems(2) system_inv_call call_proxy_frame by simp
  next
    case (PostEnqueue r f)
    then show ?thesis using s(1) Cons.prems(2) Cons.prems(3) [of r f] by (auto simp: system_inv_def)
  qed (use s(1) Cons.prems(2) in simp_all)
  moreover have "r < length (srv_heap (sys_server sys))" if "PostEnqueue r f \<in> set out" for r f
    using Cons.prems(3) [of r f] that by simp
  ultimately show ?case using Cons.IH [OF s(2)] by simp
qed simp

lemma system_inv_transport_effects:
  "foldM (transport_effect now order) acts sys = Inr sys' \<Longrightarrow> system_inv sys \<Longrightarrow> system_inv sys'"
proof (induction acts arbitrary: sys)
  case (Cons a acts)
  then obtain sys1 where s: "transport_effect now order a sys = Inr sys1" "foldM (transport_effect now order) acts sys1 = Inr sys'"
    by (auto simp: rbind_Inr_iff)
  have "system_inv sys1"
  proof (cases a)
    case MtPostOnConnectError
    then show ?thesis using s(1) Cons.prems(2) by (auto simp: system_inv_def)
  qed (use s(1) Cons.prems(2) system_inv_call in simp_all)
  then show ?case using Cons.IH [OF s(2)] by blast
qed simp

lemma system_inv_transport:
  assumes "transport_handler now order r sys = Inr sys'" and "system_inv sys"
  shows "system_inv sys'"
proof -
  obtain acts t where r: "foldM (transport_effect now order) acts (sys\<lparr>sys_transport := t\<rparr>) = Inr sys'"
    using assms(1) by (auto simp: transport_handler_def rbind_Inr_iff)
  have "system_inv (sys\<lparr>sys_transport := t\<rparr>)" using assms(2) by (simp add: system_inv_def)
  then show ?thesis using system_inv_transport_effects [OF r] by blast
qed

lemma system_inv_server:
  assumes "server_handler now (server_event ev (sys_server sys)) sys = Inr sys'" and inv: "system_inv sys"
    and "\<nexists>order. ev = StopServer order"
  shows "system_inv sys'"
proof -
  obtain out sv where r: "server_event ev (sys_server sys) = Inr (out, sv)" "foldM (server_effect now) out (sys\<lparr>sys_server := sv\<rparr>) = Inr sys'"
    using assms(1) by (auto simp: server_handler_def rbind_Inr_iff)
  have good: "server_good sv" "length (srv_heap (sys_server sys)) \<le> length (srv_heap sv)" "\<And>r f. PostEnqueue r f \<notin> set out"
    using server_event_good [OF r(1) _ assms(3)] inv by (auto simp: system_inv_def)
  have "system_inv (sys\<lparr>sys_server := sv\<rparr>)" using inv good(1,2) by (auto simp: system_inv_def list_all_iff intro: task_good_mono)
  then show ?thesis using system_inv_server_effects [OF r(2)] good(3) by blast
qed

lemma system_inv_event:
  assumes "system_event now ev sys = Inr sys'" and "system_ok ev sys" and inv: "system_inv sys"
  shows "system_inv sys'"
proof (cases ev)
  case (ServerIo e)
  then have "\<nexists>order. e = StopServer order" using assms(2) by (auto simp: system_ok_def server_ok_def)
  then show ?thesis using ServerIo assms(1) inv system_inv_server [of now e sys sys'] by simp
next
  case (RunTask ss os)
  show ?thesis
  proof (cases "sys_tasks sys")
    case Nil
    then show ?thesis using assms RunTask by simp
  next
    case (Cons t ts)
    let ?sys = "sys\<lparr>sys_tasks := ts\<rparr>"
    have inv': "system_inv ?sys" using inv Cons by (auto simp: system_inv_def)
    have refs: "refs_ok (sys_server sys)" using inv by (simp add: system_inv_def server_good_def)
    have run: "run_task now ss os t ?sys = Inr sys'" using assms(1) RunTask Cons by simp
    show ?thesis
    proof (cases t)
      case (ServerSend d c)
      then obtain out where "srv_send d c ss (sys_server sys) = Inr out" "foldM (server_effect now) out ?sys = Inr sys'"
        using run by (auto simp: rbind_Inr_iff)
      then show ?thesis using system_inv_server_effects [OF _ inv'] srv_send_refs refs by auto
    next
      case (SessionSend ref f)
      then show ?thesis using run system_inv_server [of now "SessionEnqueue ref f" ?sys sys'] inv' by simp
    qed (use run system_inv_transport [OF _ inv'] in auto)
  qed
next
  case (TransportIo e order)
  then show ?thesis using assms system_inv_transport by simp
next
  case (Timer order now' hlrOrder)
  then show ?thesis using assms system_inv_call by simp
qed

lemma system_inv_reach: "system_reach limit cfg evs hist sys \<Longrightarrow> system_inv sys"
proof (induction rule: system_reach.induct)
  case (reach_new limit cfg)
  then show ?case by (simp add: system_new_def system_inv_def server_good_def refs_ok_def srv_new_def)
next
  case reach_step
  then show ?case using system_inv_event by blast
qed

section \<open>What can end the program\<close>

text \<open>An exception that leaves a handler leaves \<open>io_context::run\<close> and ends the program.\<close>

lemma server_effects_return: "\<exists>sys'. foldM (server_effect now) out sys = Inr sys'"
proof (induction out arbitrary: sys)
  case (Cons a out)
  obtain sys1 where "server_effect now a sys = Inr sys1" using call_proxy_returns [of now _ sys] by (cases a) force+
  then show ?case using Cons by simp
qed simp

lemma transport_effects_return: "\<exists>sys'. foldM (transport_effect now order) acts sys = Inr sys'"
proof (induction acts arbitrary: sys)
  case (Cons a acts)
  obtain sys1 where "transport_effect now order a sys = Inr sys1" using call_proxy_returns [of now _ sys] by (cases a) force+
  then show ?case using Cons by simp
qed simp

lemma handlers_throw:
  "server_handler now r sys = Inl e \<longleftrightarrow> r = Inl e" "transport_handler now order r' sys = Inl e \<longleftrightarrow> r' = Inl e"
  using server_effects_return transport_effects_return
  by (auto simp: server_handler_def transport_handler_def rbind_Inl_iff; metis Inl_Inr_False)+

lemma onRead_throws:
  "ss_onRead False data s = Inl e \<longleftrightarrow> (\<exists>fs d. ipa_drain (ipa_feed (ss_decoder s) data) = (fs, Some e, d))"
proof -
  let ?s = "s\<lparr>ss_decoder := ipa_feed (ss_decoder s) data\<rparr>"
  obtain fs x d where d: "ipa_drain (ipa_feed (ss_decoder s) data) = (fs, x, d)" by (metis prod_cases3)
  show ?thesis
  proof (cases x)
    case None
    then show ?thesis using onRead_frames [of s data fs d] d by (auto simp: queues_def)
  next
    case (Some e')
    then have "ss_readLoop ?s = Inl e'" using readLoop_throws [of ?s fs e' d] d by simp
    then show ?thesis using d Some by (auto simp: ss_onRead_def)
  qed
qed

lemma send_start_return: "\<exists>acts s'. ss_send f s = Inr (acts, s')" "\<exists>acts s'. ss_start s = Inr (acts, s')"
proof -
  show send: "\<exists>acts s'. ss_send f s = Inr (acts, s')" for f s using queues_send [of f s] by (auto simp: queues_def)
  have "ipa_encode kStreamCcm [kCcmIdReq, 0x01, 0x07] = Inr (ipa_wire \<lparr>streamId = kStreamCcm, payload = [kCcmIdReq, 0x01, 0x07]\<rparr>)"
    by (rule ipa_encode_wire) simp
  moreover obtain acts s' where "ss_send (ipa_wire \<lparr>streamId = kStreamCcm, payload = [kCcmIdReq, 0x01, 0x07]\<rparr>) s = Inr (acts, s')"
    using send by blast
  ultimately show "\<exists>acts s'. ss_start s = Inr (acts, s')" by (simp add: ss_start_def sendCcmIdGet_def)
qed

lemma srv_onSession_throws: "srv_onSession ref h sv = Inl e \<Longrightarrow> ref < length (srv_heap sv) \<Longrightarrow> h (srv_session ref sv) = Inl e"
  by (cases "h (srv_session ref sv)") (auto simp: srv_onSession_def split: prod.splits)

lemma server_event_throws:
  assumes "server_event ev sv = Inl e" and "server_ok ev sv" and "server_good sv"
  shows "ev = AcceptedGone \<and> e = system_error ''remote_endpoint'' \<or>
    (\<exists>ref data fs d. ev = SessionRead ref False data \<and> ref < length (srv_heap sv) \<and>
      ipa_drain (ipa_feed (ss_decoder (srv_session ref sv)) data) = (fs, Some e, d))"
proof (cases ev)
  case (Accepted ec)
  have "srv_onSession ref ss_start sv' \<noteq> Inl e" if "ref < length (srv_heap sv')" for ref sv'
    using that srv_onSession_throws [of ref ss_start sv' e] send_start_return(2) [of "srv_session ref sv'"] by auto
  then show ?thesis using assms(1) Accepted by (auto simp: srv_onAccept_def Let_def and_then_Inl_iff split: if_splits)
next
  case (SessionRead ref ec data)
  then have ref: "ref < length (srv_heap sv)" "ss_onRead ec data (srv_session ref sv) = Inl e"
    using assms(1,2) srv_onSession_throws by (auto simp: server_ok_def)
  then have "\<not> ec" by (auto simp: ss_onRead_def split: if_splits)
  then show ?thesis using ref SessionRead onRead_throws by auto
next
  case (SessionWritten ref ec)
  then have ref: "ref < length (srv_heap sv)" "ss_writing (srv_session ref sv)" "ss_onWrite ec (srv_session ref sv) = Inl e"
    using assms(1,2) srv_onSession_throws by (auto simp: server_ok_def)
  then have "ss_writeQueue (srv_session ref sv) \<noteq> []"
    using server_good_session [OF assms(3) ref(1)] by (simp add: busy_ok_def)
  then show ?thesis using ref(3) by (auto simp: ss_onWrite_def ss_written_def neq_Nil_conv split: if_splits prod.splits)
next
  case AcceptedGone
  then show ?thesis using assms(1) by (simp add: srv_onAccept_def)
qed (use assms(2) in \<open>simp_all add: server_ok_def\<close>)

text \<open>The transport: an exception of the decoder, or a Unitdata whose addresses lie outside of it.\<close>

lemma processMessage_throws: "processMessage m t = Inl e \<Longrightarrow> \<not> is_std_exception e \<and> \<not> mu_safe m"
  by (auto simp: processMessage_def sendAspAc_def startBeat_def sendRaw_def try_catch_def mu_safe_def sccp_of_def mu_is_def
      split: if_splits option.splits sum.splits prod.splits)

lemma mt_readLoop_throws:
  "mt_readLoop t = Inl e \<Longrightarrow> m3ua_drain (mt_decoder t) = (ms, x, d) \<Longrightarrow>
     x = Some e \<or> \<not> is_std_exception e \<and> (\<exists>m \<in> set ms. \<not> mu_safe m)"
proof (induction t arbitrary: ms rule: mt_readLoop.induct)
  case (1 t)
  obtain r d1 where nx: "m3ua_next (mt_decoder t) = (r, d1)" by force
  show ?case
  proof (cases "\<exists>m. r = Inr (Some m)")
    case False
    then show ?thesis
      using "1.prems" nx by (auto simp: mt_readLoop.simps [of t] m3ua_drain.simps [of "mt_decoder t"] split: sum.splits option.splits)
  next
    case True
    then obtain m where r: "r = Inr (Some m)" by blast
    obtain ms' where ms: "m3ua_drain d1 = (ms', x, d)" "ms = m # ms'"
      using "1.prems"(2) nx r by (auto simp: m3ua_drain.simps [of "mt_decoder t"] split: prod.splits)
    let ?t = "t\<lparr>mt_decoder := d1\<rparr>"
    let ?p = "try_catch is_std_exception (processMessage m ?t) Inr (Inr ([], ?t))"
    show ?thesis
    proof (cases ?p)
      case (Inl e')
      then have "processMessage m ?t = Inl e'" by (auto simp: try_catch_def split: sum.splits if_splits)
      moreover have "e' = e" using "1.prems"(1) nx r Inl by (simp add: mt_readLoop.simps [of t])
      ultimately show ?thesis using processMessage_throws ms(2) by auto
    next
      case (Inr v)
      then obtain a t1 where v: "?p = Inr (a, t1)" by (cases v) simp
      then have "mt_readLoop t1 = Inl e" using "1.prems"(1) nx r by (auto simp: mt_readLoop.simps [of t] rbind_Inl_iff)
      moreover have "mt_decoder t1 = d1"
        using v by (auto simp: try_catch_def dest: processMessage_decoder split: sum.splits if_splits)
      ultimately show ?thesis using "1.IH" [OF nx [symmetric] r refl v] ms by auto
    qed
  qed
qed

lemma transport_event_throws:
  assumes "transport_event ev t = Inl e"
  shows "(\<exists>data ms x d. ev = MtReadCompletes False data \<and> m3ua_drain (m3ua_feed (mt_decoder t) data) = (ms, x, d) \<and>
      (x = Some e \<or> \<not> is_std_exception e \<and> (\<exists>m \<in> set ms. \<not> mu_safe m))) \<or>
    (ev = MtWriteCompletes False \<and> mt_writeQueue t = [])"
proof (cases ev)
  case (MtReadCompletes ec data)
  let ?t = "t\<lparr>mt_decoder := m3ua_feed (mt_decoder t) data\<rparr>"
  have "\<not> ec \<and> mt_readLoop ?t = Inl e"
    using assms MtReadCompletes by (auto simp: mt_onRead_def scheduleConnect_def Let_def and_then_Inl_iff split: if_splits)
  moreover obtain ms x d where "m3ua_drain (m3ua_feed (mt_decoder t) data) = (ms, x, d)" by (metis prod_cases3)
  ultimately show ?thesis using mt_readLoop_throws [of ?t e ms x d] MtReadCompletes by auto
next
  case (MtWriteCompletes ec)
  then show ?thesis
    using assms by (cases "mt_writeQueue t") (auto simp: mt_onWrite_def mt_written_def scheduleConnect_def Let_def split: if_splits prod.splits)
qed (use assms in \<open>auto simp: mt_onReconnectTimer_def mt_connect_def mt_onConnect_def mt_onBeatTimer_def onBeat_def startBeat_def
    mt_send_def mt_stop_def scheduleConnect_def sendAspUp_def sendRaw_def and_then_Inl_iff Let_def split: if_splits prod.splits\<close>)

lemma posted_transport_returns: "transport_event (SendMap d) t \<noteq> Inl e" "transport_event (ConnectCompletes True) t \<noteq> Inl e"
  using transport_event_throws by blast+

lemma srv_send_throws:
  assumes "srv_send d c order sv = Inl e"
  shows "length d > 0xFFFF"
proof (rule ccontr)
  assume "\<not> length d > 0xFFFF"
  then have to: "\<exists>out. srv_sendTo d ref sv = Inr out" for ref by (simp add: srv_sendTo_def ss_sendGsup_def ipa_encode_def Let_def)
  have "\<exists>out. srv_broadcast d order sv = Inr out"
  proof (induction order)
    case (Cons i order)
    then show ?case using to by (cases "srv_sessions sv i") (simp_all, metis rbind_simps(2))
  qed simp
  then show False using assms to by (auto simp: srv_send_def split: if_splits option.splits) (metis Inl_Inr_False)
qed

lemma run_task_throws:
  assumes "system_event now (RunTask ss order) sys = Inl e" and inv: "system_inv sys"
  shows "\<exists>d c ts. sys_tasks sys = ServerSend d c # ts \<and> length d > 0xFFFF"
proof -
  obtain t ts where t: "sys_tasks sys = t # ts" "run_task now ss order t (sys\<lparr>sys_tasks := ts\<rparr>) = Inl e"
    using assms(1) by (cases "sys_tasks sys") simp_all
  show ?thesis
  proof (cases t)
    case (ServerSend d c)
    then have r: "rbind (srv_send d c ss (sys_server sys)) (\<lambda>out. foldM (server_effect now) out (sys\<lparr>sys_tasks := ts\<rparr>)) = Inl e"
      using t(2) by simp
    have "srv_send d c ss (sys_server sys) = Inl e"
    proof (cases "srv_send d c ss (sys_server sys)")
      case (Inr out)
      then show ?thesis using r server_effects_return [of now out "sys\<lparr>sys_tasks := ts\<rparr>"] by auto
    qed (use r in simp)
    then show ?thesis using srv_send_throws t(1) ServerSend by blast
  next
    case (SessionSend ref f)
    have "ref < length (srv_heap (sys_server sys))" using inv t(1) SessionSend by (simp add: system_inv_def)
    moreover have "srv_onSession ref (ss_send f) (sys_server sys) = Inl e" using t(2) SessionSend by (simp add: handlers_throw)
    ultimately have "ss_send f (srv_session ref (sys_server sys)) = Inl e" using srv_onSession_throws by blast
    then show ?thesis using send_start_return(1) [of f "srv_session ref (sys_server sys)"] by simp
  next
    case (TransportSend d)
    then have "transport_event (SendMap d) (sys_transport sys) = Inl e" using t(2) by (simp add: handlers_throw)
    then show ?thesis using posted_transport_returns(1) by blast
  next
    case ConnectFailed
    then have "transport_event (ConnectCompletes True) (sys_transport sys) = Inl e" using t(2) by (simp add: handlers_throw)
    then show ?thesis using posted_transport_returns(2) by blast
  qed
qed

text \<open>
  The causes for which a handler throws: the peer of an accepted connection is gone before the handler
  asks for its address; the octets an SGSN sent make the IPA decoder throw; the
  octets of the gateway make the M3UA decoder throw, or a decoded message carries a Unitdata with an
  address outside of it, which is undefined behaviour; a write to the gateway completes after a
  reset has emptied the queue; a message for an SGSN has more than 65535 octets.
\<close>

definition end_cause :: "SystemEvent \<Rightarrow> System \<Rightarrow> exc \<Rightarrow> bool" where
  "end_cause ev sys e \<longleftrightarrow>
    ev = ServerIo AcceptedGone \<and> e = system_error ''remote_endpoint'' \<or>
    (\<exists>ref data fs d. ev = ServerIo (SessionRead ref False data) \<and>
      ipa_drain (ipa_feed (ss_decoder (srv_session ref (sys_server sys))) data) = (fs, Some e, d)) \<or>
    (\<exists>data order ms x d. ev = TransportIo (MtReadCompletes False data) order \<and>
      m3ua_drain (m3ua_feed (mt_decoder (sys_transport sys)) data) = (ms, x, d) \<and>
      (x = Some e \<or> \<not> is_std_exception e \<and> (\<exists>m \<in> set ms. \<not> mu_safe m))) \<or>
    (\<exists>order. ev = TransportIo (MtWriteCompletes False) order \<and> mt_writeQueue (sys_transport sys) = []) \<or>
    (\<exists>ss order d c ts. ev = RunTask ss order \<and> sys_tasks sys = ServerSend d c # ts \<and> length d > 0xFFFF)"

lemma program_ends_only:
  assumes "system_reach limit cfg evs hist sys" and "system_ok ev sys" and "system_event now ev sys = Inl e"
  shows "end_cause ev sys e"
proof -
  have inv: "system_inv sys" using system_inv_reach [OF assms(1)] .
  then have good: "server_good (sys_server sys)" by (simp add: system_inv_def)
  show ?thesis
  proof (cases ev)
    case (ServerIo se)
    then have "server_event se (sys_server sys) = Inl e" "server_ok se (sys_server sys)"
      using assms(2,3) by (simp_all only: system_event.simps handlers_throw system_ok_def SystemEvent.case)
    from server_event_throws [OF this good] ServerIo show ?thesis unfolding end_cause_def by blast
  next
    case (TransportIo te order)
    then have "transport_event te (sys_transport sys) = Inl e" using assms(3) by (simp only: system_event.simps handlers_throw)
    from transport_event_throws [OF this] TransportIo show ?thesis unfolding end_cause_def by simp
  next
    case (Timer order now' hlrOrder)
    then have False using assms(3) call_proxy_returns [of now "Tick order now' hlrOrder" sys] by simp
    then show ?thesis ..
  next
    case (RunTask ss order)
    from run_task_throws [OF assms(3) [unfolded this] inv] this show ?thesis unfolding end_cause_def by simp
  qed
qed

section \<open>Properties\<close>

text \<open>
  C3: The program implements the proxy.  Whatever the event loop runs, reads, writes, accepts, timers
  and posted functions in any order, the state of the proxy inside the program is one that the proxy
  reaches on its own by a sequence of calls of its handlers; and the messages that the proxy sent in
  that sequence are, in order, those whose posted function has run followed by those still posted:
  nothing the proxy sends is lost, repeated or reordered before it reaches a transport.
\<close>

theorem system_refines_proxy:
  assumes "system_reach limit cfg evs hist sys"
  shows "\<exists>tr. proxy_run (proxy_new limit) tr (sys_proxy sys) \<and>
    filter from_proxy hist @ filter from_proxy (sys_tasks sys) = posts tr"
  using system_reach_calls [OF assms] .

text \<open>The run of the witnesses: an SGSN connects and identifies itself; a frame of length 0 would throw.\<close>

definition demo_greeted :: IpaServer where
  "demo_greeted = \<lparr>srv_heap = [(1, \<lparr>ss_decoder = ipa_new, ss_state = Handshaking, ss_writeQueue = [[0, 4, 0xFE, 4, 1, 7]], ss_writing = True\<rparr>)],
     srv_sessions = Map.empty, srv_allSessions = [1 \<mapsto> 0], srv_nextClientId = 2\<rparr>"

lemma first_events:
  "sys_server sys = srv_new \<Longrightarrow> system_event now (ServerIo (Accepted False)) sys = Inr (sys\<lparr>sys_server := demo_greeted\<rparr>)"
  "sys_server sys = demo_greeted \<Longrightarrow>
     system_event now (ServerIo (SessionRead 0 False [0, 2, 0xFE, 5])) sys = Inr (sys\<lparr>sys_server := demo_server\<rparr>)"
  "sys_server sys = demo_server \<Longrightarrow>
     system_event now (ServerIo (SessionRead 0 False [0, 0, 0xEE])) sys = Inl (runtime_error ''IPA: zero-length wire frame'')"
  by (simp_all add: server_handler_def srv_onAccept_def srv_new_def srv_onSession_def srv_session_def session_defs Let_def wire_consts
      ss_readLoop.simps onSessionReady_def demo_server_def demo_greeted_def)

definition demo_hello :: "(int \<times> SystemEvent) list" where
  "demo_hello = [(0, ServerIo (Accepted False)), (1, ServerIo (SessionRead 0 False [0, 2, 0xFE, 5]))]"

lemma demo_hello_reach:
  "system_reach 30 demo_cfg demo_hello [] ((system_new 30 demo_cfg)\<lparr>sys_server := demo_server\<rparr>)"
proof -
  let ?sys = "system_new 30 demo_cfg"
  have "system_event 0 (ServerIo (Accepted False)) ?sys = Inr (?sys\<lparr>sys_server := demo_greeted\<rparr>)"
    by (rule first_events) (simp add: system_new_def)
  moreover have "system_event 1 (ServerIo (SessionRead 0 False [0, 2, 0xFE, 5])) (?sys\<lparr>sys_server := demo_greeted\<rparr>) =
      Inr (?sys\<lparr>sys_server := demo_server\<rparr>)"
    using first_events(2) [of "?sys\<lparr>sys_server := demo_greeted\<rparr>" 1] by simp
  moreover have "system_ok (ServerIo (Accepted False)) ?sys"
    "system_ok (ServerIo (SessionRead 0 False [0, 2, 0xFE, 5])) (?sys\<lparr>sys_server := demo_greeted\<rparr>)"
    by (simp_all add: system_ok_def server_ok_def demo_greeted_def)
  ultimately show ?thesis
    using reach_step [OF reach_step [OF reach_new]] by (fastforce simp: demo_hello_def task_done_def)
qed

theorem system_refines_proxy_witness:
  "\<exists>tr. system_reach 30 demo_cfg demo_hello [] ((system_new 30 demo_cfg)\<lparr>sys_server := demo_server\<rparr>) \<and>
     proxy_run (proxy_new 30) tr (proxy_new 30) \<and> posts tr = []"
  using system_refines_proxy [OF demo_hello_reach] demo_hello_reach by (auto simp: system_new_def)

end
