(* ===== verification/Program.thy ===== *)
theory Program
  imports SystemRuns
begin

text \<open>
  The entry point, \<open>main.cpp\<close>: how the command line becomes the configuration of the transports, and
  what is started before the event loop runs.  The conversions of the standard library that \<open>main\<close>
  calls are modelled for a 64-bit platform (\<open>int\<close> of 32 and \<open>unsigned long\<close> of 64 bits).  A
  run of the process is a sequence of handlers of the loop, firings of the expiry timer and signals;
  it is still running, or \<open>main\<close> has returned, or an exception has left it.  The log level and the log
  lines of \<open>main\<close> are not part of the model.
\<close>

section \<open>Conversions of the standard library\<close>

definition c_isspace :: "char \<Rightarrow> bool" where
  "c_isspace c \<longleftrightarrow> c = CHR '' '' \<or> (9 \<le> (of_char c :: nat) \<and> (of_char c :: nat) \<le> 13)"

text \<open>The common prefix of \<open>strtol\<close> and \<open>strtoul\<close> in base 10: white space, a sign, digits; the rest is ignored.\<close>

definition c_number :: "string \<Rightarrow> bool \<times> string" where
  "c_number s =
     (let s1 = dropWhile c_isspace s;
          neg = (take 1 s1 = ''-'');
          s2 = (if take 1 s1 = ''-'' \<or> take 1 s1 = ''+'' then drop 1 s1 else s1)
      in (neg, takeWhile isDigit s2))"

definition c_value :: "string \<Rightarrow> nat" where
  "c_value ds = foldl (\<lambda>n c. 10 * n + (of_char c - 48)) 0 ds"

definition stoi :: "string \<Rightarrow> int result" where
  "stoi s =
     (case c_number s of (neg, ds) \<Rightarrow>
      if ds = [] then Inl (invalid_argument ''stoi'')
      else let v = (if neg then - int (c_value ds) else int (c_value ds)) in
        if - 2147483648 \<le> v \<and> v \<le> 2147483647 then Inr v else Inl (out_of_range ''stoi''))"

definition stoul :: "string \<Rightarrow> u64 result" where
  "stoul s =
     (case c_number s of (neg, ds) \<Rightarrow>
      if ds = [] then Inl (invalid_argument ''stoul'')
      else if c_value ds > 18446744073709551615 then Inl (out_of_range ''stoul'')
      else Inr (if neg then - of_nat (c_value ds) else of_nat (c_value ds)))"

section \<open>Command line\<close>

text \<open>\<open>if (argc > k) x = f(argv[k]);\<close> for a variable initialised with \<open>d\<close>.\<close>

definition main_arg :: "nat \<Rightarrow> (string \<Rightarrow> 'a result) \<Rightarrow> 'a \<Rightarrow> string list \<Rightarrow> 'a result" where
  "main_arg k f d argv = (if length argv > k then rbind (vec_at argv k) f else Inr d)"

definition to_u16 :: "string \<Rightarrow> u16 result" where
  "to_u16 s = rbind (stoi s) (\<lambda>v. Inr (word_of_int v))"

definition to_u32 :: "string \<Rightarrow> u32 result" where
  "to_u32 s = rbind (stoul s) (\<lambda>v. Inr (ucast v))"

text \<open>The listening port and the configuration of the transport to the gateway.\<close>

definition main_config :: "string list \<Rightarrow> (u16 \<times> MapTransportConfig) result" where
  "main_config argv =
     rbind (main_arg 1 to_u16 4222 argv) (\<lambda>listenPort.
     rbind (main_arg 2 Inr ''127.0.0.1'' argv) (\<lambda>sgHost.
     rbind (main_arg 3 to_u16 2905 argv) (\<lambda>sgPort.
     rbind (main_arg 4 to_u32 1 argv) (\<lambda>opc.
     rbind (main_arg 5 to_u32 2 argv) (\<lambda>dpc.
     rbind (main_arg 6 Inr ''+49161000000'' argv) (\<lambda>hlrGt.
     rbind (main_arg 7 Inr ''+49161000001'' argv) (\<lambda>localGt.
     rbind (main_arg 8 (\<lambda>s. rbind (to_u32 s) (\<lambda>v. Inr (Some v))) None argv) (\<lambda>routingContext.
       Inr (listenPort, MapTransportConfig_init\<lparr>cfg_sgHost := sgHost, cfg_sgPort := sgPort, cfg_opc := opc, cfg_dpc := dpc,
              cfg_hlrGt := hlrGt, cfg_localGt := localGt, cfg_routingContext := routingContext\<rparr>)))))))))"

text \<open>
  The components are built, the callbacks registered and both transports started: the result has the
  operations that are then outstanding.  The constructor of the server throws when the port cannot be
  bound.  30 seconds is the default transaction timeout of the proxy.
\<close>

definition main_start :: "string list \<Rightarrow> bool \<Rightarrow> (u16 \<times> ServerAct list \<times> TransportAct list \<times> System) result" where
  "main_start argv bound =
     rbind (main_config argv) (\<lambda>(listenPort, cfg).
     rbind (srv_construct bound) (\<lambda>sv.
       let sys = (system_new 30 cfg)\<lparr>sys_server := sv\<rparr>
       in rbind (mt_start (sys_transport sys)) (\<lambda>(acts, t). Inr (listenPort, srv_start, acts, sys\<lparr>sys_transport := t\<rparr>))))"

lemma main_start_eq:
  "main_start argv bound =
     rbind (main_config argv) (\<lambda>(listenPort, cfg).
       if bound then Inr (listenPort, [AcceptNext], [MtReconnectTimer 0], system_new 30 cfg) else Inl (system_error ''bind''))"
  by (simp add: main_start_def srv_construct_def mt_start_def scheduleConnect_def system_new_def mt_new_def srv_start_def Let_def
      cong: rbind_cong split: prod.split)

section \<open>The process\<close>

text \<open>
  \<open>gIoc\<close> holds whether the global pointer is set, \<open>stopped\<close> the flag of \<open>io_context\<close> that \<open>stop\<close> sets, and
  \<open>expiryTimer\<close> the delay in seconds of the outstanding wait of the expiry timer, if there is one.
\<close>

record Process =
  ps_gIoc :: bool
  ps_stopped :: bool
  ps_expiryTimer :: "int option"
  ps_sys :: System

definition onSignal :: "Process \<Rightarrow> Process" where
  "onSignal ps = (if ps_gIoc ps then ps\<lparr>ps_stopped := True\<rparr> else ps)"

text \<open>The handler \<open>tick\<close>, called with an error when the wait was cancelled; the wait that completed is over.\<close>

definition main_tick :: "bool \<Rightarrow> int \<Rightarrow> u32 list \<Rightarrow> int \<Rightarrow> string list \<Rightarrow> Process \<Rightarrow> Process result" where
  "main_tick ec now order now' hlrOrder ps =
     (let ps1 = ps\<lparr>ps_expiryTimer := None\<rparr> in
      if ec then Inr ps1
      else rbind (system_event now (Timer order now' hlrOrder) (ps_sys ps1)) (\<lambda>sys.
        Inr (ps1\<lparr>ps_sys := sys, ps_expiryTimer := Some 5\<rparr>)))"

text \<open>Everything before \<open>ioc.run()\<close>.\<close>

definition main_setup :: "string list \<Rightarrow> bool \<Rightarrow> Process result" where
  "main_setup argv bound =
     rbind (main_start argv bound) (\<lambda>(listenPort, accepts, timers, sys).
       Inr \<lparr>ps_gIoc = True, ps_stopped = False, ps_expiryTimer = Some 5, ps_sys = sys\<rparr>)"

datatype MainEvent =
    Signal
  | Handler int SystemEvent
  | ExpiryTimer bool int "u32 list" int "string list"

fun main_event :: "MainEvent \<Rightarrow> Process \<Rightarrow> Process result" where
  "main_event Signal ps = Inr (onSignal ps)"
| "main_event (Handler now ev) ps = rbind (system_event now ev (ps_sys ps)) (\<lambda>sys. Inr (ps\<lparr>ps_sys := sys\<rparr>))"
| "main_event (ExpiryTimer ec now order now' hlrOrder) ps = main_tick ec now order now' hlrOrder ps"

datatype Outcome =
    Running Process
  | Returned int
  | Terminated exc

text \<open>\<open>ioc.run()\<close> and the \<open>return\<close> behind it: the loop ends when it is stopped, and nothing catches an exception.\<close>

fun ioc_run :: "MainEvent list \<Rightarrow> Process \<Rightarrow> Outcome" where
  "ioc_run [] ps = (if ps_stopped ps then Returned 0 else Running ps)"
| "ioc_run (ev # evs) ps =
     (if ps_stopped ps then Returned 0
      else case main_event ev ps of Inl e \<Rightarrow> Terminated e | Inr ps' \<Rightarrow> ioc_run evs ps')"

definition main_run :: "string list \<Rightarrow> bool \<Rightarrow> MainEvent list \<Rightarrow> Outcome" where
  "main_run argv bound evs = (case main_setup argv bound of Inl e \<Rightarrow> Terminated e | Inr ps \<Rightarrow> ioc_run evs ps)"

text \<open>
  What can happen to a running process: the timer fires when a wait is outstanding, and without an
  error, since nothing cancels it; the other handlers are those of the event loop.
\<close>

fun main_ok :: "MainEvent \<Rightarrow> Process \<Rightarrow> bool" where
  "main_ok Signal ps = True"
| "main_ok (Handler now ev) ps = (system_ok ev (ps_sys ps) \<and> (case ev of Timer _ _ _ \<Rightarrow> False | _ \<Rightarrow> True))"
| "main_ok (ExpiryTimer ec now order now' hlrOrder) ps =
     (\<not> ec \<and> ps_expiryTimer ps \<noteq> None \<and> system_ok (Timer order now' hlrOrder) (ps_sys ps))"

fun ioc_ok :: "MainEvent list \<Rightarrow> Process \<Rightarrow> bool" where
  "ioc_ok [] ps = True"
| "ioc_ok (ev # evs) ps =
     (ps_stopped ps \<or> main_ok ev ps \<and> (case main_event ev ps of Inl e \<Rightarrow> True | Inr ps' \<Rightarrow> ioc_ok evs ps'))"

text \<open>The state of the components is one that the event loop reaches, and the expiry timer is armed.\<close>

definition process_inv :: "MapTransportConfig \<Rightarrow> Process \<Rightarrow> bool" where
  "process_inv cfg ps \<longleftrightarrow> ps_gIoc ps \<and> ps_expiryTimer ps = Some 5 \<and> (\<exists>evs hist. system_reach 30 cfg evs hist (ps_sys ps))"

lemma main_setup_inv:
  assumes "main_setup argv bound = Inr ps"
  shows "\<exists>port cfg. main_config argv = Inr (port, cfg) \<and> process_inv cfg ps \<and> \<not> ps_stopped ps"
proof -
  obtain port cfg where "main_config argv = Inr (port, cfg)"
    "ps = \<lparr>ps_gIoc = True, ps_stopped = False, ps_expiryTimer = Some 5, ps_sys = system_new 30 cfg\<rparr>"
    using assms by (auto simp: main_setup_def main_start_eq rbind_Inr_iff split: if_splits)
  then show ?thesis using reach_new by (auto simp: process_inv_def)
qed

lemma main_setup_throws:
  "main_setup argv bound = Inl e \<longleftrightarrow>
     main_config argv = Inl e \<or> (\<exists>cfg. main_config argv = Inr cfg) \<and> \<not> bound \<and> e = system_error ''bind''"
  by (auto simp: main_setup_def main_start_eq rbind_Inl_iff split: if_splits)

lemma main_event_inv:
  assumes "main_event ev ps = Inr ps'" and "main_ok ev ps" and "process_inv cfg ps"
  shows "process_inv cfg ps' \<and> (ps_stopped ps' \<longleftrightarrow> ps_stopped ps \<or> ev = Signal)"
  using assms reach_step
  by (cases ev) (auto simp: process_inv_def onSignal_def main_tick_def rbind_Inr_iff Let_def simp del: system_event.simps, blast+)

lemma main_event_throws:
  assumes "main_event ev ps = Inl e" and "main_ok ev ps" and "process_inv cfg ps"
  shows "\<exists>sev evs hist. system_reach 30 cfg evs hist (ps_sys ps) \<and> system_ok sev (ps_sys ps) \<and> end_cause sev (ps_sys ps) e"
proof -
  obtain evs hist where reach: "system_reach 30 cfg evs hist (ps_sys ps)" using assms(3) by (auto simp: process_inv_def)
  obtain now sev where "system_event now sev (ps_sys ps) = Inl e" "system_ok sev (ps_sys ps)"
    using assms(1,2) by (cases ev) (auto simp: main_tick_def rbind_Inl_iff Let_def simp del: system_event.simps)
  then show ?thesis using program_ends_only reach by blast
qed

text \<open>How a process with the invariant can end.\<close>

definition outcome_ok :: "MapTransportConfig \<Rightarrow> MainEvent list \<Rightarrow> Outcome \<Rightarrow> bool" where
  "outcome_ok cfg evs out \<longleftrightarrow>
     (case out of
        Running ps \<Rightarrow> Signal \<notin> set evs \<and> process_inv cfg ps
      | Returned c \<Rightarrow> c = 0 \<and> Signal \<in> set evs
      | Terminated e \<Rightarrow> (\<exists>sev sevs hist sys. system_reach 30 cfg sevs hist sys \<and> system_ok sev sys \<and> end_cause sev sys e))"

lemma ioc_run_outcome:
  "ioc_ok evs ps \<Longrightarrow> process_inv cfg ps \<Longrightarrow> ps_stopped ps \<longleftrightarrow> Signal \<in> set past \<Longrightarrow> outcome_ok cfg (past @ evs) (ioc_run evs ps)"
proof (induction evs arbitrary: ps past)
  case (Cons ev evs)
  show ?case
  proof (cases "ps_stopped ps")
    case False
    then have ok: "main_ok ev ps" using Cons.prems(1) by simp
    show ?thesis
    proof (cases "main_event ev ps")
      case (Inl e)
      then show ?thesis using main_event_throws [OF _ ok Cons.prems(2)] False by (auto simp: outcome_ok_def)
    next
      case (Inr ps')
      note inv = main_event_inv [OF Inr ok Cons.prems(2)]
      then have "outcome_ok cfg ((past @ [ev]) @ evs) (ioc_run evs ps')"
        using Cons.IH [of ps' "past @ [ev]"] Cons.prems(1,3) Inr False by auto
      then show ?thesis using Inr False by simp
    qed
  qed (use Cons.prems in \<open>simp add: outcome_ok_def\<close>)
qed (simp add: outcome_ok_def)

section \<open>Handlers that concern one transport only\<close>

lemma silent_effects:
  assumes "MtDisconnectCb \<notin> set acts" and "MtPostOnConnectError \<notin> set acts" and "mt_payloads_of acts = []"
  shows "foldM (transport_effect now order) acts sys = Inr sys"
  using assms
proof (induction acts)
  case (Cons a acts)
  then show ?case by (cases a) (simp_all add: mt_payloads_of_def)
qed simp

lemma system_run_transport:
  assumes "transport_run evs (sys_transport sys) = Inr (acts, t')"
    and "MtDisconnectCb \<notin> set acts" and "MtPostOnConnectError \<notin> set acts" and "mt_payloads_of acts = []"
  shows "system_run (map (\<lambda>e. (now, TransportIo e order)) evs) sys = Inr (sys\<lparr>sys_transport := t'\<rparr>)"
  using assms
proof (induction evs arbitrary: sys acts)
  case (Cons e evs)
  obtain a t1 b where r: "transport_event e (sys_transport sys) = Inr (a, t1)" "transport_run evs t1 = Inr (b, t')" "acts = a @ b"
    using Cons.prems(1) by (auto simp: and_then_Inr_iff)
  then have "system_event now (TransportIo e order) sys = Inr (sys\<lparr>sys_transport := t1\<rparr>)"
    using silent_effects [of a] Cons.prems(2-4) by (simp add: transport_handler_def)
  moreover have "system_run (map (\<lambda>e. (now, TransportIo e order)) evs) (sys\<lparr>sys_transport := t1\<rparr>) = Inr (sys\<lparr>sys_transport := t'\<rparr>)"
    using Cons.IH [of "sys\<lparr>sys_transport := t1\<rparr>" b] r Cons.prems(2-4) by simp
  ultimately show ?case by simp
qed simp

lemma first_session:
  assumes "sys_server sys = srv_new"
  shows "system_run [(now, ServerIo (Accepted False)), (now', ServerIo (SessionRead 0 False [0, 2, 0xFE, 5]))] sys =
    Inr (sys\<lparr>sys_server := demo_server\<rparr>)"
  using assms first_events(2) [of "sys\<lparr>sys_server := demo_greeted\<rparr>" now']
  by (simp add: first_events(1) del: system_event.simps)

section \<open>Properties\<close>

text \<open>
  C22: The program comes up.  With any command line \<open>main\<close> accepts and a port that can be bound, when the gateway can be reached and
  acknowledges ASPUP and ASPAC, however TCP cuts its octets, and an SGSN connects and answers the
  identity request, the event loop runs the handlers without an exception, after which everything is
  in place for a request: the transport is active with the configuration of the command line and
  has queued ASPUP and ASPAC and nothing else, the session of the SGSN is ready at a frame boundary and
  registered under client ID 1, the proxy has no transaction and nothing is left to run.
\<close>

theorem program_boots:
  assumes "main_start argv bound = Inr (port, sacts, tacts, sys)"
    and "mu_is kClassAspsm kTypeAspUpAck a" and "mu_is kClassAsptm kTypeAspAcAck b"
    and "length (m3ua_encode a) \<le> 65536" and "length (m3ua_encode b) \<le> 65536"
    and "concat chunks = m3ua_encode a @ m3ua_encode b"
  shows "\<exists>cfg sys'. main_config argv = Inr (port, cfg) \<and> sacts = [AcceptNext] \<and> tacts = [MtReconnectTimer 0] \<and>
    system_run (map (\<lambda>e. (now, TransportIo e order))
        ([TimerExpires False True True, ConnectCompletes False] @ map (MtReadCompletes False) chunks) @
      [(now', ServerIo (Accepted False)), (now'', ServerIo (SessionRead 0 False [0, 2, 0xFE, 5]))]) sys = Inr sys' \<and>
    sys_proxy sys' = proxy_new 30 \<and> sys_tasks sys' = [] \<and>
    at_frame 0 (sys_server sys') \<and> fst (srv_heap (sys_server sys') ! 0) = 1 \<and> srv_sessions (sys_server sys') 1 = Some 0 \<and>
    mt_state (sys_transport sys') = Active \<and> mt_cfg (sys_transport sys') = cfg \<and> m3ua_buf (mt_decoder (sys_transport sys')) = [] \<and>
    mt_writeQueue (sys_transport sys') = [m3ua_encode makeAspUp, m3ua_encode (makeAspAc (cfg_routingContext cfg))]"
proof -
  obtain cfg where cfg: "main_config argv = Inr (port, cfg)" "sys = system_new 30 cfg" "sacts = [AcceptNext]" "tacts = [MtReconnectTimer 0]"
    using assms(1) by (auto simp: main_start_eq rbind_Inr_iff split: if_splits)
  have fresh: "fresh (sys_transport sys)" "mt_cfg (sys_transport sys) = cfg"
    using cfg(2) by (simp_all add: system_new_def mt_new_def m3ua_new_def fresh_def)
  have good: "mu_good a" "mu_good b" using assms(4,5) by (simp_all add: mu_good_def)
  obtain acts t where t: "transport_run ([TimerExpires False True True, ConnectCompletes False] @ map (MtReadCompletes False) chunks)
      (sys_transport sys) = Inr (acts, t)" "mt_state t = Active" "mt_cfg t = cfg" "m3ua_buf (mt_decoder t) = []"
    "mt_writeQueue t = [m3ua_encode makeAspUp, m3ua_encode (makeAspAc (cfg_routingContext cfg))]"
    and quiet: "MtDisconnectCb \<notin> set acts" "MtPostOnConnectError \<notin> set acts" "mt_payloads_of acts = []"
    using transport_establishes [OF fresh(1) assms(2,3) good assms(6)] fresh(2) by metis
  let ?sys = "sys\<lparr>sys_transport := t\<rparr>"
  have "sys_server ?sys = srv_new" using cfg(2) by (simp add: system_new_def)
  then have "system_run (map (\<lambda>e. (now, TransportIo e order))
        ([TimerExpires False True True, ConnectCompletes False] @ map (MtReadCompletes False) chunks) @
      [(now', ServerIo (Accepted False)), (now'', ServerIo (SessionRead 0 False [0, 2, 0xFE, 5]))]) sys =
      Inr (?sys\<lparr>sys_server := demo_server\<rparr>)"
    unfolding system_run_append system_run_transport [OF t(1) quiet] rbind_simps by (rule first_session)
  then show ?thesis
    using cfg t(2-5)
    by (auto simp: system_new_def at_frame_def demo_server_def srv_session_def ipa_new_def)
qed

theorem program_boots_witness:
  "\<exists>cfg sys sys'. main_start [''proxy'', ''4223''] True = Inr (4223, [AcceptNext], [MtReconnectTimer 0], sys) \<and>
     system_run (map (\<lambda>e. (0, TransportIo e [])) ([TimerExpires False True True, ConnectCompletes False] @
        map (MtReadCompletes False) [m3ua_encode (demo_ack 3) @ m3ua_encode (demo_ack 4)]) @
      [(1, ServerIo (Accepted False)), (2, ServerIo (SessionRead 0 False [0, 2, 0xFE, 5]))]) sys = Inr sys' \<and>
     mt_state (sys_transport sys') = Active \<and> at_frame 0 (sys_server sys')"
proof -
  have port: "to_u16 ''4223'' = Inr 4223" by code_simp
  obtain sys where start: "main_start [''proxy'', ''4223''] True = Inr (4223, [AcceptNext], [MtReconnectTimer 0], sys)"
    by (simp add: main_start_eq main_config_def main_arg_def port)
  from program_boots [OF start demo_facts(2-5), of "[m3ua_encode (demo_ack 3) @ m3ua_encode (demo_ack 4)]" 0 "[]" 1 2]
  show ?thesis using start by (auto simp del: system_run.simps)
qed

text \<open>
  C40: The default global titles do not reach the wire.  Without arguments the titles begin with a
  plus sign, which the SCCP encoder takes for a digit: the first octet of the address carries neither
  the sign nor the digit 4 after it.  In the UDT a gateway decodes, the called party is \<open>;?9161000000\<close>
  instead of \<open>+49161000000\<close>, whatever the payload; without the sign the title is sent as it is.
\<close>

theorem main_default_titles_garbled:
  "\<exists>cfg. main_config [''proxy''] = Inr (4222, cfg) \<and> cfg_hlrGt cfg = ''+49161000000'' \<and> cfg_localGt cfg = ''+49161000001'' \<and>
    (\<exists>u. decodeUdt (encodeUdt (udt_for cfg pl)) = Inr u \<and> u_data u = take (length pl mod 256) pl \<and>
       sa_digits (u_calledParty u) = '';?9161000000'' \<and> sa_digits (u_callingParty u) = '';?9161000001'') \<and>
    decodeAddress (rd_new (encodeAddress (makeGtAddress ''49161000000'' (cfg_hlrSsn cfg) True))) =
      Inr (makeGtAddress ''49161000000'' (cfg_hlrSsn cfg) True)"
proof -
  let ?cfg = "MapTransportConfig_init\<lparr>cfg_sgHost := ''127.0.0.1'', cfg_sgPort := 2905, cfg_opc := 1, cfg_dpc := 2,
      cfg_hlrGt := ''+49161000000'', cfg_localGt := ''+49161000001'', cfg_routingContext := None\<rparr>"
  have called: "decodeAddress (rd_new (encodeAddress (makeGtAddress ''+49161000000'' kSsnHlr True))) =
      Inr (makeGtAddress '';?9161000000'' kSsnHlr True)" by code_simp
  have calling: "decodeAddress (rd_new (encodeAddress (makeGtAddress ''+49161000001'' kSsnSgsn True))) =
      Inr (makeGtAddress '';?9161000001'' kSsnSgsn True)" by code_simp
  have "decodeUdt (encodeUdt (udt_for ?cfg pl)) = Inr \<lparr>u_protocolClass = kProtoClass0,
      u_calledParty = makeGtAddress '';?9161000000'' kSsnHlr True, u_callingParty = makeGtAddress '';?9161000001'' kSsnSgsn True,
      u_data = take (length pl mod 256) pl\<rparr>"
    using decodeUdt_encoded [of "udt_for ?cfg pl", OF _ _, of "makeGtAddress '';?9161000000'' kSsnHlr True"] called calling
    by (simp add: udt_for_def MapTransportConfig_init_def length_encodeAddress_gt makeGtAddress_fields)
  moreover have "main_config [''proxy''] = Inr (4222, ?cfg)" by (simp add: main_config_def main_arg_def)
  moreover have "decodeAddress (rd_new (encodeAddress (makeGtAddress ''49161000000'' kSsnHlr True))) =
      Inr (makeGtAddress ''49161000000'' kSsnHlr True)"
    using decodeAddress_encodeAddress [OF addr_wf_makeGtAddress, of "''49161000000''" kSsnHlr True]
    by (simp add: addr_view_makeGtAddress isDigit_def)
  ultimately show ?thesis
    by (intro exI [of _ ?cfg]) (auto simp: makeGtAddress_fields MapTransportConfig_init_def)
qed

text \<open>
  C6: How the program ends.  Whatever the command line and whatever handlers, timers and signals
  follow, in any order: if \<open>main\<close> returns, then with 0 and after a signal; as long as no signal has
  arrived and no handler has thrown, the loop is still running with the expiry timer armed for five
  seconds and its components in a state the event loop reaches; and if an exception ends the
  program, then the command line was not accepted, or the listening port could not be bound, or a
  handler threw for one of five causes: an SGSN has disconnected before the accept handler asks for its
  address, the octets of an SGSN make the IPA decoder throw, the octets of the gateway make the M3UA
  decoder throw or carry a Unitdata with an address outside of it, a write to the gateway completes
  after a reset has emptied the queue, or a message for an SGSN has more than 65535 octets.  (So an
  oversized or malformed message ends the program, where the README says that the peer is
  disconnected.  Failures of memory allocation and of the operations on timers are not considered.)
\<close>

theorem program_outcomes:
  assumes "\<And>ps. main_setup argv bound = Inr ps \<Longrightarrow> ioc_ok evs ps"
  shows "case main_run argv bound evs of
      Running ps \<Rightarrow> Signal \<notin> set evs \<and> ps_expiryTimer ps = Some 5 \<and>
        (\<exists>port cfg sevs hist. main_config argv = Inr (port, cfg) \<and> system_reach 30 cfg sevs hist (ps_sys ps))
    | Returned c \<Rightarrow> c = 0 \<and> Signal \<in> set evs
    | Terminated e \<Rightarrow> main_config argv = Inl e \<or> \<not> bound \<and> e = system_error ''bind'' \<or>
        (\<exists>port cfg sev sevs hist sys. main_config argv = Inr (port, cfg) \<and> system_reach 30 cfg sevs hist sys \<and>
           system_ok sev sys \<and> end_cause sev sys e)"
proof (cases "main_setup argv bound")
  case (Inl e)
  then show ?thesis using main_setup_throws [of argv bound e] by (auto simp: main_run_def)
next
  case (Inr ps)
  then obtain port cfg where cfg: "main_config argv = Inr (port, cfg)" "process_inv cfg ps" "\<not> ps_stopped ps"
    using main_setup_inv by blast
  have "outcome_ok cfg ([] @ evs) (ioc_run evs ps)" using assms Inr cfg(2,3) by (intro ioc_run_outcome) simp_all
  then show ?thesis using cfg(1) Inr by (cases "ioc_run evs ps") (auto simp: main_run_def outcome_ok_def process_inv_def)
qed

text \<open>The witness: an SGSN connects, identifies itself and sends a frame of length 0.\<close>

theorem program_outcomes_witness:
  "\<exists>port cfg sev sevs hist sys.
     main_run [''proxy''] True [Handler 0 (ServerIo (Accepted False)), Handler 1 (ServerIo (SessionRead 0 False [0, 2, 0xFE, 5])),
       Handler 2 (ServerIo (SessionRead 0 False [0, 0, 0xEE]))] = Terminated (runtime_error ''IPA: zero-length wire frame'') \<and>
     main_config [''proxy''] = Inr (port, cfg) \<and> system_reach 30 cfg sevs hist sys \<and> system_ok sev sys \<and>
     end_cause sev sys (runtime_error ''IPA: zero-length wire frame'')"
proof -
  let ?evs = "[Handler 0 (ServerIo (Accepted False)), Handler 1 (ServerIo (SessionRead 0 False [0, 2, 0xFE, 5])),
    Handler 2 (ServerIo (SessionRead 0 False [0, 0, 0xEE]))]"
  obtain port cfg where cfg: "main_config [''proxy''] = Inr (port, cfg)" by (simp add: main_config_def main_arg_def)
  let ?ps = "\<lparr>ps_gIoc = True, ps_stopped = False, ps_expiryTimer = Some 5, ps_sys = system_new 30 cfg\<rparr>"
  have ps: "main_setup [''proxy''] True = Inr ?ps" using cfg by (simp add: main_setup_def main_start_eq)
  let ?sys = "system_new 30 cfg"
  have e: "system_event 0 (ServerIo (Accepted False)) ?sys = Inr (?sys\<lparr>sys_server := demo_greeted\<rparr>)"
    "system_event 1 (ServerIo (SessionRead 0 False [0, 2, 0xFE, 5])) (?sys\<lparr>sys_server := demo_greeted\<rparr>) = Inr (?sys\<lparr>sys_server := demo_server\<rparr>)"
    "system_event 2 (ServerIo (SessionRead 0 False [0, 0, 0xEE])) (?sys\<lparr>sys_server := demo_server\<rparr>) =
      Inl (runtime_error ''IPA: zero-length wire frame'')"
    using first_events(1) [of ?sys 0] first_events(2) [of "?sys\<lparr>sys_server := demo_greeted\<rparr>" 1]
      first_events(3) [of "?sys\<lparr>sys_server := demo_server\<rparr>" 2] by (simp_all add: system_new_def del: system_event.simps)
  have run: "main_run [''proxy''] True ?evs = Terminated (runtime_error ''IPA: zero-length wire frame'')"
    using ps e by (simp add: main_run_def del: system_event.simps)
  have "ioc_ok ?evs ?ps"
    using e by (simp add: system_ok_def server_ok_def demo_greeted_def demo_server_def del: system_event.simps)
  then have ok: "\<And>ps. main_setup [''proxy''] True = Inr ps \<Longrightarrow> ioc_ok ?evs ps" using ps by auto
  from program_outcomes [of "[''proxy'']" True ?evs, OF ok] show ?thesis using cfg unfolding run by simp
qed

end
