(* ===== verification/Delivery.thy ===== *)
theory Delivery
  imports SystemRuns
begin

text \<open>
  From the proxy to the wire: what becomes of the messages the proxy sends to SGSNs when the event
  loop runs the functions they were posted as.  Every ready session that a message is addressed to
  gets its frame once and in order, whatever the number of messages and sessions.  With it, the
  broadcast of an HLR request, its answer, and the errors after a lost connection or a timeout are
  followed from octets to octets.
\<close>

section \<open>Addressees\<close>

text \<open>The ready sessions \<open>send\<close> posts a message to: all of them for client 0, in the order of the map.\<close>

definition receivers :: "ClientId \<Rightarrow> client_id list \<Rightarrow> IpaServer \<Rightarrow> session_ref list" where
  "receivers c order sv =
     filter (\<lambda>ref. ss_isReady (srv_session ref sv)) (List.map_filter (srv_sessions sv) (if c = 0 then order else [c]))"

definition deliveries :: "client_id list \<Rightarrow> IpaServer \<Rightarrow> (bytes \<times> ClientId) list \<Rightarrow> (session_ref \<times> bytes) list" where
  "deliveries order sv msgs =
     concat (map (\<lambda>(d, c). map (\<lambda>ref. (ref, ipa_wire (gsup_frame d))) (receivers c order sv)) msgs)"

lemma deliveries_simps [simp]:
  "deliveries order sv [] = []"
  "deliveries order sv ((d, c) # msgs) = map (\<lambda>ref. (ref, ipa_wire (gsup_frame d))) (receivers c order sv) @ deliveries order sv msgs"
  by (simp_all add: deliveries_def)

lemma receivers_refs: "ref \<in> set (receivers c order sv) \<Longrightarrow> \<exists>i. srv_sessions sv i = Some ref"
  by (auto simp: receivers_def List.map_filter_def split: if_splits)

lemma deliveries_live: "refs_ok sv \<Longrightarrow> (ref, f) \<in> set (deliveries order sv msgs) \<Longrightarrow> ref < length (srv_heap sv)"
  using receivers_refs unfolding refs_ok_def by (induction msgs) fastforce+

lemma srv_sendTo_eq:
  "length d \<le> 0xFFFF \<Longrightarrow>
     srv_sendTo d ref sv = Inr (if ss_isReady (srv_session ref sv) then [PostEnqueue ref (ipa_wire (gsup_frame d))] else [])"
  by (simp add: srv_sendTo_def ss_sendGsup_def ipa_encode_wire gsup_frame_def)

lemma srv_broadcast_eq:
  assumes "length d \<le> 0xFFFF"
  shows "srv_broadcast d order sv = Inr (map (\<lambda>ref. PostEnqueue ref (ipa_wire (gsup_frame d)))
    (filter (\<lambda>ref. ss_isReady (srv_session ref sv)) (List.map_filter (srv_sessions sv) order)))"
proof (induction order)
  case (Cons i order)
  then show ?case by (cases "srv_sessions sv i") (simp_all add: srv_sendTo_eq [OF assms] List.map_filter_simps)
qed (simp add: List.map_filter_simps)

lemma srv_send_eq:
  "length d \<le> 0xFFFF \<Longrightarrow>
     srv_send d c order sv = Inr (map (\<lambda>ref. PostEnqueue ref (ipa_wire (gsup_frame d))) (receivers c order sv))"
  by (simp add: srv_send_def receivers_def srv_broadcast_eq srv_sendTo_eq List.map_filter_simps split: option.split)

section \<open>Running the posted functions\<close>

definition run_posted :: "int list \<Rightarrow> client_id list \<Rightarrow> u32 list \<Rightarrow> System \<Rightarrow> System result" where
  "run_posted nows order os = system_run (map (\<lambda>now. (now, RunTask order os)) nows)"

lemma run_posted_simps [simp]:
  "run_posted [] order os sys = Inr sys"
  "run_posted (now # nows) order os sys = rbind (system_event now (RunTask order os) sys) (run_posted nows order os)"
  by (simp_all add: run_posted_def)

lemma run_posted_append: "run_posted (nows @ nows') order os sys = rbind (run_posted nows order os sys) (run_posted nows' order os)"
  by (simp add: run_posted_def system_run_append)

lemma effects_post:
  "foldM (server_effect now) (map (\<lambda>ref. PostEnqueue ref f) refs) sys =
     Inr (sys\<lparr>sys_tasks := sys_tasks sys @ map (\<lambda>ref. SessionSend ref f) refs\<rparr>)"
  by (induction refs arbitrary: sys) simp_all

lemma run_sends:
  assumes "sys_tasks sys = map (case_prod ServerSend) msgs @ rest" and "\<forall>(d, c) \<in> set msgs. length d \<le> 0xFFFF"
    and "length nows = length msgs"
  shows "run_posted nows order os sys =
    Inr (sys\<lparr>sys_tasks := rest @ map (case_prod SessionSend) (deliveries order (sys_server sys) msgs)\<rparr>)"
  using assms
proof (induction msgs arbitrary: sys rest nows)
  case (Cons m msgs)
  obtain d c where m: "m = (d, c)" by force
  obtain now nows' where nows: "nows = now # nows'" "length nows' = length msgs" using Cons.prems(3) by (cases nows) auto
  let ?posts = "map (\<lambda>ref. SessionSend ref (ipa_wire (gsup_frame d))) (receivers c order (sys_server sys))"
  let ?sys = "sys\<lparr>sys_tasks := (map (case_prod ServerSend) msgs @ rest) @ ?posts\<rparr>"
  have "length d \<le> 0xFFFF" using Cons.prems(2) m by simp
  then have "system_event now (RunTask order os) sys = Inr ?sys"
    using Cons.prems(1) m by (simp add: srv_send_eq effects_post)
  moreover have "run_posted nows' order os ?sys =
      Inr (?sys\<lparr>sys_tasks := (rest @ ?posts) @ map (case_prod SessionSend) (deliveries order (sys_server ?sys) msgs)\<rparr>)"
    by (rule Cons.IH) (use Cons.prems(2) nows(2) in auto)
  ultimately show ?case using m nows(1) by (simp add: comp_def)
qed simp

text \<open>The sessions after frames were enqueued: only the queues have grown, each by its own frames.\<close>

definition frames_for :: "session_ref \<Rightarrow> (session_ref \<times> bytes) list \<Rightarrow> bytes list" where
  "frames_for ref ps = map snd (filter (\<lambda>(r, f). r = ref) ps)"

lemma frames_for_append [simp]: "frames_for ref [] = []" "frames_for ref (ps @ qs) = frames_for ref ps @ frames_for ref qs"
  "frames_for ref ((r, f) # ps) = (if r = ref then [f] else []) @ frames_for ref ps"
  by (simp_all add: frames_for_def)

definition enqueued :: "(session_ref \<times> bytes) list \<Rightarrow> IpaServer \<Rightarrow> IpaServer \<Rightarrow> bool" where
  "enqueued ps sv sv' \<longleftrightarrow>
     map fst (srv_heap sv') = map fst (srv_heap sv) \<and> srv_sessions sv' = srv_sessions sv \<and>
     srv_allSessions sv' = srv_allSessions sv \<and> srv_nextClientId sv' = srv_nextClientId sv \<and>
     (\<forall>ref < length (srv_heap sv).
        ss_state (srv_session ref sv') = ss_state (srv_session ref sv) \<and>
        ss_decoder (srv_session ref sv') = ss_decoder (srv_session ref sv) \<and>
        ss_writeQueue (srv_session ref sv') = ss_writeQueue (srv_session ref sv) @ frames_for ref ps)"

lemma enqueued_length: "enqueued ps sv sv' \<Longrightarrow> length (srv_heap sv') = length (srv_heap sv)"
  unfolding enqueued_def by (metis length_map)

lemma enqueued_refl: "enqueued [] sv sv"
  by (simp add: enqueued_def)

lemma enqueued_trans: "enqueued ps sv sv1 \<Longrightarrow> enqueued qs sv1 sv2 \<Longrightarrow> enqueued (ps @ qs) sv sv2"
  using enqueued_length [of ps sv sv1] by (simp add: enqueued_def)

lemma run_enqueue:
  assumes "sys_tasks sys = SessionSend ref f # rest" and "ref < length (srv_heap (sys_server sys))"
  shows "\<exists>sv'. system_event now (RunTask order os) sys = Inr (sys\<lparr>sys_tasks := rest, sys_server := sv'\<rparr>) \<and>
    enqueued [(ref, f)] (sys_server sys) sv'"
proof -
  let ?sv = "sys_server sys"
  obtain ws s' where e: "ss_enqueue f (srv_session ref ?sv) = (ws, s')" by force
  let ?sv' = "?sv\<lparr>srv_heap := (srv_heap ?sv)[ref := (fst (srv_heap ?sv ! ref), s')]\<rparr>"
  have q: "ss_writeQueue s' = ss_writeQueue (srv_session ref ?sv) @ [f]" "ss_state s' = ss_state (srv_session ref ?sv)"
    "ss_decoder s' = ss_decoder (srv_session ref ?sv)"
    using e by (auto simp: ss_enqueue_def ss_doWrite_def Let_def split: if_splits)
  have cb: "srv_callbacks ref i (map AsyncWrite ws) sv = (map (SessionIo ref \<circ> AsyncWrite) ws, sv)" for i sv
    by (induction ws) simp_all
  have "server_event (SessionEnqueue ref f) ?sv = Inr (map (SessionIo ref \<circ> AsyncWrite) ws, ?sv')"
    using assms(2) e by (simp add: srv_onSession_def ss_send_def cb)
  then have "system_event now (RunTask order os) sys = Inr (sys\<lparr>sys_tasks := rest, sys_server := ?sv'\<rparr>)"
    using assms(1) by (simp add: server_handler_def)
  moreover have "map fst (srv_heap ?sv') = map fst (srv_heap ?sv)"
    using assms(2) by (simp add: map_update) (metis list_update_id nth_map)
  then have "enqueued [(ref, f)] ?sv ?sv'"
    using q by (auto simp: enqueued_def srv_session_def nth_list_update)
  ultimately show ?thesis by blast
qed

lemma run_enqueues:
  assumes "sys_tasks sys = map (case_prod SessionSend) ps" and "\<forall>(ref, f) \<in> set ps. ref < length (srv_heap (sys_server sys))"
    and "length nows = length ps"
  shows "\<exists>sv'. run_posted nows order os sys = Inr (sys\<lparr>sys_tasks := [], sys_server := sv'\<rparr>) \<and> enqueued ps (sys_server sys) sv'"
  using assms
proof (induction ps arbitrary: sys nows)
  case Nil
  then show ?case by (intro exI [of _ "sys_server sys"]) (simp add: enqueued_refl)
next
  case (Cons p ps)
  obtain ref f where p: "p = (ref, f)" by force
  obtain now nows' where nows: "nows = now # nows'" "length nows' = length ps" using Cons.prems(3) by (cases nows) auto
  obtain sv1 where one: "system_event now (RunTask order os) sys =
      Inr (sys\<lparr>sys_tasks := map (case_prod SessionSend) ps, sys_server := sv1\<rparr>)" "enqueued [(ref, f)] (sys_server sys) sv1"
    using run_enqueue [of sys ref f] Cons.prems(1,2) p by fastforce
  let ?sys = "sys\<lparr>sys_tasks := map (case_prod SessionSend) ps, sys_server := sv1\<rparr>"
  obtain sv' where "run_posted nows' order os ?sys = Inr (?sys\<lparr>sys_tasks := [], sys_server := sv'\<rparr>)" "enqueued ps sv1 sv'"
    using Cons.IH [of ?sys nows'] Cons.prems(2) nows(2) enqueued_length [OF one(2)] by auto
  then show ?case using one nows(1) p enqueued_trans [OF one(2)] by auto
qed

lemma posted_delivered:
  assumes "sys_tasks sys = map (case_prod ServerSend) msgs" and "\<forall>(d, c) \<in> set msgs. length d \<le> 0xFFFF"
    and "refs_ok (sys_server sys)" and "length nows = length msgs + length (deliveries order (sys_server sys) msgs)"
  shows "\<exists>sv'. run_posted nows order os sys = Inr (sys\<lparr>sys_tasks := [], sys_server := sv'\<rparr>) \<and>
    enqueued (deliveries order (sys_server sys) msgs) (sys_server sys) sv'"
proof -
  let ?n = "length msgs" and ?ps = "deliveries order (sys_server sys) msgs"
  let ?sys = "sys\<lparr>sys_tasks := map (case_prod SessionSend) ?ps\<rparr>"
  have "run_posted (take ?n nows) order os sys = Inr ?sys"
    using run_sends [of sys msgs "[]" "take ?n nows" order os] assms(1,2,4) by simp
  moreover have live: "\<forall>(ref, f) \<in> set ?ps. ref < length (srv_heap (sys_server sys))"
    using deliveries_live [OF assms(3)] by blast
  obtain sv' where "run_posted (drop ?n nows) order os ?sys = Inr (?sys\<lparr>sys_tasks := [], sys_server := sv'\<rparr>)"
    "enqueued ?ps (sys_server sys) sv'"
    using run_enqueues [of ?sys ?ps "drop ?n nows" order os] live assms(4) by auto
  ultimately show ?thesis
    using run_posted_append [of "take ?n nows" "drop ?n nows" order os sys] by auto
qed

text \<open>Under the invariant of the server no session is addressed twice.\<close>

lemma receivers_distinct:
  assumes "server_inv sv" and "distinct order"
  shows "distinct (receivers c order sv)"
proof -
  have inj: "i = j" if "srv_sessions sv i = Some ref" "srv_sessions sv j = Some ref" for i j ref
    using that server_invD(3,4) [OF assms(1)] by blast
  have "distinct (List.map_filter (srv_sessions sv) ks)" if "distinct ks" for ks
    using that
  proof (induction ks)
    case (Cons i ks)
    then show ?case by (auto simp: List.map_filter_def dest: inj split: option.splits)
  qed (simp add: List.map_filter_def)
  then show ?thesis using assms(2) by (simp add: receivers_def)
qed

lemma frames_for_one:
  assumes "server_inv sv" and "distinct order"
  shows "frames_for ref (deliveries order sv [(d, c)]) = (if ref \<in> set (receivers c order sv) then [ipa_wire (gsup_frame d)] else [])"
proof -
  have "frames_for ref (map (\<lambda>ref. (ref, f)) refs) = (if ref \<in> set refs then [f] else [])" if "distinct refs" for f refs
    using that by (induction refs) auto
  then show ?thesis using receivers_distinct [OF assms] by simp
qed

lemma in_receivers:
  "ref \<in> set (receivers c order sv) \<longleftrightarrow>
     ss_state (srv_session ref sv) = Ready \<and> (\<exists>i. i \<in> set (if c = 0 then order else [c]) \<and> srv_sessions sv i = Some ref)"
  by (force simp: receivers_def List.map_filter_def ss_isReady_def)

lemma broadcast_frames:
  assumes "server_inv sv" and "distinct order" and "set order = dom (srv_sessions sv)"
  shows "frames_for ref (deliveries order sv [(d, 0)]) =
    (if ss_state (srv_session ref sv) = Ready \<and> (\<exists>i. srv_sessions sv i = Some ref) then [ipa_wire (gsup_frame d)] else [])"
proof -
  have "ref \<in> set (receivers 0 order sv) \<longleftrightarrow> ss_state (srv_session ref sv) = Ready \<and> (\<exists>i. srv_sessions sv i = Some ref)"
    using assms(3) by (auto simp: in_receivers)
  then show ?thesis using frames_for_one [OF assms(1,2)] by simp
qed

lemma server_inv_refs: "server_inv sv \<Longrightarrow> refs_ok sv"
  using server_invD(2,4) unfolding refs_ok_def by blast

section \<open>A request of the HLR\<close>

lemma hlr_request_delivered:
  assumes server: "server_inv (sys_server sys)" "distinct order" "set order = dom (srv_sessions (sys_server sys))"
    and hlr: "mt_state (sys_transport sys) = Active" "m3ua_buf (mt_decoder (sys_transport sys)) = []" and idle: "sys_tasks sys = []"
    and m: "m_component m = Invoke" "(t, m_operation m, res, err) \<in> set hlr_requests" "map_encode m = Inr bs"
      "list_all isDigit (m_imsi m)" "length (m_imsi m) \<le> 15" "fits (m_msisdn m)"
    and wire: "mu_good q" "sccp_of q = Some raw" "decodeUdt raw = Inr u" "u_data u = bs"
    and nows: "length nows = 1 + length (receivers 0 order (sys_server sys))"
  shows "\<exists>sv' data g. system_run ((now, TransportIo (MtReadCompletes False (m3ua_encode q)) os) # map (\<lambda>n. (n, RunTask order os)) nows) sys =
      Inr (sys\<lparr>sys_proxy := (sys_proxy sys)\<lparr>hlrTx := (hlrTx (sys_proxy sys))(m_imsi m \<mapsto>
        \<lparr>h_mapTransactionId = m_transactionId m, h_mapInvokeId = m_invokeId m, h_mapOperation = m_operation m, h_createdAt = now\<rparr>)\<rparr>,
        sys_tasks := [], sys_server := sv'\<rparr>) \<and>
    enqueued (deliveries order (sys_server sys) [(data, 0)]) (sys_server sys) sv' \<and>
    sgsn_gets (ipa_wire (gsup_frame data)) data \<and> gsup_decode data = Inr g \<and> g_type g = t \<and> g_imsi g = m_imsi m"
proof -
  let ?p = "(sys_proxy sys)\<lparr>hlrTx := (hlrTx (sys_proxy sys))(m_imsi m \<mapsto>
        \<lparr>h_mapTransactionId = m_transactionId m, h_mapInvokeId = m_invokeId m, h_mapOperation = m_operation m, h_createdAt = now\<rparr>)\<rparr>"
  obtain data g where h: "handleMapPayload now bs (sys_proxy sys) = Inr ([SendSgsn data 0], ?p)" "gsup_decode data = Inr g"
    "mapInvokeToGsup m = Inr g" "g_type g = t" "g_imsi g = m_imsi m" "gsup_encode g = Inr data"
    using hlr_request_forwarded [OF m, of now "sys_proxy sys"] by auto
  have "g_authTuples g = []" "g_pdpInfoList g = []"
    using h(3) by (auto simp: mapInvokeToGsup_def GsupMessage_init_def Let_def split: if_splits option.splits)
  then have len: "length data \<le> 600" using length_gsup_plain [OF mapInvokeToGsup_wf [OF h(3) m(4-6)]] h(6) by blast
  let ?sys = "sys\<lparr>sys_proxy := ?p, sys_tasks := [ServerSend data 0]\<rparr>"
  have "system_event now (TransportIo (MtReadCompletes False (m3ua_encode q)) os) sys = Inr ?sys"
    using system_reads_map [OF hlr wire(1-3)] h(1) wire(4) idle by (simp add: call_proxy_def proxy_event_def)
  moreover obtain sv' where "run_posted nows order os ?sys = Inr (?sys\<lparr>sys_tasks := [], sys_server := sv'\<rparr>)"
    "enqueued (deliveries order (sys_server sys) [(data, 0)]) (sys_server sys) sv'"
    using posted_delivered [of ?sys "[(data, 0)]" nows order os] len server_inv_refs [OF server(1)] nows by auto
  ultimately show ?thesis
    using h(2,4,5) sgsn_gets_gsup [of data] len by (intro exI [of _ sv'] exI [of _ data] exI [of _ g]) (simp add: run_posted_def)
qed

lemma hlr_answer_sent:
  assumes at: "at_frame ref (sys_server sys)" and e: "hlrTx (sys_proxy sys) (g_imsi a) = Some e"
    and hlr: "mt_state (sys_transport sys) = Active" "sends_digits (mt_cfg (sys_transport sys))" and idle: "sys_tasks sys = []"
    and a: "gsup_wf a" "gsup_encode a = Inr pl" "isHlrInitiatedGsupType (g_type a)" "length pl \<le> 4095"
  shows "\<exists>sys' f bs r. system_run [(now, ServerIo (SessionRead ref False (ipa_wire (gsup_frame pl)))), (now', RunTask ss os)] sys = Inr sys' \<and>
    mt_writeQueue (sys_transport sys') = mt_writeQueue (sys_transport sys) @ [f] \<and> gateway_gets f bs \<and>
    gsupToMapResult a (h_mapTransactionId e) (h_mapInvokeId e) = Inr r \<and> map_decode bs = Inr (map_view r) \<and>
    hlrTx (sys_proxy sys') (g_imsi a) = None \<and> sys_tasks sys' = []"
proof -
  let ?p = "sys_proxy sys" and ?cfg = "mt_cfg (sys_transport sys)" and ?i = "fst (srv_heap (sys_server sys) ! ref)"
  let ?p' = "?p\<lparr>hlrTx := (hlrTx ?p)(g_imsi a := None)\<rparr>"
  obtain bs r where h: "handleGsupPayload now pl ?i ?p = Inr ([SendHlr bs], ?p')"
    "gsupToMapResult a (h_mapTransactionId e) (h_mapInvokeId e) = Inr r" "map_decode bs = Inr (map_view r)" "bs = map_pdu r"
    using hlr_answer_forwarded [OF a(1-3) e] by blast
  have "length (g_imsi a) \<le> 15" using a(1) by (simp add: gsup_wf_def)
  then have "length bs \<le> 255" using length_map_pdu_le(2) [OF gsupToMapResult_argBody [OF h(2)]] h(4) by simp
  then have gets: "gateway_gets (m3ua_encode (data_for ?cfg bs)) bs" using gateway_gets_data hlr(2) by blast
  let ?sys = "sys\<lparr>sys_proxy := ?p', sys_tasks := [TransportSend bs]\<rparr>"
  have "system_event now (ServerIo (SessionRead ref False (ipa_wire (gsup_frame pl)))) sys = Inr ?sys"
    using system_reads_gsup [OF at a(4)] h(1) idle by (simp add: call_proxy_def proxy_event_def)
  moreover obtain sys' where "system_event now' (RunTask ss os) ?sys = Inr sys'" "sys_tasks sys' = []" "sys_proxy sys' = ?p'"
    "mt_writeQueue (sys_transport sys') = mt_writeQueue (sys_transport sys) @ [m3ua_encode (data_for ?cfg bs)]"
    using system_sends_map [of ?sys bs now' ss os] hlr(1) by auto
  ultimately show ?thesis using h(2,3) gets by auto
qed

section \<open>Errors after a disconnect or a timeout\<close>

text \<open>The error messages the proxy sends on its own are short, and all of them go to SGSNs.\<close>

lemma length_error_answer:
  assumes "error_answer tid op imsi = Some d"
  shows "length d \<le> 600"
proof -
  obtain g where g: "mapToGsup (MapMessage_init\<lparr>m_transactionId := tid, m_operation := op, m_component := ReturnError, m_imsi := imsi\<rparr>) = Inr g"
    "gsup_encode g = Inr d"
    using assms by (auto simp: error_answer_def rbind_Inr_iff)
  have f: "g_imsi g = imsi" "g_authTuples g = []" "g_pdpInfoList g = []" "g_msisdn g = None" "g_hlrNumber g = None" "\<not> g_freezePtmsiResult g"
    using g(1) by (auto simp: mapToGsup_def mapErrorToGsup_def GsupMessage_init_def Let_def split: if_splits)
  have "list_all isDigit imsi \<and> length imsi \<le> 15"
    using g(2) f(1) by (cases "imsi = []") (auto simp: gsup_encode_def gsup_imsiToBcd_def rbind_Inr_iff Let_def split: if_splits)
  then have "gsup_wf g" using f by (simp add: gsup_wf_def fits_def)
  then show ?thesis using length_gsup_plain f(2,3) g(2) by blast
qed

lemma nack_messages:
  "\<exists>msgs. concat (map (nack_answer p) tids) = map (case_prod SendSgsn) msgs \<and> (\<forall>(d, c) \<in> set msgs. length d \<le> 600)"
proof (induction tids)
  case (Cons tid tids)
  then obtain msgs where "concat (map (nack_answer p) tids) = map (case_prod SendSgsn) msgs" "\<forall>(d, c) \<in> set msgs. length d \<le> 600"
    by blast
  moreover have "\<exists>ms. nack_answer p tid = map (case_prod SendSgsn) ms \<and> (\<forall>(d, c) \<in> set ms. length d \<le> 600)"
  proof (cases "nack_answer p tid = []")
    case False
    then obtain c op imsi d where "nack_answer p tid = [SendSgsn d c]" "error_answer tid op imsi = Some d"
      by (auto simp: nack_answer_def sends_def split: option.splits)
    then show ?thesis using length_error_answer by (intro exI [of _ "[(d, c)]"]) auto
  qed simp
  then obtain ms where "nack_answer p tid = map (case_prod SendSgsn) ms" "\<forall>(d, c) \<in> set ms. length d \<le> 600" by blast
  ultimately show ?case by (intro exI [of _ "ms @ msgs"]) auto
qed simp

lemma error_messages:
  assumes "proxy_inv p" and "event_ok ev p" and "proxy_event now ev p = Inr (acts, p')"
    and "(\<exists>os. ev = HlrDisconnected os) \<or> (\<exists>os now' hs. ev = Tick os now' hs)"
  shows "\<exists>msgs. acts = map (case_prod SendSgsn) msgs \<and> (\<forall>(d, c) \<in> set msgs. length d \<le> 600)"
proof -
  have "\<exists>tids. acts = concat (map (nack_answer p) tids)"
    using assms(4)
  proof (elim disjE exE)
    fix os assume "ev = HlrDisconnected os"
    then have "nackAllPendingTransactions os p = Inr (acts, p')" "distinct os" "set os = dom (pendingOps p)"
      using assms(2,3) by (simp_all add: event_ok_def proxy_event_def)
    then show ?thesis using inv_nack [OF assms(1)] by blast
  next
    fix os now' hs assume ev: "ev = Tick os now' hs"
    then obtain p1 where "expireSgsnTransactions now os p = Inr (acts, p1)"
      using assms(3) by (auto simp: proxy_event_def tick_def rbind_Inr_iff)
    moreover have "distinct os" "set os = dom (transactions (txMgr p))" using assms(2) ev by (simp_all add: event_ok_def)
    ultimately show ?thesis using inv_expire [OF assms(1)] by blast
  qed
  then show ?thesis using nack_messages by blast
qed

text \<open>The error of a transaction is among the frames by which the queue of a session has grown.\<close>

definition error_queued :: "System \<Rightarrow> System \<Rightarrow> u32 \<Rightarrow> PendingTransaction \<Rightarrow> session_ref \<Rightarrow> bool" where
  "error_queued sys sys' tid t ref \<longleftrightarrow>
     (\<exists>req op err data fs w. pendingOps (sys_proxy sys) tid = Some op \<and> (req, op) \<in> set sgsn_requests \<and> expectedGsupError req = Inr err \<and>
        ss_writeQueue (srv_session ref (sys_server sys')) = ss_writeQueue (srv_session ref (sys_server sys)) @ fs \<and>
        w \<in> set fs \<and> sgsn_gets w data \<and> gsup_decode data = Inr (gsup_error err (tx_imsi t) None))"

definition reachable_client :: "System \<Rightarrow> PendingTransaction \<Rightarrow> session_ref \<Rightarrow> bool" where
  "reachable_client sys t ref \<longleftrightarrow> length (tx_imsi t) \<le> 15 \<and> clientContext t \<noteq> 0 \<and>
     srv_sessions (sys_server sys) (clientContext t) = Some ref \<and> ss_state (srv_session ref (sys_server sys)) = Ready"

text \<open>
  The event loop runs a handler and then the functions posted by it, until it is idle again after a
  fixed number of steps, without an exception and in a state with the given property.
\<close>

definition settles :: "int \<times> SystemEvent \<Rightarrow> client_id list \<Rightarrow> u32 list \<Rightarrow> System \<Rightarrow> (System \<Rightarrow> bool) \<Rightarrow> bool" where
  "settles e order os sys P \<longleftrightarrow>
     (\<exists>n. \<forall>nows. length nows = n \<longrightarrow>
        (\<exists>sys'. system_run (e # map (\<lambda>now. (now, RunTask order os)) nows) sys = Inr sys' \<and> sys_tasks sys' = [] \<and> P sys'))"

lemma settles_mono: "settles e order os sys P \<Longrightarrow> (\<And>sys'. P sys' \<Longrightarrow> Q sys') \<Longrightarrow> settles e order os sys Q"
  unfolding settles_def by blast

lemma errors_delivered:
  assumes inv: "system_inv sys" "proxy_inv (sys_proxy sys)" and ev: "event_ok ev (sys_proxy sys)"
      "(\<exists>os. ev = HlrDisconnected os) \<or> (\<exists>os now' hs. ev = Tick os now' hs)"
    and p: "proxy_event now ev (sys_proxy sys) = Inr (acts, p')" and idle: "sys_tasks sys = []"
    and handler: "system_event now sev sys = Inr sys1" "sys_proxy sys1 = p'" "sys_tasks sys1 = map task_of acts" "sys_server sys1 = sys_server sys"
  shows "settles (now, sev) order os sys (\<lambda>sys'. sys_proxy sys' = p' \<and> sys_transport sys' = sys_transport sys1 \<and>
    (\<forall>tid t ref. reachable_client sys t ref \<and> error_sent (sys_proxy sys) acts tid t \<longrightarrow> error_queued sys sys' tid t ref))"
proof -
  let ?sv = "sys_server sys"
  obtain msgs where m: "acts = map (case_prod SendSgsn) msgs" "\<forall>(d, c) \<in> set msgs. length d \<le> 600"
    using error_messages [OF inv(2) ev(1) p ev(2)] by blast
  let ?ps = "deliveries order ?sv msgs"
  have refs: "refs_ok ?sv" using inv(1) by (simp add: system_inv_def server_good_def)
  have tasks: "sys_tasks sys1 = map (case_prod ServerSend) msgs" using handler(3) m(1) by (auto simp: split_beta)
  have run: "\<exists>sv'. run_posted nows order os sys1 = Inr (sys1\<lparr>sys_tasks := [], sys_server := sv'\<rparr>) \<and> enqueued ?ps ?sv sv'"
    if "length nows = length msgs + length ?ps" for nows
    using posted_delivered [OF tasks, of nows order os] m(2) refs that unfolding handler(4) by force
  have queued: "error_queued sys (sys1\<lparr>sys_tasks := [], sys_server := sv'\<rparr>) tid t ref"
    if sv': "enqueued ?ps ?sv sv'" and t: "reachable_client sys t ref" "error_sent (sys_proxy sys) acts tid t" for sv' tid t ref
  proof -
    obtain req op err data where e: "pendingOps (sys_proxy sys) tid = Some op" "(req, op) \<in> set sgsn_requests"
      "expectedGsupError req = Inr err" "SendSgsn data (clientContext t) \<in> set acts" "gsup_decode data = Inr (gsup_error err (tx_imsi t) None)"
      using t(2) by (auto simp: error_sent_def)
    have msg: "(data, clientContext t) \<in> set msgs" using e(4) m(1) by auto
    have "ref \<in> set (receivers (clientContext t) order ?sv)" using t(1) by (auto simp: reachable_client_def in_receivers)
    with msg have "(ref, ipa_wire (gsup_frame data)) \<in> set ?ps" by (auto simp: deliveries_def)
    then have "ipa_wire (gsup_frame data) \<in> set (frames_for ref ?ps)" by (force simp: frames_for_def)
    moreover have "ref < length (srv_heap ?sv)" using t(1) refs by (auto simp: reachable_client_def refs_ok_def)
    then have "ss_writeQueue (srv_session ref sv') = ss_writeQueue (srv_session ref ?sv) @ frames_for ref ?ps"
      using sv' by (simp add: enqueued_def)
    moreover have "sgsn_gets (ipa_wire (gsup_frame data)) data" using m(2) msg by (intro sgsn_gets_gsup) auto
    ultimately show ?thesis unfolding error_queued_def using e(1-3,5) by auto
  qed
  show ?thesis
    unfolding settles_def
  proof (intro exI [of _ "length msgs + length ?ps"] allI impI)
    fix nows :: "int list" assume "length nows = length msgs + length ?ps"
    from run [OF this] obtain sv' where r: "run_posted nows order os sys1 = Inr (sys1\<lparr>sys_tasks := [], sys_server := sv'\<rparr>)" "enqueued ?ps ?sv sv'"
      by blast
    then have "system_run ((now, sev) # map (\<lambda>k. (k, RunTask order os)) nows) sys = Inr (sys1\<lparr>sys_tasks := [], sys_server := sv'\<rparr>)"
      using handler(1) by (simp add: run_posted_def del: system_event.simps)
    then show "\<exists>sys'. system_run ((now, sev) # map (\<lambda>k. (k, RunTask order os)) nows) sys = Inr sys' \<and> sys_tasks sys' = [] \<and>
        sys_proxy sys' = p' \<and> sys_transport sys' = sys_transport sys1 \<and>
        (\<forall>tid t ref. reachable_client sys t ref \<and> error_sent (sys_proxy sys) acts tid t \<longrightarrow> error_queued sys sys' tid t ref)"
      using queued [OF r(2)] handler(2)
      by (intro exI [of _ "sys1\<lparr>sys_tasks := [], sys_server := sv'\<rparr>"]) (simp del: system_run.simps)
  qed
qed

lemma reach_invs:
  assumes "system_reach limit cfg evs hist sys"
  shows "system_inv sys" "proxy_inv (sys_proxy sys)"
  using system_inv_reach [OF assms] system_reach_calls [OF assms] inv_run [OF _ inv_new] by blast+

lemma disconnect_handler:
  assumes "ev = MtReadCompletes True data \<or> ev = MtWriteCompletes True" and "mt_state (sys_transport sys) \<noteq> TransportStopped"
    and "proxy_event now (HlrDisconnected os) (sys_proxy sys) = Inr (acts, p')" and "sys_tasks sys = []"
  shows "\<exists>t'. system_event now (TransportIo ev os) sys = Inr (sys\<lparr>sys_transport := t', sys_proxy := p', sys_tasks := map task_of acts\<rparr>) \<and>
    mt_state t' = Disconnected"
  using assms
  by (auto simp: transport_handler_def mt_onRead_def mt_onWrite_def scheduleConnect_def resetConnection_def call_proxy_def Let_def)

section \<open>Properties\<close>

text \<open>
  C4: A lost gateway connection is answered on the wire.  In any state the program can reach in which
  nothing is posted, when a read or a write on the gateway connection fails, the event loop runs the
  handler and, after finitely many functions posted by it, is idle again without an exception: the transport is
  disconnected, no transaction is pending, and every client that had one, with an IMSI of at most 15
  digits and a session that is registered and ready, has among its newly queued frames one that it
  decodes to the GSUP error of its request with its IMSI.
\<close>

theorem wire_disconnect:
  assumes reach: "system_reach limit cfg evs hist sys" and idle: "sys_tasks sys = []"
    and up: "mt_state (sys_transport sys) \<noteq> TransportStopped" and ev: "ev = MtReadCompletes True data \<or> ev = MtWriteCompletes True"
    and order: "distinct os" "set os = dom (pendingOps (sys_proxy sys))"
  shows "settles (now, TransportIo ev os) ss os sys (\<lambda>sys'.
    mt_state (sys_transport sys') = Disconnected \<and> find_tx (txMgr (sys_proxy sys')) = Map.empty \<and> pendingOps (sys_proxy sys') = Map.empty \<and>
    (\<forall>tid t ref. find_tx (txMgr (sys_proxy sys)) tid = Some t \<and> reachable_client sys t ref \<longrightarrow> error_queued sys sys' tid t ref))"
proof -
  note inv = reach_invs [OF reach]
  obtain tr where run: "proxy_run (proxy_new limit) tr (sys_proxy sys)" using system_reach_calls [OF reach] by blast
  obtain acts p' where p: "proxy_event now (HlrDisconnected os) (sys_proxy sys) = Inr (acts, p')"
    "find_tx (txMgr p') = Map.empty" "pendingOps p' = Map.empty"
    "\<forall>tid t. find_tx (txMgr (sys_proxy sys)) tid = Some t \<and> length (tx_imsi t) \<le> 15 \<longrightarrow> error_sent (sys_proxy sys) acts tid t"
    using disconnect_answers_all [OF run order, of now] by blast
  obtain t' where h: "system_event now (TransportIo ev os) sys = Inr (sys\<lparr>sys_transport := t', sys_proxy := p', sys_tasks := map task_of acts\<rparr>)"
      (is "_ = Inr ?sys1") "mt_state t' = Disconnected"
    using disconnect_handler [OF ev up p(1) idle] by blast
  have ok: "event_ok (HlrDisconnected os) (sys_proxy sys)" using order by (simp add: event_ok_def)
  have frame: "sys_proxy ?sys1 = p'" "sys_tasks ?sys1 = map task_of acts" "sys_server ?sys1 = sys_server sys" by simp_all
  have "settles (now, TransportIo ev os) ss os sys (\<lambda>sys'. sys_proxy sys' = p' \<and> sys_transport sys' = sys_transport ?sys1 \<and>
    (\<forall>tid t ref. reachable_client sys t ref \<and> error_sent (sys_proxy sys) acts tid t \<longrightarrow> error_queued sys sys' tid t ref))"
    by (rule errors_delivered [OF inv ok _ p(1) idle h(1) frame]) blast
  then show ?thesis by (rule settles_mono) (use p(2-4) h(2) in \<open>auto simp: reachable_client_def\<close>)
qed

text \<open>
  C5: The periodic expiry from the clock to the wire.  In any state the program can reach in which
  nothing is posted, when the expiry timer fires, the event loop runs the handler and, after finitely
  many functions posted by it, is idle again without an exception: exactly the transactions older than the timeout are gone from both
  tables, every client of one, with an IMSI of at most 15 digits and a session that is registered
  and ready, has among its newly queued frames one that it decodes to the GSUP error of its request
  with its IMSI, all younger transactions are as before, and the requests of the HLR older than 30 s
  are dropped without an answer.
\<close>

theorem wire_expiry:
  assumes reach: "system_reach limit cfg evs hist sys" and idle: "sys_tasks sys = []" and ok: "event_ok (Tick os now' hs) (sys_proxy sys)"
  shows "settles (now, Timer os now' hs) ss os sys (\<lambda>sys'. sys_transport sys' = sys_transport sys \<and>
    (\<forall>tid t. find_tx (txMgr (sys_proxy sys)) tid = Some t \<longrightarrow>
       (if now - createdAt t > timeout (txMgr (sys_proxy sys)) * ticks_per_second
        then find_tx (txMgr (sys_proxy sys')) tid = None \<and> pendingOps (sys_proxy sys') tid = None \<and>
          (\<forall>ref. reachable_client sys t ref \<longrightarrow> error_queued sys sys' tid t ref)
        else find_tx (txMgr (sys_proxy sys')) tid = Some t \<and> pendingOps (sys_proxy sys') tid = pendingOps (sys_proxy sys) tid)) \<and>
    hlrTx (sys_proxy sys') = (\<lambda>k. case hlrTx (sys_proxy sys) k of None \<Rightarrow> None
      | Some e \<Rightarrow> if now' - h_createdAt e > 30 * ticks_per_second then None else Some e))"
proof -
  note inv = reach_invs [OF reach]
  obtain tr where run: "proxy_run (proxy_new limit) tr (sys_proxy sys)" using system_reach_calls [OF reach] by blast
  obtain acts p' where p: "proxy_event now (Tick os now' hs) (sys_proxy sys) = Inr (acts, p')"
    "\<forall>tid t. find_tx (txMgr (sys_proxy sys)) tid = Some t \<longrightarrow>
       (if now - createdAt t > timeout (txMgr (sys_proxy sys)) * ticks_per_second
        then find_tx (txMgr p') tid = None \<and> pendingOps p' tid = None \<and>
          (length (tx_imsi t) \<le> 15 \<longrightarrow> error_sent (sys_proxy sys) acts tid t)
        else find_tx (txMgr p') tid = Some t \<and> pendingOps p' tid = pendingOps (sys_proxy sys) tid)"
    "hlrTx p' = (\<lambda>k. case hlrTx (sys_proxy sys) k of None \<Rightarrow> None
      | Some e \<Rightarrow> if now' - h_createdAt e > 30 * ticks_per_second then None else Some e)"
    using tick_expires [OF run ok, of now] by blast
  let ?sys1 = "sys\<lparr>sys_proxy := p', sys_tasks := map task_of acts\<rparr>"
  have h: "system_event now (Timer os now' hs) sys = Inr ?sys1" using p(1) idle by (simp add: call_proxy_def)
  have frame: "sys_proxy ?sys1 = p'" "sys_tasks ?sys1 = map task_of acts" "sys_server ?sys1 = sys_server sys" by simp_all
  have "settles (now, Timer os now' hs) ss os sys (\<lambda>sys'. sys_proxy sys' = p' \<and> sys_transport sys' = sys_transport ?sys1 \<and>
    (\<forall>tid t ref. reachable_client sys t ref \<and> error_sent (sys_proxy sys) acts tid t \<longrightarrow> error_queued sys sys' tid t ref))"
    by (rule errors_delivered [OF inv ok _ p(1) idle h frame]) blast
  then show ?thesis
  proof (rule settles_mono, elim conjE, intro conjI)
    fix sys' assume s: "sys_proxy sys' = p'"
      "\<forall>tid t ref. reachable_client sys t ref \<and> error_sent (sys_proxy sys) acts tid t \<longrightarrow> error_queued sys sys' tid t ref"
    show "\<forall>tid t. find_tx (txMgr (sys_proxy sys)) tid = Some t \<longrightarrow>
       (if now - createdAt t > timeout (txMgr (sys_proxy sys)) * ticks_per_second
        then find_tx (txMgr (sys_proxy sys')) tid = None \<and> pendingOps (sys_proxy sys') tid = None \<and>
          (\<forall>ref. reachable_client sys t ref \<longrightarrow> error_queued sys sys' tid t ref)
        else find_tx (txMgr (sys_proxy sys')) tid = Some t \<and> pendingOps (sys_proxy sys') tid = pendingOps (sys_proxy sys) tid)"
      using s p(2) unfolding reachable_client_def by metis
  qed (use p(3) in simp_all)
qed

lemma settles_run:
  "settles e order os sys P \<Longrightarrow> \<exists>nows sys'. system_run (e # map (\<lambda>now. (now, RunTask order os)) nows) sys = Inr sys' \<and> P sys'"
  unfolding settles_def by (metis length_replicate)

text \<open>
  The run of the witnesses: the SGSN of the greeting asks for authentication vectors while the
  transport is not connected, so that the request stays pending.
\<close>

definition demo_pending :: PendingTransaction where
  "demo_pending = \<lparr>mapTransactionId = 1, mapInvokeId = 1, tx_imsi = ''123'', clientContext = 1, createdAt = 2\<rparr>"

lemma demo_ask:
  "\<exists>bs p. proxy_event 2 (SgsnMessage demo_request 1) (proxy_new 30) = Inr ([SendHlr bs], p) \<and> find_tx (txMgr p) = [1 \<mapsto> demo_pending] \<and>
     pendingOps p = [1 \<mapsto> SendAuthenticationInfo] \<and> hlrTx p = Map.empty \<and> timeout (txMgr p) = 30"
  using demo_asked [of 2 1] by (simp add: demo_pending_def)

definition demo_waiting :: "Proxy \<Rightarrow> System" where
  "demo_waiting p = \<lparr>sys_proxy = p, sys_server = demo_server, sys_transport = mt_new demo_cfg, sys_tasks = []\<rparr>"

lemma demo_waiting_reach:
  "\<exists>evs hist p. system_reach 30 demo_cfg evs hist (demo_waiting p) \<and> find_tx (txMgr p) = [1 \<mapsto> demo_pending] \<and>
     pendingOps p = [1 \<mapsto> SendAuthenticationInfo] \<and> hlrTx p = Map.empty \<and> timeout (txMgr p) = 30"
proof -
  obtain bs p where p: "proxy_event 2 (SgsnMessage demo_request 1) (proxy_new 30) = Inr ([SendHlr bs], p)"
    "find_tx (txMgr p) = [1 \<mapsto> demo_pending]" "pendingOps p = [1 \<mapsto> SendAuthenticationInfo]" "hlrTx p = Map.empty" "timeout (txMgr p) = 30"
    using demo_ask by blast
  let ?sys = "(system_new 30 demo_cfg)\<lparr>sys_server := demo_server\<rparr>" and ?ev = "ServerIo (SessionRead 0 False (ipa_wire (gsup_frame demo_request)))"
  let ?sys1 = "(demo_waiting p)\<lparr>sys_tasks := [TransportSend bs]\<rparr>"
  have at: "at_frame 0 (sys_server ?sys)" "fst (srv_heap (sys_server ?sys) ! 0) = 1"
    by (simp_all add: demo_server_def at_frame_def srv_session_def ipa_new_def)
  have "length demo_request \<le> 4095" by (simp add: demo_request_def)
  then have "system_event 2 ?ev ?sys = Inr ?sys1"
    using system_reads_gsup [OF at(1), of demo_request 2] at(2) p(1)
    by (simp add: call_proxy_def system_new_def demo_waiting_def)
  moreover have "system_ok ?ev ?sys" using at(1) by (simp add: system_ok_def server_ok_def at_frame_def)
  ultimately have "system_reach 30 demo_cfg (demo_hello @ [(2, ?ev)]) ([] @ task_done ?ev ?sys) ?sys1"
    by (intro reach_step [OF demo_hello_reach])
  moreover have "system_ok (RunTask [1] []) ?sys1" by (simp add: system_ok_def demo_waiting_def demo_server_def)
  moreover have "system_event 3 (RunTask [1] []) ?sys1 = Inr (demo_waiting p)"
    by (simp add: demo_waiting_def transport_handler_def mt_send_def mt_new_def)
  ultimately show ?thesis using reach_step p(2-5) by blast
qed

lemma demo_waiting_client: "reachable_client (demo_waiting p) demo_pending 0"
  by (simp add: reachable_client_def demo_waiting_def demo_pending_def demo_server_def srv_session_def)

theorem wire_disconnect_witness:
  "\<exists>p nows sys'. find_tx (txMgr p) 1 = Some demo_pending \<and>
     (system_run ((9, TransportIo (MtReadCompletes True []) [1]) # map (\<lambda>now. (now, RunTask [1] [1])) nows) (demo_waiting p) = Inr sys' \<and>
     find_tx (txMgr (sys_proxy sys')) = Map.empty \<and> error_queued (demo_waiting p) sys' 1 demo_pending 0)"
  (is "\<exists>p nows sys'. _ \<and> ?run p nows sys'")
proof -
  obtain evs hist p where p: "system_reach 30 demo_cfg evs hist (demo_waiting p)" "find_tx (txMgr p) = [1 \<mapsto> demo_pending]"
    "pendingOps p = [1 \<mapsto> SendAuthenticationInfo]" using demo_waiting_reach by blast
  have "sys_tasks (demo_waiting p) = []" "mt_state (sys_transport (demo_waiting p)) \<noteq> TransportStopped"
    "set [1] = dom (pendingOps (sys_proxy (demo_waiting p)))" "find_tx (txMgr (sys_proxy (demo_waiting p))) 1 = Some demo_pending"
    using p(2,3) by (simp_all add: demo_waiting_def mt_new_def)
  then have "settles (9, TransportIo (MtReadCompletes True []) [1]) [1] [1] (demo_waiting p)
      (\<lambda>sys'. find_tx (txMgr (sys_proxy sys')) = Map.empty \<and> error_queued (demo_waiting p) sys' 1 demo_pending 0)"
    by (intro settles_mono [OF wire_disconnect [OF p(1), where ev = "MtReadCompletes True []" and data = "[]" and os = "[1]" and now = 9 and ss = "[1]"]])
      (simp_all add: demo_waiting_client)
  from settles_run [OF this] have "\<exists>nows sys'. find_tx (txMgr p) 1 = Some demo_pending \<and> ?run p nows sys'" using p(2) by simp
  then show ?thesis by (rule exI)
qed

theorem wire_expiry_witness:
  "\<exists>p nows sys'. find_tx (txMgr p) 1 = Some demo_pending \<and>
     (system_run ((30000000003, Timer [1] 30000000003 []) # map (\<lambda>now. (now, RunTask [1] [1])) nows) (demo_waiting p) = Inr sys' \<and>
     find_tx (txMgr (sys_proxy sys')) 1 = None \<and> error_queued (demo_waiting p) sys' 1 demo_pending 0)"
  (is "\<exists>p nows sys'. _ \<and> ?run p nows sys'")
proof -
  obtain evs hist p where p: "system_reach 30 demo_cfg evs hist (demo_waiting p)" "find_tx (txMgr p) = [1 \<mapsto> demo_pending]"
    "pendingOps p = [1 \<mapsto> SendAuthenticationInfo]" "hlrTx p = Map.empty" "timeout (txMgr p) = 30" using demo_waiting_reach by blast
  have w: "sys_tasks (demo_waiting p) = []" "event_ok (Tick [1] 30000000003 []) (sys_proxy (demo_waiting p))"
    "find_tx (txMgr (sys_proxy (demo_waiting p))) 1 = Some demo_pending"
    "30000000003 - createdAt demo_pending > timeout (txMgr (sys_proxy (demo_waiting p))) * ticks_per_second"
    using p(2-5) by (simp_all add: demo_waiting_def event_ok_def find_tx_def [abs_def] demo_pending_def ticks_per_second_def)
  have "settles (30000000003, Timer [1] 30000000003 []) [1] [1] (demo_waiting p)
      (\<lambda>sys'. find_tx (txMgr (sys_proxy sys')) 1 = None \<and> error_queued (demo_waiting p) sys' 1 demo_pending 0)"
    by (rule settles_mono [OF wire_expiry [OF p(1) w(1,2)]]) (use w(3,4) demo_waiting_client in auto)
  from settles_run [OF this] have "\<exists>nows sys'. find_tx (txMgr p) 1 = Some demo_pending \<and> ?run p nows sys'" using p(2) by simp
  then show ?thesis by (rule exI)
qed

end
