(* ===== verification/TransportRuns.thy ===== *)
theory TransportRuns
  imports MapTransport
begin

text \<open>
  The transport on one connection to the Signalling Gateway: the handlers interleave with the
  completion of writes, of which \<open>async_write\<close> permits one at a time.  Between two resets the frames
  reach the gateway in the order in which they were queued, and the MAP payloads among them are the
  ones \<open>send\<close> accepted.
\<close>

section \<open>A connection and its writes\<close>

text \<open>
  The transport, the buffers handed to \<open>async_write\<close> that have not completed, the buffers written, and
  the payloads \<open>send\<close> was called with in the active state.
\<close>

record Link =
  lk_transport :: MapTransport
  lk_out :: "bytes list"
  lk_wire :: "bytes list"
  lk_sent :: "bytes list"

definition mt_writes_of :: "TransportAct list \<Rightarrow> bytes list" where
  "mt_writes_of acts = [b. MtAsyncWrite b \<leftarrow> acts]"

lemma mt_writes_of_simps [simp]:
  "mt_writes_of [] = []" "mt_writes_of (a @ b) = mt_writes_of a @ mt_writes_of b" "mt_writes_of (map MtAsyncWrite ws) = ws"
  "mt_writes_of [MtMessageCb p] = []" "mt_writes_of [MtBeatTimer n] = []" "mt_writes_of [MtAsyncRead] = []"
  by (induction ws) (simp_all add: mt_writes_of_def)

definition accepted :: "TransportEvent \<Rightarrow> MapTransport \<Rightarrow> bytes list" where
  "accepted ev t = (case ev of SendMap pl \<Rightarrow> if mt_state t = Active then [pl] else [] | _ \<Rightarrow> [])"

fun link_event :: "TransportEvent \<Rightarrow> Link \<Rightarrow> Link result" where
  "link_event (MtWriteCompletes ec) k =
     (case lk_out k of [] \<Rightarrow> Inr k
      | b # bs \<Rightarrow> rbind (transport_event (MtWriteCompletes ec) (lk_transport k)) (\<lambda>(acts, t).
          Inr (k\<lparr>lk_transport := t, lk_out := bs @ mt_writes_of acts, lk_wire := (if ec then lk_wire k else lk_wire k @ [b])\<rparr>)))"
| "link_event ev k =
     rbind (transport_event ev (lk_transport k)) (\<lambda>(acts, t).
       Inr (k\<lparr>lk_transport := t, lk_out := lk_out k @ mt_writes_of acts, lk_sent := lk_sent k @ accepted ev (lk_transport k)\<rparr>))"

text \<open>The events of a connection that stays up.\<close>

fun stays_up :: "TransportEvent \<Rightarrow> bool" where
  "stays_up (MtReadCompletes ec data) = (\<not> ec)"
| "stays_up (MtWriteCompletes ec) = (\<not> ec)"
| "stays_up (BeatExpires ec) = True"
| "stays_up (SendMap pl) = True"
| "stays_up _ = False"

section \<open>What the handlers queue\<close>

definition mt_enqs :: "bytes list \<Rightarrow> TransportAct list \<Rightarrow> MapTransport \<Rightarrow> MapTransport \<Rightarrow> bool" where
  "mt_enqs rs acts t t' \<longleftrightarrow> mt_writeQueue t' = mt_writeQueue t @ rs \<and> mt_cfg t' = mt_cfg t \<and>
     (\<forall>out wire. mt.wq_inv (t, out, wire) \<longrightarrow> mt.wq_inv (t', out @ mt_writes_of acts, wire))"

lemma mt_enqs_silent:
  "mt_writeQueue t' = mt_writeQueue t \<Longrightarrow> mt_writing t' = mt_writing t \<Longrightarrow> mt_cfg t' = mt_cfg t \<Longrightarrow> mt_writes_of acts = [] \<Longrightarrow>
     mt_enqs [] acts t t'"
  by (simp add: mt_enqs_def mt.wq_inv_def)

lemma mt_enqs_trans: "mt_enqs rs a t t1 \<Longrightarrow> mt_enqs rs' b t1 t' \<Longrightarrow> mt_enqs (rs @ rs') (a @ b) t t'"
  unfolding mt_enqs_def by (metis append_assoc mt_writes_of_simps(2))

lemma mt_enqs_decoder: "mt_enqs rs acts (t\<lparr>mt_decoder := d\<rparr>) t' = mt_enqs rs acts t t'"
  by (simp add: mt_enqs_def mt.wq_inv_def)

lemma mt_enqs_sendRaw: "sendRaw m t = Inr (acts, t') \<Longrightarrow> mt_enqs [m3ua_encode m] acts t t'"
proof -
  assume r: "sendRaw m t = Inr (acts, t')"
  obtain ws where e: "mt_enqueue (m3ua_encode m) t = (ws, t')" "acts = map MtAsyncWrite ws"
    using r by (auto simp: sendRaw_def split: prod.splits)
  have "mt_writeQueue t' = mt_writeQueue t @ [m3ua_encode m]" "mt_cfg t' = mt_cfg t"
    using e(1) by (auto simp: mt_enqueue_def mt_doWrite_def Let_def split: if_splits)
  moreover have "mt.wq_inv (t', out @ ws, wire)" if "mt.wq_inv (t, out, wire)" for out wire
    using mt.wq_step_refines [OF that, of "Enqueue (m3ua_encode m)"] e(1) by simp
  ultimately show ?thesis using e(2) by (simp add: mt_enqs_def)
qed

text \<open>
  The data of a heartbeat that was received is short enough to be echoed: it was part of a message of
  at most 65536 octets.
\<close>

lemma throw_Inr_iff: "(if c then Inl e else r) = Inr x \<longleftrightarrow> \<not> c \<and> r = Inr x"
  by simp

lemma m3ua_tlv_heartbeat:
  "m3ua_tlv tag v m = Inr m' \<Longrightarrow> mu_heartbeatData m' = v \<or> mu_heartbeatData m' = mu_heartbeatData m"
  by (auto simp: m3ua_tlv_def rbind_Inr_iff split: if_splits)

lemma m3ua_tlvs_heartbeat:
  "m3ua_tlvs n r m = Inr m' \<Longrightarrow> 8 \<le> rd_pos r \<Longrightarrow> n \<le> 65536 \<Longrightarrow> length (mu_heartbeatData m) \<le> 65524 \<Longrightarrow>
     length (mu_heartbeatData m') \<le> 65524"
proof (induction n r m rule: m3ua_tlvs.induct)
  case (1 n r m)
  show ?case
  proof (cases "rd_pos r + 4 \<le> n")
    case True
    then obtain tag r1 len r2 v r3 x r4 m1 where st: "rd_readBE16 r = Inr (tag, r1)" "rd_readBE16 r1 = Inr (len, r2)" "\<not> len < 4"
      "\<not> rd_pos r2 + (unat len - 4) > n" "rd_readBytes r2 (unat len - 4) = Inr (v, r3)"
      "(if m3ua_pad (unat len - 4) > 0 \<and> rd_pos r3 + m3ua_pad (unat len - 4) \<le> n
        then rd_readBytes r3 (m3ua_pad (unat len - 4)) else Inr ([], r3)) = Inr (x, r4)"
      "m3ua_tlv tag v m = Inr m1" "m3ua_tlvs n r4 m1 = Inr m'"
      using "1.prems"(1) unfolding m3ua_tlvs.simps [of n r m] if_P [OF True]
      by (fastforce simp: Let_def rbind_Inr_iff throw_Inr_iff split del: if_split)
    have pos: "rd_pos r2 = rd_pos r + 4" using rd_readBE16_pos [OF st(1)] rd_readBE16_pos [OF st(2)] by simp
    have v: "length v = unat len - 4" "rd_pos r2 \<le> rd_pos r3" "rd_pos r3 \<le> rd_pos r4"
      using st(5,6) by (auto simp: rd_readBytes_ok split: if_splits)
    have "length v \<le> 65524" using st(4) v(1) pos "1.prems"(2,3) by simp
    then have "length (mu_heartbeatData m1) \<le> 65524" using m3ua_tlv_heartbeat [OF st(7)] "1.prems"(4) by auto
    then show ?thesis
      using "1.IH" [OF True st(1) refl st(2) refl st(3) refl st(4,5) refl st(6) refl st(7,8)] "1.prems"(2,3) pos v(2,3) by simp
  next
    case False
    then show ?thesis using "1.prems" by (simp add: m3ua_tlvs.simps [of n r m])
  qed
qed

lemma m3ua_decode_heartbeat:
  "m3ua_decode bs = Inr (Some m) \<Longrightarrow> length bs \<le> 65536 \<Longrightarrow> length (mu_heartbeatData m) \<le> 65524"
  by (auto simp: m3ua_decode_def rbind_Inr_iff rd_new_def rd_checked rd_check_def dest!: m3ua_tlvs_heartbeat split: if_splits)

lemma m3ua_next_heartbeat: "m3ua_next d = (Inr (Some m), d') \<Longrightarrow> length (mu_heartbeatData m) \<le> 65524"
  by (auto simp: m3ua_next_eq Let_def wire_consts word_less_nat_alt elim!: m3ua_decode_heartbeat split: if_splits)

text \<open>A message that is no DATA message and that the gateway can decode.\<close>

definition control :: "M3uaMessage \<Rightarrow> bool" where
  "control m \<longleftrightarrow> mu_msgClass m \<noteq> kClassTransf \<and> mu_good m"

lemma pad_bound:
  assumes "n \<le> 4 * k"
  shows "n + m3ua_pad n \<le> 4 * k"
proof -
  define q r where "q = n div 4" and "r = n mod 4"
  have n: "n = 4 * q + r" and r: "r < 4" by (simp_all add: q_def r_def)
  have pad: "m3ua_pad n = (4 - r) mod 4" by (simp add: m3ua_pad_def r_def)
  consider "r = 0" | "r = 1" | "r = 2" | "r = 3" using r by linarith
  then have "4 * q + r + (4 - r) mod 4 \<le> 4 * k" using assms unfolding n by cases (simp_all, presburger+)
  then show ?thesis using n pad by simp
qed

lemma control_makers:
  "control makeAspUp" "control (makeAspAc rc)" "control (makeHeartbeat [])"
  by (simp_all add: control_def makeAspUp_def makeAspAc_def makeHeartbeat_def mu_good_def m3ua_encode_bytes mu_body_def mu_tlv_def
      m3ua_pad_def Let_def be32_def wire_consts split: option.split)

lemma control_heartbeatAck: "length d \<le> 65524 \<Longrightarrow> control (makeHeartbeatAck d)"
  using pad_bound [of "length d" 16381]
  by (simp add: control_def makeHeartbeatAck_def mu_good_def m3ua_encode_bytes mu_body_def mu_tlv_def Let_def wire_consts)

definition mt_controls :: "TransportAct list \<Rightarrow> MapTransport \<Rightarrow> MapTransport \<Rightarrow> bool" where
  "mt_controls acts t t' \<longleftrightarrow> (\<exists>ms. list_all control ms \<and> mt_enqs (map m3ua_encode ms) acts t t')"

lemma mt_controls_silent:
  "mt_writeQueue t' = mt_writeQueue t \<Longrightarrow> mt_writing t' = mt_writing t \<Longrightarrow> mt_cfg t' = mt_cfg t \<Longrightarrow> mt_writes_of acts = [] \<Longrightarrow>
     mt_controls acts t t'"
  using mt_enqs_silent [of t' t acts] by (auto simp: mt_controls_def intro: exI [of _ "[]"])

lemma mt_controls_trans:
  assumes "mt_controls a t t1" and "mt_controls b t1 t'"
  shows "mt_controls (a @ b) t t'"
proof -
  obtain ms ms' where "list_all control (ms @ ms')" "mt_enqs (map m3ua_encode ms) a t t1" "mt_enqs (map m3ua_encode ms') b t1 t'"
    using assms by (auto simp: mt_controls_def)
  then show ?thesis using mt_enqs_trans by (auto simp: mt_controls_def intro!: exI [of _ "ms @ ms'"])
qed

lemma mt_controls_sendRaw: "sendRaw m t = Inr (acts, t') \<Longrightarrow> control m \<Longrightarrow> mt_controls acts t t'"
  using mt_enqs_sendRaw [of m t acts t'] by (auto simp: mt_controls_def intro!: exI [of _ "[m]"])

lemma mt_controls_processMessage:
  "processMessage m t = Inr (acts, t') \<Longrightarrow> length (mu_heartbeatData m) \<le> 65524 \<Longrightarrow> mt_controls acts t t'"
  by (auto simp: processMessage_def sendAspAc_def startBeat_def try_catch_def control_makers control_heartbeatAck
      intro!: mt_controls_silent elim!: mt_controls_sendRaw split: if_splits option.splits sum.splits)

lemma mt_controls_readLoop: "mt_readLoop t = Inr (acts, t') \<Longrightarrow> mt_controls acts t t'"
proof (induction t arbitrary: acts rule: mt_readLoop.induct)
  case (1 t)
  obtain r d where nx: "m3ua_next (mt_decoder t) = (r, d)" by force
  then obtain v where r: "r = Inr v" using 1(2) by (cases r) (simp_all add: mt_readLoop.simps [of t])
  show ?case
  proof (cases v)
    case None
    then show ?thesis using 1(2) nx r by (auto simp: mt_readLoop.simps [of t] intro!: mt_controls_silent)
  next
    case (Some m)
    let ?t = "t\<lparr>mt_decoder := d\<rparr>"
    let ?p = "try_catch is_std_exception (processMessage m ?t) Inr (Inr ([], ?t))"
    obtain a t1 b where p: "?p = Inr (a, t1)" "mt_readLoop t1 = Inr (b, t')" "acts = a @ b"
      using 1(2) nx r Some by (auto simp: mt_readLoop.simps [of t] and_then_Inr_iff)
    have "length (mu_heartbeatData m) \<le> 65524" using m3ua_next_heartbeat nx r Some by blast
    then have "mt_controls a t t1"
      using p(1) mt_controls_processMessage [of m ?t a t1] mt_controls_silent [of ?t t "[]"]
      by (auto simp: try_catch_def mt_controls_def mt_enqs_decoder split: sum.splits if_splits)
    then show ?thesis using 1(1) [OF nx [symmetric] r Some p(1,2)] p(3) mt_controls_trans by blast
  qed
qed

lemma mt_controls_onRead: "mt_onRead False data t = Inr (acts, t') \<Longrightarrow> mt_controls acts t t'"
proof -
  assume "mt_onRead False data t = Inr (acts, t')"
  then obtain a where r: "mt_readLoop (t\<lparr>mt_decoder := m3ua_feed (mt_decoder t) data\<rparr>) = Inr (a, t')"
    "acts = a @ (if mt_state t' \<noteq> TransportStopped \<and> mt_state t' \<noteq> Disconnected then [MtAsyncRead] else [])"
    by (auto simp: mt_onRead_def and_then_Inr_iff)
  have "mt_controls a t t'" using mt_controls_readLoop [OF r(1)] by (simp add: mt_controls_def mt_enqs_decoder)
  moreover have "mt_controls (if mt_state t' \<noteq> TransportStopped \<and> mt_state t' \<noteq> Disconnected then [MtAsyncRead] else []) t' t'"
    by (rule mt_controls_silent) simp_all
  ultimately show ?thesis using mt_controls_trans r(2) by blast
qed

lemma mt_controls_onBeat: "mt_onBeatTimer ec t = Inr (acts, t') \<Longrightarrow> mt_controls acts t t'"
proof -
  assume r: "mt_onBeatTimer ec t = Inr (acts, t')"
  show ?thesis
  proof (cases "\<not> ec \<and> mt_state t = Active")
    case True
    then obtain a where a: "sendRaw (makeHeartbeat []) t = Inr (a, t')" "acts = a @ [MtBeatTimer (cfg_beatInterval (mt_cfg t'))]"
      using r by (auto simp: mt_onBeatTimer_def onBeat_def startBeat_def and_then_Inr_iff)
    have "mt_controls [MtBeatTimer (cfg_beatInterval (mt_cfg t'))] t' t'" by (rule mt_controls_silent) simp_all
    then show ?thesis using mt_controls_trans mt_controls_sendRaw [OF a(1) control_makers(3)] a(2) by blast
  next
    case False
    then show ?thesis using r by (auto simp: mt_onBeatTimer_def onBeat_def intro!: mt_controls_silent split: if_splits)
  qed
qed

section \<open>The connection as a channel\<close>

text \<open>
  The frames written and queued, each with the payload it carries if it is a DATA message; together
  they are the payloads accepted.  At most one write is outstanding, the head of the queue.
\<close>

definition frame_ok :: "MapTransportConfig \<Rightarrow> bytes \<times> bytes option \<Rightarrow> bool" where
  "frame_ok cfg x \<longleftrightarrow> (case x of (f, None) \<Rightarrow> \<exists>m. control m \<and> f = m3ua_encode m | (f, Some pl) \<Rightarrow> f = m3ua_encode (data_for cfg pl))"

definition link_payloads :: "(bytes \<times> bytes option) list \<Rightarrow> bytes list" where
  "link_payloads xs = [pl. (f, Some pl) \<leftarrow> xs]"

lemma link_payloads_simps [simp]:
  "link_payloads [] = []" "link_payloads (xs @ ys) = link_payloads xs @ link_payloads ys"
  "link_payloads [(f, Some pl)] = [pl]" "link_payloads (map (\<lambda>f. (f, None)) fs) = []"
  by (induction fs) (simp_all add: link_payloads_def)

definition link_inv :: "Link \<Rightarrow> bool" where
  "link_inv k \<longleftrightarrow> mt.wq_inv (lk_transport k, lk_out k, lk_wire k) \<and>
     (\<exists>xs. lk_wire k @ mt_writeQueue (lk_transport k) = map fst xs \<and> list_all (frame_ok (mt_cfg (lk_transport k))) xs \<and>
       link_payloads xs = lk_sent k)"

lemma link_inv_enqs:
  assumes inv: "link_inv k" and enq: "mt_enqs (map fst ys) acts (lk_transport k) t'"
    and ys: "list_all (frame_ok (mt_cfg (lk_transport k))) ys"
  shows "link_inv (k\<lparr>lk_transport := t', lk_out := lk_out k @ mt_writes_of acts, lk_sent := lk_sent k @ link_payloads ys\<rparr>)"
proof -
  obtain xs where "lk_wire k @ mt_writeQueue (lk_transport k) = map fst xs" "list_all (frame_ok (mt_cfg (lk_transport k))) xs"
    "link_payloads xs = lk_sent k"
    using inv by (auto simp: link_inv_def)
  then have "lk_wire k @ mt_writeQueue t' = map fst (xs @ ys)" "list_all (frame_ok (mt_cfg t')) (xs @ ys)"
    "link_payloads (xs @ ys) = lk_sent k @ link_payloads ys"
    using enq ys by (auto simp: mt_enqs_def)
  moreover have "mt.wq_inv (t', lk_out k @ mt_writes_of acts, lk_wire k)" using inv enq by (auto simp: link_inv_def mt_enqs_def)
  ultimately show ?thesis unfolding link_inv_def by (auto intro!: exI [of _ "xs @ ys"])
qed

lemma link_inv_controls:
  assumes inv: "link_inv k" and "mt_controls acts (lk_transport k) t'"
  shows "link_inv (k\<lparr>lk_transport := t', lk_out := lk_out k @ mt_writes_of acts\<rparr>)"
proof -
  obtain ms where ms: "list_all control ms" "mt_enqs (map m3ua_encode ms) acts (lk_transport k) t'"
    using assms(2) by (auto simp: mt_controls_def)
  let ?ys = "map (\<lambda>f. (f, None)) (map m3ua_encode ms)"
  have ok: "list_all (frame_ok cfg) ?ys" for cfg using ms(1) by (auto simp: list_all_iff frame_ok_def)
  have enq: "mt_enqs (map fst ?ys) acts (lk_transport k) t'" using ms(2) by (simp add: o_def)
  from link_inv_enqs [OF inv enq ok] show ?thesis unfolding link_payloads_simps(4) by simp
qed

lemma link_inv_written:
  assumes inv: "link_inv k" and ev: "link_event (MtWriteCompletes False) k = Inr k'"
  shows "link_inv k'"
proof (cases "lk_out k")
  case (Cons b bs)
  let ?c = "(lk_transport k, b # bs, lk_wire k)"
  have wq: "mt.wq_inv ?c" using inv Cons by (simp add: link_inv_def)
  obtain c where c: "mt.wq_step WriteDone ?c = Inr c" "mt.wq_inv c" "mt.wq_abs c = mt.fifo WriteDone (mt.wq_abs ?c)"
    using mt.wq_step_refines [OF wq] by blast
  obtain acts t' where r: "mt_written (lk_transport k) = Inr (acts, t')"
    "k' = k\<lparr>lk_transport := t', lk_out := bs @ acts, lk_wire := lk_wire k @ [b]\<rparr>"
    using ev Cons by (auto simp: mt_onWrite_def rbind_Inr_iff)
  have t': "mt_cfg t' = mt_cfg (lk_transport k)"
    using r(1) by (auto simp: mt_written_def mt_doWrite_def rbind_Inr_iff split: if_splits)
  have q: "mt_writeQueue (lk_transport k) = b # mt_writeQueue t'"
    using c(1,3) r(1) wq by (cases "mt_writeQueue (lk_transport k)") (auto simp: mt.wq_abs_def mt.wq_inv_def)
  have "c = (t', bs @ acts, lk_wire k @ [b])" using c(1) r(1) by simp
  then show ?thesis using inv c(2) r(2) t' q by (auto simp: link_inv_def)
qed (use assms in simp)

lemma link_event_other:
  assumes "link_event ev k = Inr k'" and "\<nexists>ec. ev = MtWriteCompletes ec"
  obtains acts t' where "transport_event ev (lk_transport k) = Inr (acts, t')"
    "k' = k\<lparr>lk_transport := t', lk_out := lk_out k @ mt_writes_of acts, lk_sent := lk_sent k @ accepted ev (lk_transport k)\<rparr>"
proof -
  have "rbind (transport_event ev (lk_transport k)) (\<lambda>(acts, t). Inr (k\<lparr>lk_transport := t, lk_out := lk_out k @ mt_writes_of acts,
      lk_sent := lk_sent k @ accepted ev (lk_transport k)\<rparr>)) = Inr k'"
    using assms by (cases ev) simp_all
  then show ?thesis using that by (auto simp: rbind_Inr_iff simp del: transport_event.simps)
qed

lemma link_event_cfg: "link_event (MtWriteCompletes False) k = Inr k' \<Longrightarrow> mt_cfg (lk_transport k') = mt_cfg (lk_transport k)"
  by (cases "lk_out k") (auto simp: rbind_Inr_iff mt_onWrite_def mt_written_def mt_doWrite_def split: if_splits)

lemma link_inv_event:
  assumes "link_inv k" and "stays_up ev" and "link_event ev k = Inr k'"
  shows "link_inv k' \<and> mt_cfg (lk_transport k') = mt_cfg (lk_transport k)"
proof -
  let ?t = "lk_transport k"
  have ctl: "link_inv k' \<and> mt_cfg (lk_transport k') = mt_cfg ?t"
    if "k' = k\<lparr>lk_transport := t', lk_out := lk_out k @ mt_writes_of acts\<rparr>" "mt_controls acts ?t t'" for acts t'
    using that link_inv_controls [OF assms(1) that(2)] by (auto simp: mt_controls_def mt_enqs_def)
  consider (read) data where "ev = MtReadCompletes False data" | (wrote) "ev = MtWriteCompletes False"
    | (beat) ec where "ev = BeatExpires ec" | (send) pl where "ev = SendMap pl"
    using assms(2) by (cases ev) auto
  then show ?thesis
  proof cases
    case (read data)
    then obtain acts t' where "mt_onRead False data ?t = Inr (acts, t')" "k' = k\<lparr>lk_transport := t', lk_out := lk_out k @ mt_writes_of acts\<rparr>"
      using link_event_other [OF assms(3)] by (auto simp: accepted_def)
    then show ?thesis using ctl mt_controls_onRead by blast
  next
    case wrote
    then show ?thesis using link_inv_written link_event_cfg assms(1,3) by blast
  next
    case (beat ec)
    then obtain acts t' where "mt_onBeatTimer ec ?t = Inr (acts, t')" "k' = k\<lparr>lk_transport := t', lk_out := lk_out k @ mt_writes_of acts\<rparr>"
      using link_event_other [OF assms(3)] by (auto simp: accepted_def)
    then show ?thesis using ctl mt_controls_onBeat by blast
  next
    case (send pl)
    then obtain acts t' where r: "mt_send pl ?t = Inr (acts, t')"
      "k' = k\<lparr>lk_transport := t', lk_out := lk_out k @ mt_writes_of acts, lk_sent := lk_sent k @ accepted ev ?t\<rparr>"
      using link_event_other [OF assms(3)] by auto
    show ?thesis
    proof (cases "mt_state ?t = Active")
      case True
      let ?f = "m3ua_encode (data_for (mt_cfg ?t) pl)"
      have e: "mt_enqs [?f] acts ?t t'" using r(1) mt_enqs_sendRaw mt_send_active [OF True] by simp
      have "list_all (frame_ok (mt_cfg ?t)) [(?f, Some pl)]" by (simp add: frame_ok_def)
      then show ?thesis
        using link_inv_enqs [OF assms(1), of "[(?f, Some pl)]" acts t'] e r(2) send True by (simp add: accepted_def mt_enqs_def)
    next
      case False
      then show ?thesis using r send ctl [of "[]" ?t] mt_controls_silent by (simp add: mt_send_def accepted_def)
    qed
  qed
qed

lemma link_inv_run:
  "foldM link_event evs k = Inr k' \<Longrightarrow> list_all stays_up evs \<Longrightarrow> link_inv k \<Longrightarrow>
     link_inv k' \<and> mt_cfg (lk_transport k') = mt_cfg (lk_transport k)"
proof (induction evs arbitrary: k)
  case (Cons ev evs)
  then obtain k1 where k1: "link_event ev k = Inr k1" "foldM link_event evs k1 = Inr k'" by (auto simp: rbind_Inr_iff)
  have "link_inv k1 \<and> mt_cfg (lk_transport k1) = mt_cfg (lk_transport k)" using link_inv_event [OF Cons.prems(3) _ k1(1)] Cons.prems(2) by simp
  then show ?case using Cons.IH [OF k1(2)] Cons.prems(2) by simp
qed simp

text \<open>A connection that has just been established.\<close>

definition link_up :: "MapTransport \<Rightarrow> Link result" where
  "link_up t = rbind (transport_event (ConnectCompletes False) t) (\<lambda>(acts, t').
     Inr \<lparr>lk_transport = t', lk_out = mt_writes_of acts, lk_wire = [], lk_sent = []\<rparr>)"

lemma link_inv_up:
  assumes "link_up t = Inr k" and "mt_writeQueue t = []" and "\<not> mt_writing t"
  shows "link_inv k" "mt_cfg (lk_transport k) = mt_cfg t" "lk_sent k = []"
proof -
  let ?t = "t\<lparr>mt_state := AspUp\<rparr>"
  obtain a t' where r: "sendRaw makeAspUp ?t = Inr (a, t')"
    "k = \<lparr>lk_transport = t', lk_out = mt_writes_of a, lk_wire = [], lk_sent = []\<rparr>"
    using assms(1) by (auto simp: link_up_def mt_onConnect_def sendAspUp_def rbind_Inr_iff and_then_Inr_iff)
      (auto simp: mt_writes_of_def)
  let ?k = "\<lparr>lk_transport = ?t, lk_out = [], lk_wire = [], lk_sent = []\<rparr>"
  have "link_inv ?k" using assms(2,3) by (simp add: link_inv_def mt.wq_inv_def)
  moreover have ctl: "mt_controls a ?t t'" using mt_controls_sendRaw [OF r(1) control_makers(1)] .
  ultimately show "link_inv k" using link_inv_controls [of ?k a t'] r(2) by simp
  show "mt_cfg (lk_transport k) = mt_cfg t" "lk_sent k = []" using ctl r(2) by (auto simp: mt_controls_def mt_enqs_def)
qed

section \<open>Properties\<close>

text \<open>What the gateway decodes from the frames of a connection: the payloads of its DATA messages.\<close>

definition gateway_payloads :: "bytes list \<Rightarrow> bytes list" where
  "gateway_payloads fs = concat (map (\<lambda>f. case m3ua_decode f of Inr (Some m) \<Rightarrow> map_of_msg m | _ \<Rightarrow> []) fs)"

lemma gateway_payloads_frames:
  assumes "list_all (frame_ok cfg) xs" and "sends_digits cfg" and "list_all (\<lambda>pl. length pl \<le> 255) (link_payloads xs)"
  shows "gateway_payloads (map fst xs) = link_payloads xs"
  using assms(1,3)
proof (induction xs)
  case (Cons x xs)
  have "gateway_payloads [fst x] = link_payloads [x]"
  proof (cases x)
    case (Pair f v)
    show ?thesis
    proof (cases v)
      case None
      then obtain m where m: "control m" "f = m3ua_encode m" using Cons.prems(1) Pair by (auto simp: frame_ok_def)
      have "mu_good m" "sccp_of m = None" using m(1) by (auto simp: control_def sccp_of_def mu_is_def)
      then show ?thesis
        using m3ua_decode_bytes [of m] m(2) Pair None by (simp add: gateway_payloads_def map_of_msg_def link_payloads_def)
    next
      case (Some pl)
      then have len: "length pl \<le> 255" and f: "f = m3ua_encode (data_for cfg pl)"
        using Cons.prems Pair by (simp_all add: link_payloads_def frame_ok_def)
      have "sccp_of (data_for cfg pl) = Some (encodeUdt (udt_for cfg pl))"
        by (simp add: sccp_of_def mu_is_def data_for_def makeData_def)
      then have "map_of_msg (data_for cfg pl) = [pl]"
        using udt_for_decodes [OF assms(2) len] by (simp add: map_of_msg_def udt_for_def)
      then show ?thesis
        using m3ua_decode_bytes [OF data_for_good [OF assms(2) len]] Pair Some f by (simp add: gateway_payloads_def link_payloads_def)
    qed
  qed
  moreover have "gateway_payloads (map fst xs) = link_payloads xs" using Cons by (auto simp: link_payloads_def split: prod.splits option.splits)
  moreover have "link_payloads (x # xs) = link_payloads [x] @ link_payloads xs" by (simp add: link_payloads_def)
  ultimately show ?case by (simp add: gateway_payloads_def)
qed (simp add: gateway_payloads_def)

text \<open>
  C21: The connection to the gateway is a FIFO channel, for payloads of at most 255 octets and with
  global titles of at most 100 decimal digits in the configuration, so that they stay within the limits
  of the SCCP encoder.  From the moment a connection is established,
  whatever messages arrive, timers expire, writes complete and payloads are sent, as long as the
  connection stays up, at most one write is outstanding, the first frame of the queue, and the MAP
  payloads that a gateway decodes from the frames written, followed by those still queued, are
  exactly the payloads passed to \<open>send\<close> in the active state, in order: control messages and heartbeats
  interleave with them, but none is lost, duplicated or reordered.
\<close>

theorem transport_fifo:
  assumes "mt_writeQueue t = []" and "\<not> mt_writing t" and "link_up t = Inr k"
    and "list_all stays_up evs" and "foldM link_event evs k = Inr k'"
    and "sends_digits (mt_cfg t)" and "list_all (\<lambda>pl. length pl \<le> 255) (lk_sent k')"
  shows "lk_out k' = take 1 (mt_writeQueue (lk_transport k')) \<and>
    gateway_payloads (lk_wire k') @ gateway_payloads (mt_writeQueue (lk_transport k')) = lk_sent k'"
proof -
  note up = link_inv_up [OF assms(3,1,2)]
  have inv: "link_inv k'" "mt_cfg (lk_transport k') = mt_cfg t" using link_inv_run [OF assms(5,4) up(1)] up(2) by auto
  then obtain xs where xs: "lk_wire k' @ mt_writeQueue (lk_transport k') = map fst xs" "list_all (frame_ok (mt_cfg t)) xs"
    "link_payloads xs = lk_sent k'"
    by (auto simp: link_inv_def)
  have "gateway_payloads (lk_wire k' @ mt_writeQueue (lk_transport k')) = lk_sent k'"
    unfolding xs(1) using gateway_payloads_frames [OF xs(2) assms(6)] xs(3) assms(7) by simp
  then show ?thesis using inv(1) by (simp add: gateway_payloads_def link_inv_def mt.wq_inv_def)
qed

text \<open>The concrete connection of the witness: the gateway acknowledges, then a payload is sent.\<close>

definition demo_link_events :: "TransportEvent list" where
  "demo_link_events = [MtReadCompletes False (m3ua_encode (demo_ack 3)), MtWriteCompletes False,
     MtReadCompletes False (m3ua_encode (demo_ack 4)), SendMap [1, 2], MtWriteCompletes False, BeatExpires False, SendMap [3]]"

theorem transport_fifo_witness:
  "\<exists>k k'. link_up (mt_new demo_cfg) = Inr k \<and> foldM link_event demo_link_events k = Inr k' \<and> lk_sent k' = [[1, 2], [3]] \<and>
     gateway_payloads (lk_wire k') @ gateway_payloads (mt_writeQueue (lk_transport k')) = [[1, 2], [3]]"
proof -
  have "rbind (rbind (link_up (mt_new demo_cfg)) (foldM link_event demo_link_events)) (\<lambda>k. Inr (lk_sent k)) = Inr [[1, 2], [3]]"
    by code_simp
  then obtain k k' where r: "link_up (mt_new demo_cfg) = Inr k" "foldM link_event demo_link_events k = Inr k'" "lk_sent k' = [[1, 2], [3]]"
    by (auto simp: rbind_Inr_iff)
  have new: "mt_writeQueue (mt_new demo_cfg) = []" "\<not> mt_writing (mt_new demo_cfg)" "sends_digits (mt_cfg (mt_new demo_cfg))"
    "list_all stays_up demo_link_events" "list_all (\<lambda>pl. length pl \<le> 255) (lk_sent k')"
    using demo_facts(1) r(3) by (simp_all add: mt_new_def demo_link_events_def)
  from transport_fifo [OF new(1,2) r(1) new(4) r(2) new(3,5)] show ?thesis using r by auto
qed

end
