(* ===== verification/Outstanding.thy ===== *)
theory Outstanding
  imports Prelude
begin

text \<open>
  Handlers and the operations they wait for.  asio runs a completion handler only for an operation
  that was started, once for each; a handler may start further operations.  A configuration is the
  state of a component together with its outstanding operations.  \<open>takes\<close> gives the ways in which an
  event can complete one of them, none if the event cannot happen, and \<open>starts\<close> what an effect of a
  handler adds to them.
\<close>

section \<open>Runs\<close>

inductive async_run :: "('e \<Rightarrow> 's \<Rightarrow> ('a list \<times> 's) result) \<Rightarrow> ('e \<Rightarrow> 'o \<Rightarrow> 'o list) \<Rightarrow> ('a \<Rightarrow> 'o \<Rightarrow> 'o) \<Rightarrow>
    's \<times> 'o \<Rightarrow> 'e list \<Rightarrow> 's \<times> 'o \<Rightarrow> bool" for handler takes starts where
  async_nil: "async_run handler takes starts c [] c"
| async_step: "async_run handler takes starts c evs (s, os) \<Longrightarrow> os1 \<in> set (takes ev os) \<Longrightarrow> handler ev s = Inr (acts, s') \<Longrightarrow>
    async_run handler takes starts c (evs @ [ev]) (s', fold starts acts os1)"

lemma async_single:
  assumes "os1 \<in> set (takes ev os)" and "handler ev s = Inr (acts, s')"
  shows "async_run handler takes starts (s, os) [ev] (s', fold starts acts os1)"
proof -
  have "async_run handler takes starts (s, os) ([] @ [ev]) (s', fold starts acts os1)"
    using assms by (rule async_step [OF async_nil])
  then show ?thesis by simp
qed

lemma async_trans:
  assumes "async_run handler takes starts c evs c1" and "async_run handler takes starts c1 evs' c2"
  shows "async_run handler takes starts c (evs @ evs') c2"
  using assms(2,1)
proof (induction rule: async_run.induct)
  case (async_step c1 evs' s os os1 ev acts s')
  then show ?case using async_run.async_step [of handler takes starts c "evs @ evs'"] by simp
qed simp

section \<open>Invariants\<close>

text \<open>A property of the events so far, the state and the outstanding operations that every event keeps.\<close>

locale async_invariant =
  fixes handler :: "'e \<Rightarrow> 's \<Rightarrow> ('a list \<times> 's) result"
    and takes :: "'e \<Rightarrow> 'o \<Rightarrow> 'o list"
    and starts :: "'a \<Rightarrow> 'o \<Rightarrow> 'o"
    and inv :: "'e list \<Rightarrow> 's \<Rightarrow> 'o \<Rightarrow> bool"
  assumes inv_step: "inv past s os \<Longrightarrow> os1 \<in> set (takes ev os) \<Longrightarrow> handler ev s = Inr (acts, s') \<Longrightarrow>
    inv (past @ [ev]) s' (fold starts acts os1)"
begin

lemma inv_async:
  assumes "async_run handler takes starts c evs c'" and "c = (s0, os0)" and "inv past s0 os0"
  shows "inv (past @ evs) (fst c') (snd c')"
  using assms
proof (induction rule: async_run.induct)
  case (async_step c evs s os os1 ev acts s')
  then show ?case using inv_step [of "past @ evs"] by simp
qed simp

lemma inv_reachable: "async_run handler takes starts (s0, os0) evs (s, os) \<Longrightarrow> inv [] s0 os0 \<Longrightarrow> inv evs s os"
  using inv_async [of "(s0, os0)" evs "(s, os)" s0 os0 "[]"] by simp

end

end
