(* ===== verification/TransportOps.thy ===== *)
theory TransportOps
  imports TransportRuns Outstanding
begin

text \<open>
  The transport with its outstanding operations: reads, writes, connects, posted functions and
  the waits of its two timers.  \<open>expires_after\<close> and \<open>cancel\<close> end the waits of a timer; their handlers
  still run, with an error, or without one if the timer had expired before.  Closing the socket does
  not remove operations either: they complete with an error, or as they had completed before.
\<close>

section \<open>Outstanding operations\<close>

record TransportOps =
  to_timer :: bool
  to_lateTimers :: nat
  to_beat :: bool
  to_lateBeats :: nat
  to_connects :: nat
  to_posted :: nat
  to_reads :: nat
  to_writes :: nat

definition mt_noOps :: TransportOps where
  "mt_noOps = \<lparr>to_timer = False, to_lateTimers = 0, to_beat = False, to_lateBeats = 0, to_connects = 0, to_posted = 0, to_reads = 0, to_writes = 0\<rparr>"

fun mt_starts :: "TransportAct \<Rightarrow> TransportOps \<Rightarrow> TransportOps" where
  "mt_starts (MtAsyncWrite b) os = os\<lparr>to_writes := Suc (to_writes os)\<rparr>"
| "mt_starts MtAsyncRead os = os\<lparr>to_reads := Suc (to_reads os)\<rparr>"
| "mt_starts MtAsyncConnect os = os\<lparr>to_connects := Suc (to_connects os)\<rparr>"
| "mt_starts MtPostOnConnectError os = os\<lparr>to_posted := Suc (to_posted os)\<rparr>"
| "mt_starts (MtReconnectTimer n) os = os\<lparr>to_lateTimers := to_lateTimers os + of_bool (to_timer os), to_timer := True\<rparr>"
| "mt_starts MtCancelReconnect os = os\<lparr>to_lateTimers := to_lateTimers os + of_bool (to_timer os), to_timer := False\<rparr>"
| "mt_starts (MtBeatTimer n) os = os\<lparr>to_lateBeats := to_lateBeats os + of_bool (to_beat os), to_beat := True\<rparr>"
| "mt_starts MtCancelBeat os = os\<lparr>to_lateBeats := to_lateBeats os + of_bool (to_beat os), to_beat := False\<rparr>"
| "mt_starts _ os = os"

text \<open>\<open>stop\<close> is not called by the program.\<close>

fun mt_takes :: "TransportEvent \<Rightarrow> TransportOps \<Rightarrow> TransportOps list" where
  "mt_takes (TimerExpires ec resolved opened) os =
     (if to_timer os \<and> \<not> ec then [os\<lparr>to_timer := False\<rparr>] else []) @
     (if to_lateTimers os > 0 then [os\<lparr>to_lateTimers := to_lateTimers os - 1\<rparr>] else [])"
| "mt_takes (BeatExpires ec) os =
     (if to_beat os \<and> \<not> ec then [os\<lparr>to_beat := False\<rparr>] else []) @
     (if to_lateBeats os > 0 then [os\<lparr>to_lateBeats := to_lateBeats os - 1\<rparr>] else [])"
| "mt_takes (ConnectCompletes ec) os =
     (if to_connects os > 0 then [os\<lparr>to_connects := to_connects os - 1\<rparr>] else []) @
     (if ec \<and> to_posted os > 0 then [os\<lparr>to_posted := to_posted os - 1\<rparr>] else [])"
| "mt_takes (MtReadCompletes ec data) os = (if to_reads os > 0 then [os\<lparr>to_reads := to_reads os - 1\<rparr>] else [])"
| "mt_takes (MtWriteCompletes ec) os = (if to_writes os > 0 then [os\<lparr>to_writes := to_writes os - 1\<rparr>] else [])"
| "mt_takes (SendMap pl) os = [os]"
| "mt_takes StopTransport os = []"

abbreviation mt_async :: "MapTransport \<times> TransportOps \<Rightarrow> TransportEvent list \<Rightarrow> MapTransport \<times> TransportOps \<Rightarrow> bool" where
  "mt_async \<equiv> async_run transport_event mt_takes mt_starts"

text \<open>The configuration after \<open>start\<close>.\<close>

definition mt_started :: "MapTransportConfig \<Rightarrow> MapTransport \<times> TransportOps" where
  "mt_started cfg = (mt_new cfg, mt_noOps\<lparr>to_timer := True\<rparr>)"

lemma mt_started_start: "mt_start (mt_new cfg) = Inr (acts, t) \<Longrightarrow> (t, fold mt_starts acts mt_noOps) = mt_started cfg"
  by (auto simp: mt_start_def scheduleConnect_def mt_new_def mt_started_def mt_noOps_def)

section \<open>The connection is always being worked on\<close>

text \<open>
  The invariant.  A disconnected transport waits for its reconnect timer; in every other state some
  operation is outstanding whose handler goes on with the connection; an active transport has its
  beat timer armed; and while \<open>writing_\<close> is set a write is outstanding, so that the queue is served.
\<close>

definition mt_progress :: "TransportOps \<Rightarrow> bool" where
  "mt_progress os \<longleftrightarrow> to_timer os \<or> to_connects os > 0 \<or> to_posted os > 0 \<or> to_reads os > 0"

definition mt_steady :: "MapTransport \<Rightarrow> TransportOps \<Rightarrow> bool" where
  "mt_steady t os \<longleftrightarrow>
     mt_state t \<noteq> TransportStopped \<and> (mt_state t = Disconnected \<longrightarrow> to_timer os) \<and>
     (mt_state t = Active \<longrightarrow> to_beat os) \<and> (mt_writing t \<longrightarrow> to_writes os > 0)"

definition mt_alive :: "MapTransport \<Rightarrow> TransportOps \<Rightarrow> bool" where
  "mt_alive t os \<longleftrightarrow> mt_steady t os \<and> mt_progress os"

lemma mt_steadyI:
  "mt_state t \<noteq> TransportStopped \<Longrightarrow> (mt_state t = Disconnected \<Longrightarrow> to_timer os) \<Longrightarrow> (mt_state t = Active \<Longrightarrow> to_beat os) \<Longrightarrow>
     (mt_writing t \<Longrightarrow> to_writes os > 0) \<Longrightarrow> mt_steady t os"
  by (simp add: mt_steady_def)

text \<open>What a handler does that only sends, arms the beat timer and passes payloads on.\<close>

fun mt_plain :: "TransportAct \<Rightarrow> bool" where
  "mt_plain (MtAsyncWrite b) = True"
| "mt_plain (MtBeatTimer n) = True"
| "mt_plain (MtMessageCb pl) = True"
| "mt_plain _ = False"

definition mt_keeps :: "TransportAct list \<Rightarrow> MapTransport \<Rightarrow> MapTransport \<Rightarrow> bool" where
  "mt_keeps acts t t' \<longleftrightarrow> list_all mt_plain acts \<and>
     (mt_state t' = mt_state t \<or> mt_state t' = Active \<and> (\<exists>n. MtBeatTimer n \<in> set acts)) \<and>
     (mt_writing t' \<longrightarrow> mt_writing t \<or> (\<exists>b. MtAsyncWrite b \<in> set acts))"

lemma mt_keeps_silent: "mt_state t' = mt_state t \<Longrightarrow> mt_writing t' = mt_writing t \<Longrightarrow> mt_keeps [] t t'"
  by (simp add: mt_keeps_def)

lemma mt_keeps_trans: "mt_keeps a t t1 \<Longrightarrow> mt_keeps b t1 t' \<Longrightarrow> mt_keeps (a @ b) t t'"
  by (auto simp: mt_keeps_def)

lemma mt_keeps_sendRaw: "sendRaw m t = Inr (acts, t') \<Longrightarrow> mt_keeps acts t t'"
  by (auto simp: sendRaw_def mt_enqueue_def mt_doWrite_def mt_keeps_def Let_def split: if_splits)

lemma mt_keeps_processMessage: "processMessage m t = Inr (acts, t') \<Longrightarrow> mt_keeps acts t t'"
  by (auto simp: processMessage_def sendAspAc_def startBeat_def try_catch_def mt_keeps_def dest!: mt_keeps_sendRaw
      split: if_splits option.splits sum.splits)

lemma mt_keeps_readLoop: "mt_readLoop t = Inr (acts, t') \<Longrightarrow> mt_keeps acts t t'"
proof (induction t arbitrary: acts rule: mt_readLoop.induct)
  case (1 t)
  obtain r d where nx: "m3ua_next (mt_decoder t) = (r, d)" by force
  then obtain v where r: "r = Inr v" using 1(2) by (cases r) (simp_all add: mt_readLoop.simps [of t])
  show ?case
  proof (cases v)
    case None
    then show ?thesis using 1(2) nx r by (auto simp: mt_readLoop.simps [of t] intro!: mt_keeps_silent)
  next
    case (Some m)
    let ?t = "t\<lparr>mt_decoder := d\<rparr>"
    let ?p = "try_catch is_std_exception (processMessage m ?t) Inr (Inr ([], ?t))"
    obtain a t1 b where p: "?p = Inr (a, t1)" "mt_readLoop t1 = Inr (b, t')" "acts = a @ b"
      using 1(2) nx r Some by (auto simp: mt_readLoop.simps [of t] and_then_Inr_iff)
    have "mt_keeps a ?t t1"
      using p(1) mt_keeps_processMessage [of m ?t a t1] by (auto simp: try_catch_def mt_keeps_silent split: sum.splits if_splits)
    then have "mt_keeps a t t1" by (simp add: mt_keeps_def)
    then show ?thesis using 1(1) [OF nx [symmetric] r Some p(1,2)] p(3) mt_keeps_trans by blast
  qed
qed

text \<open>Effects of that kind add to the operations.\<close>

lemma plain_starts:
  "list_all mt_plain acts \<Longrightarrow> to_timer (fold mt_starts acts os) = to_timer os \<and> to_connects (fold mt_starts acts os) = to_connects os \<and>
     to_posted (fold mt_starts acts os) = to_posted os \<and> to_reads (fold mt_starts acts os) = to_reads os \<and>
     to_writes os \<le> to_writes (fold mt_starts acts os) \<and> (to_beat os \<longrightarrow> to_beat (fold mt_starts acts os)) \<and>
     (\<forall>n. MtBeatTimer n \<in> set acts \<longrightarrow> to_beat (fold mt_starts acts os)) \<and>
     (\<forall>b. MtAsyncWrite b \<in> set acts \<longrightarrow> to_writes (fold mt_starts acts os) > 0)"
proof (induction acts arbitrary: os)
  case (Cons a acts)
  then have IH: "list_all mt_plain acts" "mt_plain a" by simp_all
  show ?case using Cons.IH [OF IH(1), of "mt_starts a os"] IH(2) by (cases a) auto
qed simp

lemma keeps_steady:
  assumes k: "mt_keeps acts t t'" and "mt_state t \<noteq> TransportStopped" and "mt_state t = Disconnected \<Longrightarrow> to_timer os"
    and beat: "mt_state t = Active \<Longrightarrow> to_beat os \<or> (\<exists>n. MtBeatTimer n \<in> set acts)" and writes: "mt_writing t \<Longrightarrow> to_writes os > 0"
  shows "mt_steady t' (fold mt_starts acts os)"
proof -
  have plain: "list_all mt_plain acts" using k by (simp add: mt_keeps_def)
  note p = plain_starts [OF plain, of os]
  have state: "mt_state t' = mt_state t \<or> mt_state t' = Active \<and> (\<exists>n. MtBeatTimer n \<in> set acts)"
    and started: "mt_writing t' \<Longrightarrow> mt_writing t \<or> (\<exists>b. MtAsyncWrite b \<in> set acts)"
    using k by (auto simp: mt_keeps_def)
  show ?thesis
  proof (rule mt_steadyI)
    show "mt_state t' \<noteq> TransportStopped" using state assms(2) by auto
    show "to_timer (fold mt_starts acts os)" if "mt_state t' = Disconnected" using that state assms(3) p by auto
    show "to_beat (fold mt_starts acts os)" if "mt_state t' = Active" using that state beat p by metis
    show "to_writes (fold mt_starts acts os) > 0" if "mt_writing t'" using started [OF that] writes p by (metis order_less_le_trans)
  qed
qed

lemma keeps_progress: "mt_keeps acts t t' \<Longrightarrow> mt_progress (fold mt_starts acts os) = mt_progress os"
  using plain_starts [of acts os] by (simp add: mt_keeps_def mt_progress_def)

section \<open>Every handler keeps the invariant\<close>

lemma alive_timer:
  assumes alive: "mt_alive t os" and take: "os1 \<in> set (mt_takes (TimerExpires ec resolved opened) os)"
    and r: "mt_onReconnectTimer ec resolved opened t = Inr (acts, t')"
  shows "mt_alive t' (fold mt_starts acts os1)"
proof (cases ec)
  case True
  then have "acts = []" "t' = t" "os1 = os\<lparr>to_lateTimers := to_lateTimers os - 1\<rparr>"
    using take r by (auto simp: mt_onReconnectTimer_def split: if_splits)
  then show ?thesis using alive by (simp add: mt_alive_def mt_steady_def mt_progress_def)
next
  case False
  have "mt_state t \<noteq> TransportStopped" using alive by (simp add: mt_alive_def mt_steady_def)
  then have c: "mt_state t' = Connecting" "mt_writing t' = mt_writing t" "\<exists>a. acts = a @ [MtPostOnConnectError] \<or> acts = a @ [MtAsyncConnect]"
    "to_writes (fold mt_starts acts os1) = to_writes os1"
    using r False by (auto simp: mt_onReconnectTimer_def mt_connect_def Let_def split: if_splits)
  have "to_writes os1 = to_writes os" using take by (auto split: if_splits)
  then have "mt_steady t' (fold mt_starts acts os1)" using c(1,2,4) alive by (simp add: mt_alive_def mt_steady_def)
  moreover have "mt_progress (fold mt_starts acts os1)" using c(3) by (auto simp: mt_progress_def)
  ultimately show ?thesis by (simp add: mt_alive_def)
qed

lemma alive_connect:
  assumes "mt_alive t os" and "os1 \<in> set (mt_takes (ConnectCompletes ec) os)" and "mt_onConnect ec t = Inr (acts, t')"
  shows "mt_alive t' (fold mt_starts acts os1)"
proof (cases ec)
  case False
  then obtain a where a: "sendRaw makeAspUp (t\<lparr>mt_state := AspUp\<rparr>) = Inr (a, t')" "acts = MtAsyncRead # a"
    using assms(3) by (auto simp: mt_onConnect_def sendAspUp_def rbind_Inr_iff)
  note k = mt_keeps_sendRaw [OF a(1)]
  have writes: "to_writes os1 = to_writes os" using assms(2) by (auto split: if_splits)
  have "mt_steady t' (fold mt_starts a (mt_starts MtAsyncRead os1))"
    by (rule keeps_steady [OF k]) (use assms(1) writes in \<open>auto simp: mt_alive_def mt_steady_def\<close>)
  then show ?thesis using a(2) keeps_progress [OF k] by (simp add: mt_alive_def) (simp add: mt_progress_def)
next
  case True
  then show ?thesis
    using assms by (auto simp: mt_onConnect_def scheduleConnect_def resetConnection_def mt_alive_def mt_steady_def mt_progress_def)
qed

text \<open>After an error on the connection nothing of it is left, and the reconnect timer is armed.\<close>

lemma alive_reset:
  assumes "mt_state t' = Disconnected" and "\<not> mt_writing t'"
  shows "mt_alive t' (fold mt_starts (acts @ [MtReconnectTimer n]) os)"
  using assms by (simp add: mt_alive_def mt_steady_def mt_progress_def)

lemma alive_read:
  assumes alive: "mt_alive t os" and take: "os1 \<in> set (mt_takes (MtReadCompletes ec data) os)" and r: "mt_onRead ec data t = Inr (acts, t')"
  shows "mt_alive t' (fold mt_starts acts os1)"
proof (cases ec)
  case True
  have "mt_state t \<noteq> TransportStopped" using alive by (simp add: mt_alive_def mt_steady_def)
  then have "acts = [MtCancelBeat, MtCloseSocket, MtDisconnectCb] @ [MtReconnectTimer 0] \<and> mt_state t' = Disconnected \<and> \<not> mt_writing t'"
    using True r by (auto simp: mt_onRead_def scheduleConnect_def resetConnection_def Let_def)
  then show ?thesis using alive_reset by blast
next
  case False
  then obtain a where a: "mt_readLoop (t\<lparr>mt_decoder := m3ua_feed (mt_decoder t) data\<rparr>) = Inr (a, t')"
    "acts = a @ (if mt_state t' \<noteq> TransportStopped \<and> mt_state t' \<noteq> Disconnected then [MtAsyncRead] else [])"
    using r by (auto simp: mt_onRead_def and_then_Inr_iff)
  have os1: "os1 = os\<lparr>to_reads := to_reads os - 1\<rparr>" using take by (simp split: if_splits)
  have "mt_keeps a t t'" using mt_keeps_readLoop [OF a(1)] by (simp add: mt_keeps_def)
  then have steady: "mt_steady t' (fold mt_starts a os1)"
    by (rule keeps_steady) (use alive in \<open>auto simp: os1 mt_alive_def mt_steady_def\<close>)
  show ?thesis
  proof (cases "mt_state t' = Disconnected")
    case True
    then show ?thesis using steady a(2) by (simp add: mt_alive_def mt_steady_def mt_progress_def)
  next
    case False
    then show ?thesis using steady a(2) by (simp add: mt_alive_def) (simp add: mt_steady_def mt_progress_def)
  qed
qed

lemma alive_write:
  assumes alive: "mt_alive t os" and take: "os1 \<in> set (mt_takes (MtWriteCompletes ec) os)" and r: "mt_onWrite ec t = Inr (acts, t')"
  shows "mt_alive t' (fold mt_starts acts os1)"
proof (cases ec)
  case True
  have "mt_state t \<noteq> TransportStopped" using alive by (simp add: mt_alive_def mt_steady_def)
  then have "acts = [MtCloseSocket, MtDisconnectCb] @ [MtReconnectTimer 0] \<and> mt_state t' = Disconnected \<and> \<not> mt_writing t'"
    using True r by (auto simp: mt_onWrite_def scheduleConnect_def resetConnection_def Let_def)
  then show ?thesis using alive_reset by blast
next
  case False
  have "os1 = os\<lparr>to_writes := to_writes os - 1\<rparr>" using take by (simp split: if_splits)
  then show ?thesis
    using alive r False
    by (auto simp: mt_onWrite_def mt_written_def mt_doWrite_def rbind_Inr_iff mt_alive_def mt_steady_def mt_progress_def split: if_splits)
qed

lemma alive_beat:
  assumes alive: "mt_alive t os" and take: "os1 \<in> set (mt_takes (BeatExpires ec) os)" and r: "mt_onBeatTimer ec t = Inr (acts, t')"
  shows "mt_alive t' (fold mt_starts acts os1)"
proof (cases "\<not> ec \<and> mt_state t = Active")
  case True
  then obtain a where a: "sendRaw (makeHeartbeat []) t = Inr (a, t')" "acts = a @ [MtBeatTimer (cfg_beatInterval (mt_cfg t'))]"
    using r by (auto simp: mt_onBeatTimer_def onBeat_def startBeat_def and_then_Inr_iff)
  have "mt_keeps [MtBeatTimer (cfg_beatInterval (mt_cfg t'))] t' t'" by (simp add: mt_keeps_def)
  then have k: "mt_keeps acts t t'" using mt_keeps_trans [OF mt_keeps_sendRaw [OF a(1)]] a(2) by blast
  have "mt_steady t' (fold mt_starts acts os1)"
    by (rule keeps_steady [OF k]) (use alive take a(2) in \<open>auto simp: mt_alive_def mt_steady_def split: if_splits\<close>)
  moreover have "mt_progress os1" using alive take by (auto simp: mt_alive_def mt_progress_def split: if_splits)
  ultimately show ?thesis using keeps_progress [OF k] by (simp add: mt_alive_def)
next
  case False
  then have "acts = []" "t' = t" using r by (auto simp: mt_onBeatTimer_def onBeat_def split: if_splits)
  then show ?thesis
    using alive take False by (auto simp: mt_alive_def mt_steady_def mt_progress_def split: if_splits)
qed

lemma alive_send:
  assumes alive: "mt_alive t os" and r: "mt_send pl t = Inr (acts, t')"
  shows "mt_alive t' (fold mt_starts acts os)"
proof -
  have k: "mt_keeps acts t t'"
    using r by (auto simp: mt_send_def Let_def dest: mt_keeps_sendRaw intro: mt_keeps_silent split: if_splits)
  have "mt_steady t' (fold mt_starts acts os)" by (rule keeps_steady [OF k]) (use alive in \<open>auto simp: mt_alive_def mt_steady_def\<close>)
  then show ?thesis using alive keeps_progress [OF k] by (simp add: mt_alive_def)
qed

interpretation mt_ops: async_invariant transport_event mt_takes mt_starts "\<lambda>past. mt_alive"
proof
  fix past t os os1 ev acts t'
  assume "mt_alive t os" "os1 \<in> set (mt_takes ev os)" "transport_event ev t = Inr (acts, t')"
  then show "mt_alive t' (fold mt_starts acts os1)"
    by (cases ev) (auto intro: alive_timer alive_connect alive_read alive_write alive_beat alive_send simp del: mt_takes.simps(1-5))
qed

lemma reach_alive: "mt_async (mt_started cfg) evs (t, os) \<Longrightarrow> mt_alive t os"
  using mt_ops.inv_reachable [of "mt_new cfg" "mt_noOps\<lparr>to_timer := True\<rparr>" evs t os]
  by (simp add: mt_started_def mt_alive_def mt_steady_def mt_progress_def mt_new_def)

section \<open>From every state the connection can be established again\<close>

lemmas mt_single = async_single [where handler = transport_event and takes = mt_takes and starts = mt_starts]

lemma recover_fresh:
  assumes "mt_alive t os"
  shows "\<exists>evs t' os'. mt_async (t, os) evs (t', os') \<and> fresh t' \<and> to_timer os' \<and> mt_cfg t' = mt_cfg t"
proof -
  have up: "mt_state t \<noteq> TransportStopped" using assms by (simp add: mt_alive_def mt_steady_def)
  have failed: "\<exists>t' os'. mt_async (s, os) [ConnectCompletes True] (t', os') \<and> fresh t' \<and> to_timer os' \<and> mt_cfg t' = mt_cfg s"
    if "to_connects os > 0 \<or> to_posted os > 0" for s os
  proof -
    let ?t = "(resetConnection s)\<lparr>mt_state := Disconnected\<rparr>"
    have "mt_takes (ConnectCompletes True) os \<noteq> []" using that by auto
    then have take: "hd (mt_takes (ConnectCompletes True) os) \<in> set (mt_takes (ConnectCompletes True) os)" by (rule hd_in_set)
    have "transport_event (ConnectCompletes True) s = Inr ([MtReconnectTimer 0], ?t)" by (simp add: mt_onConnect_def scheduleConnect_def)
    note mt_single [OF take this]
    moreover have "fresh ?t" "mt_cfg ?t = mt_cfg s" by (simp_all add: fresh_def resetConnection_def m3ua_new_def)
    moreover have "to_timer (fold mt_starts [MtReconnectTimer 0] os1)" for os1 by simp
    ultimately show ?thesis by blast
  qed
  consider "to_connects os > 0 \<or> to_posted os > 0" | "to_reads os > 0" | "to_timer os"
    using assms by (auto simp: mt_alive_def mt_progress_def)
  then show ?thesis
  proof cases
    case 1
    then show ?thesis using failed by blast
  next
    case 2
    let ?acts = "[MtCancelBeat, MtCloseSocket, MtDisconnectCb, MtReconnectTimer 0]"
    have take: "os\<lparr>to_reads := to_reads os - 1\<rparr> \<in> set (mt_takes (MtReadCompletes True []) os)" using 2 by simp
    obtain t' where t': "transport_event (MtReadCompletes True []) t = Inr (?acts, t')" "fresh t'" "mt_cfg t' = mt_cfg t"
      using up by (auto simp: mt_onRead_def scheduleConnect_def resetConnection_def fresh_def m3ua_new_def Let_def)
    have "to_timer (fold mt_starts ?acts (os\<lparr>to_reads := to_reads os - 1\<rparr>))" by simp
    then show ?thesis using mt_single [OF take t'(1)] t'(2,3) by blast
  next
    case 3
    have take: "os\<lparr>to_timer := False\<rparr> \<in> set (mt_takes (TimerExpires False True True) os)" using 3 by simp
    obtain acts t1 where t1: "transport_event (TimerExpires False True True) t = Inr (acts @ [MtAsyncConnect], t1)" "mt_cfg t1 = mt_cfg t"
      using up by (auto simp: mt_onReconnectTimer_def mt_connect_def Let_def)
    let ?os1 = "fold mt_starts (acts @ [MtAsyncConnect]) (os\<lparr>to_timer := False\<rparr>)"
    have "to_connects ?os1 > 0" by simp
    then obtain t' os' where "mt_async (t1, ?os1) [ConnectCompletes True] (t', os')" "fresh t'" "to_timer os'" "mt_cfg t' = mt_cfg t"
      using failed t1(2) by metis
    then show ?thesis using async_trans [OF mt_single [OF take t1(1)]] by blast
  qed
qed

text \<open>An operation that was started is outstanding.\<close>

lemma starts_outstanding:
  "MtAsyncRead \<in> set acts \<or> to_reads os > 0 \<Longrightarrow> to_reads (fold mt_starts acts os) > 0"
  "MtAsyncConnect \<in> set acts \<or> to_connects os > 0 \<Longrightarrow> to_connects (fold mt_starts acts os) > 0"
proof (induction acts arbitrary: os)
  case (Cons a acts)
  { case 1
    have "MtAsyncRead \<in> set acts \<or> to_reads (mt_starts a os) > 0" using 1 by (cases a) auto
    then show ?case using Cons.IH(1) by simp
  next
    case 2
    have "MtAsyncConnect \<in> set acts \<or> to_connects (mt_starts a os) > 0" using 2 by (cases a) auto
    then show ?case using Cons.IH(2) by simp }
qed simp_all

lemma fresh_establishes:
  assumes "fresh t" and "to_timer os" and acks: "mu_is kClassAspsm kTypeAspUpAck a" "mu_is kClassAsptm kTypeAspAcAck b" "mu_good a" "mu_good b"
  shows "\<exists>evs t' os'. mt_async (t, os) evs (t', os') \<and> mt_state t' = Active \<and> mt_cfg t' = mt_cfg t \<and> m3ua_buf (mt_decoder t') = [] \<and>
    mt_writeQueue t' = [m3ua_encode makeAspUp, m3ua_encode (makeAspAc (cfg_routingContext (mt_cfg t)))]"
proof -
  let ?rd = "MtReadCompletes False (m3ua_encode a @ m3ua_encode b)"
  obtain acts t' where run: "transport_run ([TimerExpires False True True, ConnectCompletes False] @ map (MtReadCompletes False) [m3ua_encode a @ m3ua_encode b]) t =
      Inr (acts, t')" and res: "mt_state t' = Active" "mt_cfg t' = mt_cfg t" "m3ua_buf (mt_decoder t') = []"
      "mt_writeQueue t' = [m3ua_encode makeAspUp, m3ua_encode (makeAspAc (cfg_routingContext (mt_cfg t)))]"
    using transport_establishes [OF assms(1) acks, of "[m3ua_encode a @ m3ua_encode b]"] by auto
  obtain a1 t1 a2 t2 a3 where ev: "transport_event (TimerExpires False True True) t = Inr (a1, t1)"
    "transport_event (ConnectCompletes False) t1 = Inr (a2, t2)" "transport_event ?rd t2 = Inr (a3, t')"
    using run by (auto simp: and_then_Inr_iff simp del: transport_event.simps)
  have started: "MtAsyncConnect \<in> set a1" "MtAsyncRead \<in> set a2"
    using ev(1,2) assms(1) by (auto simp: fresh_def mt_onReconnectTimer_def mt_connect_def mt_onConnect_def rbind_Inr_iff Let_def)
  let ?os1 = "fold mt_starts a1 (os\<lparr>to_timer := False\<rparr>)"
  let ?os2 = "fold mt_starts a2 (?os1\<lparr>to_connects := to_connects ?os1 - 1\<rparr>)"
  have "os\<lparr>to_timer := False\<rparr> \<in> set (mt_takes (TimerExpires False True True) os)" using assms(2) by simp
  note one = mt_single [OF this ev(1)]
  have "to_connects ?os1 > 0" using starts_outstanding(2) started(1) by blast
  then have "?os1\<lparr>to_connects := to_connects ?os1 - 1\<rparr> \<in> set (mt_takes (ConnectCompletes False) ?os1)" by simp
  note two = mt_single [OF this ev(2)]
  have "to_reads ?os2 > 0" using starts_outstanding(1) started(2) by blast
  then have "?os2\<lparr>to_reads := to_reads ?os2 - 1\<rparr> \<in> set (mt_takes ?rd ?os2)" by simp
  note three = mt_single [OF this ev(3)]
  show ?thesis using async_trans [OF async_trans [OF one two] three] res by blast
qed

section \<open>Properties\<close>

text \<open>
  C19: The transport never gets stuck.  In every run of its handlers in which a handler completes an
  outstanding operation, whatever the errors and whatever is sent: a disconnected transport waits
  for its reconnect timer; in every state a reconnect wait, a connect, its posted failure or a read is
  outstanding, so that some handler will go on with the connection; an active transport has its beat
  timer armed; and as long as \<open>writing_\<close> is set a write is outstanding, so that the queue is served.
\<close>

theorem transport_never_stuck:
  assumes "mt_async (mt_started cfg) evs (t, os)"
  shows "(mt_state t = Disconnected \<longrightarrow> to_timer os) \<and>
    (to_timer os \<or> to_connects os > 0 \<or> to_posted os > 0 \<or> to_reads os > 0) \<and>
    (mt_state t = Active \<longrightarrow> to_beat os) \<and> (mt_writing t \<longrightarrow> to_writes os > 0)"
  using reach_alive [OF assms] by (simp add: mt_alive_def mt_steady_def mt_progress_def)

text \<open>
  C20: The transport can always recover.  From every configuration that it reaches, after whatever
  errors and late completions, there are completions of outstanding operations after which it is
  active with its configuration, an empty receive buffer and nothing in the queue but ASPUP and
  ASPAC, if the gateway answers with acknowledgements of at most 65536 octets.
\<close>

theorem transport_can_recover:
  assumes "mt_async (mt_started cfg) evs (t, os)"
    and "mu_is kClassAspsm kTypeAspUpAck a" "mu_is kClassAsptm kTypeAspAcAck b"
    and "length (m3ua_encode a) \<le> 65536" "length (m3ua_encode b) \<le> 65536"
  shows "\<exists>evs' t' os'. mt_async (t, os) evs' (t', os') \<and> mt_state t' = Active \<and> mt_cfg t' = mt_cfg t \<and> m3ua_buf (mt_decoder t') = [] \<and>
    mt_writeQueue t' = [m3ua_encode makeAspUp, m3ua_encode (makeAspAc (cfg_routingContext (mt_cfg t)))]"
proof -
  obtain evs1 t1 os1 where one: "mt_async (t, os) evs1 (t1, os1)" "fresh t1" "to_timer os1" "mt_cfg t1 = mt_cfg t"
    using recover_fresh [OF reach_alive [OF assms(1)]] by blast
  have "mu_good a" "mu_good b" using assms(4,5) by (simp_all add: mu_good_def)
  then obtain evs2 t2 os2 where "mt_async (t1, os1) evs2 (t2, os2)" "mt_state t2 = Active" "mt_cfg t2 = mt_cfg t1" "m3ua_buf (mt_decoder t2) = []"
    "mt_writeQueue t2 = [m3ua_encode makeAspUp, m3ua_encode (makeAspAc (cfg_routingContext (mt_cfg t1)))]"
    using fresh_establishes [OF one(2,3) assms(2,3)] by blast
  then show ?thesis using async_trans [OF one(1)] one(4) by metis
qed

text \<open>The witnesses: the name of the gateway does not resolve.\<close>

lemma demo_unresolved:
  "mt_async (mt_started demo_cfg) [TimerExpires False False False]
     ((mt_new demo_cfg)\<lparr>mt_state := Connecting\<rparr>, mt_noOps\<lparr>to_posted := 1\<rparr>)"
proof -
  have "mt_async (mt_new demo_cfg, mt_noOps\<lparr>to_timer := True\<rparr>) [TimerExpires False False False]
      ((mt_new demo_cfg)\<lparr>mt_state := Connecting\<rparr>, fold mt_starts [MtPostOnConnectError] (mt_noOps\<lparr>to_timer := False\<rparr>))"
    by (rule async_single) (simp_all add: mt_onReconnectTimer_def mt_connect_def mt_new_def mt_noOps_def)
  then show ?thesis by (simp add: mt_started_def mt_noOps_def)
qed

theorem transport_never_stuck_witness:
  "\<exists>evs os. mt_async (mt_started demo_cfg) evs ((mt_new demo_cfg)\<lparr>mt_state := Connecting\<rparr>, os) \<and>
     (to_timer os \<or> to_connects os > 0 \<or> to_posted os > 0 \<or> to_reads os > 0)"
  using transport_never_stuck [OF demo_unresolved] demo_unresolved by blast

theorem transport_can_recover_witness:
  "\<exists>evs evs' t' os'. mt_async (mt_started demo_cfg) evs ((mt_new demo_cfg)\<lparr>mt_state := Connecting\<rparr>, mt_noOps\<lparr>to_posted := 1\<rparr>) \<and>
     mt_async ((mt_new demo_cfg)\<lparr>mt_state := Connecting\<rparr>, mt_noOps\<lparr>to_posted := 1\<rparr>) evs' (t', os') \<and> mt_state t' = Active"
  using transport_can_recover [OF demo_unresolved demo_facts(2-5)] demo_unresolved by blast

end
