(* ===== verification/ServerOps.thy ===== *)
theory ServerOps
  imports SystemRuns Outstanding
begin

text \<open>
  The server with its outstanding operations: the accept of the server, and the reads and writes of
  each session object.  A session reads into one buffer and writes from the front of its queue, so
  neither may be outstanding twice.
\<close>

section \<open>Outstanding operations\<close>

record ServerOps =
  so_accept :: nat
  so_reads :: "session_ref \<Rightarrow> nat"
  so_writes :: "session_ref \<Rightarrow> nat"

definition srv_noOps :: ServerOps where
  "srv_noOps = \<lparr>so_accept = 0, so_reads = (\<lambda>ref. 0), so_writes = (\<lambda>ref. 0)\<rparr>"

fun ss_starts :: "session_ref \<Rightarrow> SessionAct \<Rightarrow> ServerOps \<Rightarrow> ServerOps" where
  "ss_starts ref AsyncRead os = os\<lparr>so_reads := (so_reads os)(ref := Suc (so_reads os ref))\<rparr>"
| "ss_starts ref (AsyncWrite b) os = os\<lparr>so_writes := (so_writes os)(ref := Suc (so_writes os ref))\<rparr>"
| "ss_starts ref _ os = os"

fun srv_starts :: "ServerAct \<Rightarrow> ServerOps \<Rightarrow> ServerOps" where
  "srv_starts (SessionIo ref a) os = ss_starts ref a os"
| "srv_starts AcceptNext os = os\<lparr>so_accept := Suc (so_accept os)\<rparr>"
| "srv_starts _ os = os"

text \<open>\<open>enqueue\<close> is a posted function; \<open>stop\<close> is not called by the program.\<close>

fun srv_takes :: "ServerEvent \<Rightarrow> ServerOps \<Rightarrow> ServerOps list" where
  "srv_takes (Accepted ec) os = (if so_accept os > 0 then [os\<lparr>so_accept := so_accept os - 1\<rparr>] else [])"
| "srv_takes AcceptedGone os = (if so_accept os > 0 then [os\<lparr>so_accept := so_accept os - 1\<rparr>] else [])"
| "srv_takes (SessionRead ref ec data) os =
     (if so_reads os ref > 0 then [os\<lparr>so_reads := (so_reads os)(ref := so_reads os ref - 1)\<rparr>] else [])"
| "srv_takes (SessionWritten ref ec) os =
     (if so_writes os ref > 0 then [os\<lparr>so_writes := (so_writes os)(ref := so_writes os ref - 1)\<rparr>] else [])"
| "srv_takes (SessionEnqueue ref f) os = [os]"
| "srv_takes (StopServer order) os = []"

abbreviation srv_async :: "IpaServer \<times> ServerOps \<Rightarrow> ServerEvent list \<Rightarrow> IpaServer \<times> ServerOps \<Rightarrow> bool" where
  "srv_async \<equiv> async_run server_event srv_takes srv_starts"

text \<open>The configuration after \<open>start\<close>.\<close>

definition srv_started :: "IpaServer \<times> ServerOps" where
  "srv_started = (srv_new, fold srv_starts srv_start srv_noOps)"

section \<open>One session\<close>

text \<open>
  At most one read and one write of a session are outstanding; a session that has not stopped is
  reading, and a write is outstanding only while \<open>writing_\<close> says so.
\<close>

definition ss_alive :: "IpaSession \<Rightarrow> nat \<Rightarrow> nat \<Rightarrow> bool" where
  "ss_alive s r w \<longleftrightarrow> busy_ok s \<and> r \<le> 1 \<and> w \<le> 1 \<and> (ss_state s \<noteq> Stopped \<longrightarrow> r = 1) \<and> (w = 1 \<longrightarrow> ss_writing s)"

definition reads_of :: "SessionAct list \<Rightarrow> nat" where
  "reads_of acts = length (filter (\<lambda>a. a = AsyncRead) acts)"

lemma reads_of_simps [simp]:
  "reads_of [] = 0" "reads_of (a @ b) = reads_of a + reads_of b" "reads_of [AsyncRead] = 1" "reads_of (map AsyncWrite ws) = 0"
  "reads_of [OnReady] = 0" "reads_of [OnGsup p] = 0" "reads_of [OnDisconnect] = 0" "reads_of [AsyncWrite f] = 0"
  by (induction ws) (simp_all add: reads_of_def)

lemma send_reads: "ss_send f s = Inr (acts, s') \<Longrightarrow> reads_of acts = 0"
  by (auto simp: ss_send_def split: prod.splits)

lemma processFrame_reads: "processFrame f s = Inr (acts, s') \<Longrightarrow> reads_of acts = 0"
  by (auto simp: processFrame_def handleCcm_eq sendCcmIdAck_def sendCcmPong_def rbind_Inr_iff and_then_Inr_iff dest!: send_reads
      split: if_splits)

lemma readLoop_reads: "ss_readLoop s = Inr (acts, s') \<Longrightarrow> reads_of acts = 0"
proof (induction s arbitrary: acts rule: ss_readLoop.induct)
  case (1 s)
  obtain r d where n: "ipa_next (ss_decoder s) = (r, d)" by force
  then obtain v where r: "r = Inr v" using 1(2) by (cases r) (simp_all add: ss_readLoop.simps [of s])
  show ?case
  proof (cases v)
    case None
    then show ?thesis using 1(2) n r by (auto simp: ss_readLoop.simps [of s])
  next
    case (Some f)
    then obtain a s1 b where p: "processFrame f (s\<lparr>ss_decoder := d\<rparr>) = Inr (a, s1)" "ss_readLoop s1 = Inr (b, s')" "acts = a @ b"
      using 1(2) n r by (auto simp: ss_readLoop.simps [of s] and_then_Inr_iff)
    moreover have "reads_of b = 0" using 1(1) [OF n [symmetric] r Some _ p(2)] p(1) by auto
    ultimately show ?thesis using processFrame_reads by simp
  qed
qed

text \<open>A handler that enqueues frames starts a write exactly if none is running.\<close>

lemma queues_writes:
  assumes "queues rs r s acts s'" and "busy_ok s" and "w \<le> 1" and "w = 1 \<longrightarrow> ss_writing s"
  shows "busy_ok s' \<and> w + length (writes_of acts) \<le> 1 \<and> (w + length (writes_of acts) = 1 \<longrightarrow> ss_writing s')"
proof (cases "ss_writing s")
  case True
  then show ?thesis using assms busy_ok_queues by (auto simp: queues_def)
next
  case False
  then have "ss.wq_inv (s, [], [])" using assms(2) by (simp add: busy_ok_def ss.wq_inv_def)
  then have "ss.wq_inv (s', writes_of acts, [])" using assms(1) unfolding queues_def by (metis append_Nil)
  then have "writes_of acts = take 1 (ss_writeQueue s')" "ss_writing s' = (ss_writeQueue s' \<noteq> [])" by (simp_all add: ss.wq_inv_def)
  moreover have "w = 0" using False assms(3,4) by linarith
  ultimately show ?thesis by (auto simp: busy_ok_def)
qed

lemma ss_alive_read:
  assumes "ss_alive s r w" and "r > 0" and "ss_onRead ec data s = Inr (acts, s')"
  shows "ss_alive s' (r - 1 + reads_of acts) (w + length (writes_of acts))"
proof -
  obtain rs where q: "queues rs (Inr (acts, s')) s acts s'" using onRead_ok [OF assms(3)] by blast
  have "reads_of acts = of_bool (\<not> ec \<and> ss_state s' \<noteq> Stopped)" "ec \<longrightarrow> ss_state s' = Stopped"
    using assms(3) by (auto simp: ss_onRead_def and_then_Inr_iff dest!: readLoop_reads split: if_splits)
  then show ?thesis using queues_writes [OF q, of w] assms(1,2) by (auto simp: ss_alive_def)
qed

lemma ss_alive_send:
  assumes "ss_alive s r w" and "ss_send f s = Inr (acts, s')"
  shows "ss_alive s' (r + reads_of acts) (w + length (writes_of acts))"
proof -
  have "queues [f] (ss_send f s) s acts s'" "ss_state s' = ss_state s" using queues_send [of f s] assms(2) by (auto simp: queues_def)
  moreover have "reads_of acts = 0" using send_reads [OF assms(2)] .
  ultimately show ?thesis using queues_writes [of "[f]" _ s acts s' w] assms(1) by (simp add: ss_alive_def)
qed

lemma ss_alive_written:
  assumes "ss_alive s r w" and "w > 0" and "ss_onWrite ec s = Inr (acts, s')"
  shows "ss_alive s' (r + reads_of acts) (w - 1 + length (writes_of acts))"
proof -
  have w: "w = 1" "ss_writing s" using assms(1,2) by (auto simp: ss_alive_def)
  show ?thesis
  proof (cases ec)
    case True
    then show ?thesis using assms w by (auto simp: ss_onWrite_def ss_alive_def busy_ok_def split: if_splits)
  next
    case False
    then obtain b q where "ss_writeQueue s = b # q" using assms(1) w(2) by (cases "ss_writeQueue s") (auto simp: ss_alive_def busy_ok_def)
    then show ?thesis
      using assms False w by (auto simp: ss_onWrite_def ss_written_def ss_doWrite_def ss_alive_def busy_ok_def writes_of_def rbind_Inr_iff split: if_splits)
  qed
qed

lemma ss_alive_start:
  assumes "ss_start ss_new = Inr (acts, s')"
  shows "ss_alive s' (reads_of acts) (length (writes_of acts))"
proof -
  have new: "busy_ok ss_new" "\<not> ss_writing ss_new" by (simp_all add: busy_ok_def ss_new_def)
  obtain a f where a: "ss_send f ss_new = Inr (a, s')" "acts = a @ [AsyncRead]"
    using assms by (auto simp: ss_start_def sendCcmIdGet_def and_then_Inr_iff rbind_Inr_iff)
  have q: "queues [f] (ss_send f ss_new) ss_new a s'" using queues_send [of f ss_new] a(1) by (auto simp: queues_def)
  have "reads_of a = 0" using send_reads [OF a(1)] .
  then show ?thesis using queues_writes [OF q new(1), of 0] a(2) by (simp add: ss_alive_def)
qed

section \<open>The server\<close>

text \<open>
  All sessions are in order, nothing is outstanding for session objects that do not exist, and the
  server is accepting unless an accept has failed.
\<close>

definition sessions_alive :: "IpaServer \<Rightarrow> ServerOps \<Rightarrow> bool" where
  "sessions_alive sv os \<longleftrightarrow>
     (\<forall>ref < length (srv_heap sv). ss_alive (srv_session ref sv) (so_reads os ref) (so_writes os ref)) \<and>
     (\<forall>ref \<ge> length (srv_heap sv). so_reads os ref = 0 \<and> so_writes os ref = 0)"

definition srv_alive :: "ServerEvent list \<Rightarrow> IpaServer \<Rightarrow> ServerOps \<Rightarrow> bool" where
  "srv_alive past sv os \<longleftrightarrow> so_accept os = (if Accepted True \<in> set past then 0 else 1) \<and> sessions_alive sv os"

lemma callbacks_ops:
  assumes "srv_callbacks ref i acts sv = (out, sv')"
  shows "srv_heap sv' = srv_heap sv \<and> so_accept (fold srv_starts out os) = so_accept os \<and>
    so_reads (fold srv_starts out os) = (so_reads os)(ref := so_reads os ref + reads_of acts) \<and>
    so_writes (fold srv_starts out os) = (so_writes os)(ref := so_writes os ref + length (writes_of acts))"
  using assms
proof (induction acts arbitrary: sv out os)
  case (Cons a acts)
  obtain out1 sv1 out2 where c: "srv_callback ref i a sv = (out1, sv1)" "srv_callbacks ref i acts sv1 = (out2, sv')" "out = out1 @ out2"
    using Cons.prems by (auto split: prod.splits)
  have "srv_heap sv1 = srv_heap sv"
    using c(1) by (cases a) (auto simp: onSessionReady_def onSessionDisconnect_def split: option.splits)
  moreover have "so_accept (fold srv_starts out1 os) = so_accept os"
    "so_reads (fold srv_starts out1 os) = (so_reads os)(ref := so_reads os ref + reads_of [a])"
    "so_writes (fold srv_starts out1 os) = (so_writes os)(ref := so_writes os ref + length (writes_of [a]))"
    using c(1) by (cases a; auto simp: reads_of_def writes_of_def)+
  moreover have "reads_of (a # acts) = reads_of [a] + reads_of acts" "length (writes_of (a # acts)) = length (writes_of [a]) + length (writes_of acts)"
    using reads_of_simps(2) [of "[a]" acts] acts_simps(2) [of "[a]" acts] by simp_all
  ultimately show ?case using Cons.IH [OF c(2), of "fold srv_starts out1 os"] c(3) by (simp add: add.assoc fun_eq_iff)
qed simp

lemma onSession_alive:
  assumes run: "srv_onSession ref h sv = Inr (out, sv')"
    and others: "\<And>k. k < length (srv_heap sv) \<Longrightarrow> k \<noteq> ref \<Longrightarrow> ss_alive (srv_session k sv) (so_reads os k) (so_writes os k)"
    and none: "\<And>k. k \<ge> length (srv_heap sv) \<Longrightarrow> so_reads os k = 0 \<and> so_writes os k = 0"
    and own: "\<And>acts s'. h (srv_session ref sv) = Inr (acts, s') \<Longrightarrow>
      ss_alive s' (so_reads os ref + reads_of acts) (so_writes os ref + length (writes_of acts))"
  shows "sessions_alive sv' (fold srv_starts out os) \<and> so_accept (fold srv_starts out os) = so_accept os"
proof -
  let ?i = "fst (srv_heap sv ! ref)"
  obtain acts s' where h: "h (srv_session ref sv) = Inr (acts, s')" "ref < length (srv_heap sv)"
    and cb: "srv_callbacks ref ?i acts (sv\<lparr>srv_heap := (srv_heap sv)[ref := (?i, s')]\<rparr>) = (out, sv')"
    using run by (auto simp: srv_onSession_def rbind_Inr_iff split: if_splits)
  note ops = callbacks_ops [OF cb, of os]
  have "ss_alive (srv_session k sv') (so_reads (fold srv_starts out os) k) (so_writes (fold srv_starts out os) k)"
    if "k < length (srv_heap sv')" for k
    using that ops h(2) own [OF h(1)] others [of k] by (cases "k = ref") (auto simp: srv_session_def)
  then show ?thesis using ops none h(2) by (auto simp: sessions_alive_def)
qed

lemma alive_accept:
  assumes "sessions_alive sv os" and "srv_onAccept False True sv = Inr (out, sv')"
  shows "sessions_alive sv' (fold srv_starts out os) \<and> so_accept (fold srv_starts out os) = Suc (so_accept os)"
proof -
  let ?i = "srv_nextClientId sv" and ?ref = "length (srv_heap sv)"
  let ?sv = "sv\<lparr>srv_nextClientId := ?i + 1, srv_heap := srv_heap sv @ [(?i, ss_new)], srv_allSessions := (srv_allSessions sv)(?i \<mapsto> ?ref)\<rparr>"
  obtain out1 where r: "srv_onSession ?ref ss_start ?sv = Inr (out1, sv')" "out = out1 @ [AcceptNext]"
    using assms(2) by (auto simp: srv_onAccept_def Let_def and_then_Inr_iff)
  have "sessions_alive sv' (fold srv_starts out1 os) \<and> so_accept (fold srv_starts out1 os) = so_accept os"
  proof (rule onSession_alive [OF r(1)])
    show "ss_alive (srv_session k ?sv) (so_reads os k) (so_writes os k)" if "k < length (srv_heap ?sv)" "k \<noteq> ?ref" for k
      using that assms(1) by (auto simp: sessions_alive_def srv_session_def nth_append)
    show "so_reads os k = 0 \<and> so_writes os k = 0" if "k \<ge> length (srv_heap ?sv)" for k
      using that assms(1) by (auto simp: sessions_alive_def)
    show "ss_alive s' (so_reads os ?ref + reads_of acts) (so_writes os ?ref + length (writes_of acts))"
      if "ss_start (srv_session ?ref ?sv) = Inr (acts, s')" for acts s'
      using that ss_alive_start assms(1) by (simp add: sessions_alive_def srv_session_def)
  qed
  then show ?thesis using r(2) by (simp add: sessions_alive_def)
qed

lemma alive_event:
  assumes alive: "sessions_alive sv os" and take: "os1 \<in> set (srv_takes ev os)" and run: "server_event ev sv = Inr (out, sv')"
    and ev: "\<nexists>ec. ev = Accepted ec"
  shows "sessions_alive sv' (fold srv_starts out os1) \<and> so_accept (fold srv_starts out os1) = so_accept os"
proof -
  have a: "k < length (srv_heap sv) \<Longrightarrow> ss_alive (srv_session k sv) (so_reads os k) (so_writes os k)"
    "k \<ge> length (srv_heap sv) \<Longrightarrow> so_reads os k = 0 \<and> so_writes os k = 0" for k
    using alive by (simp_all add: sessions_alive_def)
  have live: "k < length (srv_heap sv)" if "so_reads os k > 0 \<or> so_writes os k > 0" for k using a(2) [of k] that by fastforce
  show ?thesis
  proof (cases ev)
    case (SessionRead ref ec data)
    then have os1: "os1 = os\<lparr>so_reads := (so_reads os)(ref := so_reads os ref - 1)\<rparr>" "so_reads os ref > 0"
      using take by (simp_all split: if_splits)
    have "srv_onSession ref (ss_onRead ec data) sv = Inr (out, sv')" using run SessionRead by simp
    from onSession_alive [OF this, of os1] show ?thesis
      using ss_alive_read [OF a(1) [OF live] os1(2)] a os1 live [of ref] by simp
  next
    case (SessionWritten ref ec)
    then have os1: "os1 = os\<lparr>so_writes := (so_writes os)(ref := so_writes os ref - 1)\<rparr>" "so_writes os ref > 0"
      using take by (simp_all split: if_splits)
    have "srv_onSession ref (ss_onWrite ec) sv = Inr (out, sv')" using run SessionWritten by simp
    from onSession_alive [OF this, of os1] show ?thesis
      using ss_alive_written [OF a(1) [OF live] os1(2)] a os1 live [of ref] by simp
  next
    case (SessionEnqueue ref f)
    have s: "srv_onSession ref (ss_send f) sv = Inr (out, sv')" "os1 = os" using run take SessionEnqueue by simp_all
    then have "ref < length (srv_heap sv)" by (simp add: srv_onSession_def split: if_splits)
    then show ?thesis using onSession_alive [OF s(1), of os] ss_alive_send [OF a(1)] a s(2) by simp
  qed (use ev take run in \<open>simp_all add: srv_onAccept_def\<close>)
qed

interpretation srv_ops: async_invariant server_event srv_takes srv_starts srv_alive
proof
  fix past sv os os1 ev out sv'
  assume inv: "srv_alive past sv os" and take: "os1 \<in> set (srv_takes ev os)" and run: "server_event ev sv = Inr (out, sv')"
  show "srv_alive (past @ [ev]) sv' (fold srv_starts out os1)"
  proof (cases "\<exists>ec. ev = Accepted ec")
    case True
    then obtain ec where ev: "ev = Accepted ec" by blast
    have os1: "os1 = os\<lparr>so_accept := so_accept os - 1\<rparr>" "so_accept os > 0" using take ev by (simp_all split: if_splits)
    then have ok: "Accepted True \<notin> set past" "so_accept os1 = 0" "sessions_alive sv os1"
      using inv by (auto simp: srv_alive_def sessions_alive_def split: if_splits)
    show ?thesis
    proof (cases ec)
      case False
      then show ?thesis using alive_accept [OF ok(3)] run ev ok(1,2) by (simp add: srv_alive_def)
    next
      case True
      then show ?thesis using run ev ok by (simp add: srv_alive_def srv_onAccept_def)
    qed
  next
    case False
    then show ?thesis using alive_event [OF _ take run] inv by (auto simp: srv_alive_def)
  qed
qed

text \<open>A completion of an outstanding operation is one that the runs of the event loop permit.\<close>

lemma takes_server_ok:
  assumes "srv_alive past sv os" and "os1 \<in> set (srv_takes ev os)" and "\<nexists>ref f. ev = SessionEnqueue ref f"
  shows "server_ok ev sv"
proof -
  have none: "\<forall>ref \<ge> length (srv_heap sv). so_reads os ref = 0 \<and> so_writes os ref = 0"
    using assms(1) by (simp add: srv_alive_def sessions_alive_def)
  then have live: "ref < length (srv_heap sv)" if "so_reads os ref > 0 \<or> so_writes os ref > 0" for ref
    using that by (metis less_irrefl not_le)
  have writing: "ss_writing (srv_session ref sv)" if "so_writes os ref > 0" for ref
    using live [of ref] that assms(1) by (auto simp: srv_alive_def sessions_alive_def ss_alive_def)
  show ?thesis using assms(2,3) by (cases ev) (auto simp: server_ok_def live writing split: if_splits)
qed

section \<open>Properties\<close>

text \<open>
  C15: The server keeps listening.  In every run of its handlers in which a handler completes an
  outstanding operation and none throws, whatever SGSNs connect, send or break off: unless an accept has failed,
  exactly one accept is outstanding; every session that has not stopped has exactly one read
  outstanding, and a stopped one at most one, so the read buffer is never shared; at most one write of a session is
  outstanding, only while \<open>writing_\<close> is set and with a frame at the front of the queue; and nothing is
  outstanding for a session that does not exist.
\<close>

theorem server_keeps_listening:
  assumes "srv_async srv_started evs (sv, os)"
  shows "(Accepted True \<notin> set evs \<longrightarrow> so_accept os = 1) \<and>
    (\<forall>ref < length (srv_heap sv). so_reads os ref \<le> 1 \<and> (ss_state (srv_session ref sv) \<noteq> Stopped \<longrightarrow> so_reads os ref = 1) \<and>
       so_writes os ref \<le> 1 \<and> (so_writes os ref = 1 \<longrightarrow> ss_writing (srv_session ref sv) \<and> ss_writeQueue (srv_session ref sv) \<noteq> [])) \<and>
    (\<forall>ref \<ge> length (srv_heap sv). so_reads os ref = 0 \<and> so_writes os ref = 0)"
proof -
  have "srv_alive [] srv_new (fold srv_starts srv_start srv_noOps)"
    by (simp add: srv_alive_def sessions_alive_def srv_new_def srv_start_def srv_noOps_def)
  from srv_ops.inv_reachable [OF assms [unfolded srv_started_def] this]
  show ?thesis by (auto simp: srv_alive_def sessions_alive_def ss_alive_def busy_ok_def)
qed

theorem server_keeps_listening_witness:
  "\<exists>sv os. srv_async srv_started [Accepted False] (sv, os) \<and> ss_state (srv_session 0 sv) = Handshaking \<and>
     so_accept os = 1 \<and> so_reads os 0 = 1 \<and> so_writes os 0 \<le> 1"
proof -
  obtain out where ev: "server_event (Accepted False) srv_new = Inr (out, demo_greeted)"
    by (simp add: srv_onAccept_def srv_new_def srv_onSession_def srv_session_def session_defs Let_def wire_consts demo_greeted_def)
  let ?os = "fold srv_starts srv_start srv_noOps"
  have "?os\<lparr>so_accept := so_accept ?os - 1\<rparr> \<in> set (srv_takes (Accepted False) ?os)" by (simp add: srv_start_def)
  from async_single [where handler = server_event and takes = srv_takes and starts = srv_starts, OF this ev]
  have run: "srv_async srv_started [Accepted False] (demo_greeted, fold srv_starts out (?os\<lparr>so_accept := so_accept ?os - 1\<rparr>))"
    by (simp add: srv_started_def)
  have state: "ss_state (srv_session 0 demo_greeted) = Handshaking" "length (srv_heap demo_greeted) = 1"
    by (simp_all add: demo_greeted_def srv_session_def)
  show ?thesis using server_keeps_listening [OF run] run state by auto
qed

end
