(* ===== verification/Spec2Isabelle.thy ===== *)
theory Spec2Isabelle
  imports Program Delivery TransportOps ServerOps
begin

text \<open>
  A verification library for \<open>gsup-map-proxy\<close>, a proxy between the GSUP protocol of an SGSN and the
  MAP protocol of an HLR.  File names below are relative to \<open>src/src\<close>.

  \<^bold>\<open>The program.\<close>  SGSNs connect to a TCP server (\<open>transport/IpaServer\<close>), one \<open>transport/IpaSession\<close> per
  connection, and send GSUP messages in IPA frames (\<open>ipa\<close>, \<open>gsup\<close>).  The proxy (\<open>proxy/Proxy\<close>) decodes a
  request, opens a transaction (\<open>proxy/TransactionManager\<close>), converts it to MAP (\<open>proxy/Converter\<close>) and
  sends it, encoded with BER and TCAP (\<open>map\<close>), through \<open>transport/MapTransport\<close>, which wraps it in SCCP and
  M3UA for a signalling gateway.  The answer takes the same way back and is sent to the session the
  request came from.  The HLR can start operations too: they are broadcast to the SGSNs, and the
  answer is matched to the HLR's transaction by IMSI.  A timer expires what stays unanswered, and a
  lost connection to the gateway is answered with errors.  Everything runs on one event loop, which
  \<open>main.cpp\<close> sets up.

  \<^bold>\<open>The theories\<close>, in the order in which they build on each other.
  \<^item> \<open>Prelude\<close>: machine integers, exceptions as values (\<open>exc\<close>, \<open>result\<close>), sequencing (\<open>rbind\<close>, \<open>foldM\<close>, \<open>try_catch\<close>,
    and \<open>and_then\<close> for handlers that return effects), and \<open>no_ub\<close>, the absence of undefined behaviour.
  \<^item> \<open>Buffer\<close>: \<open>common/Buffer.hpp\<close>, the read cursor and the write buffer.
  \<^item> \<open>Framing\<close>: the locale \<open>stream_framer\<close>, the interface of a stream reassembler.  What a client receives
    does not depend on how TCP cuts the stream.  Interpreted by \<open>IpaCodec\<close> and \<open>M3uaCodec\<close>.
  \<^item> \<open>IpaCodec\<close>: \<open>ipa/IpaCodec\<close>, \<open>ipa/IpaFrame\<close>.  Frames survive the wire; a zero length wedges the decoder.
  \<^item> \<open>Tlv\<close>: the locale of decoders that loop over tagged elements, interpreted by the codecs with such a loop.
  \<^item> \<open>Bcd\<close>, \<open>GsupMessage\<close>, \<open>GsupCodec\<close>: \<open>gsup\<close>.  Every information element, decoding after encoding, the
    element of length zero that is read past.
  \<^item> \<open>BerCodec\<close>, \<open>MapMessage\<close>, \<open>MapCodec\<close>: \<open>map\<close>.  BER lengths and integers, the arguments of every operation,
    components and TCAP envelope, decoding after encoding and the exact conditions of an exception.
  \<^item> \<open>Converter\<close>: \<open>proxy/Converter\<close>.  Types of answers belong to types of requests, authentication vectors
    are kept.
  \<^item> \<open>TransactionManager\<close>: \<open>proxy/TransactionManager\<close>, against the abstract finite map of its locale.
    Transaction IDs in use are distinct as long as fewer than \<open>2^32 - 1\<close> are handed out in between.
  \<^item> \<open>Proxy\<close>: every handler of \<open>proxy/Proxy\<close> and the timer of \<open>main\<close>, as functions that return the messages
    sent and the new state or the exception that leaves the handler.
  \<^item> \<open>Demo\<close>: the messages on which the witnesses evaluate the theorems.
  \<^item> \<open>ProxyRuns\<close>: runs of the proxy as a step relation.  Its invariant, that no exception leaves a
    handler, that a transaction is answered at most once, what disconnects and ticks answer.
  \<^item> \<open>SccpCodec\<close>, \<open>M3uaCodec\<close>: \<open>transport/ScccpCodec\<close>, \<open>transport/M3uaCodec\<close>.  Round trips with their exact length
    limits, the inputs on which the SCCP decoder leaves its buffer, the end of the receive loop on
    every input, the length field that stalls it.
  \<^item> \<open>WriteQueue\<close>: the locale \<open>write_queue\<close>, what both transports do with \<open>writeQueue_\<close> and \<open>writing_\<close>, refining
    a FIFO: at most one write is outstanding, and frames reach the socket once and in order.
  \<^item> \<open>IpaSession\<close>: \<open>transport/IpaSession\<close>, with the interpretation of \<open>write_queue\<close> and a run relation in
    which reads, writes and posted functions interleave.
  \<^item> \<open>IpaServer\<close>: \<open>transport/IpaServer\<close>.  Session objects live in a heap indexed by \<open>session_ref\<close>, since a
    handler keeps its session alive after the server has forgotten it.
  \<^item> \<open>MapTransport\<close>: \<open>transport/MapTransport\<close>, the connection state machine, with the second
    interpretation of \<open>write_queue\<close>.
  \<^item> \<open>TransportRuns\<close>: one connection to the gateway as a run in which reads, timers, sends and completed
    writes interleave.  Frames reach the gateway in the order in which they were queued, and the MAP
    payloads among them are those that were sent while the transport was active.
  \<^item> \<open>Outstanding\<close>: the locale \<open>async_invariant\<close>, runs in which every handler completes an operation that an
    earlier one started and none completes twice.  Interpreted by the next theory and \<open>ServerOps\<close>.
  \<^item> \<open>TransportOps\<close>: the operations of the transport that asio has not completed.  The transport always
    waits for something that takes it on, and from every such state it can become active again.
  \<^item> \<open>System\<close>: proxy and transports on one event loop with the queue of posted functions.
  \<^item> \<open>SystemRuns\<close>: runs of the event loop as a step relation.  Every run is a run of the proxy alone, with
    the messages it sends kept in order; the invariant of the sessions and posted functions; the
    causes for which a handler throws.
  \<^item> \<open>Delivery\<close>: what becomes of the messages the proxy sends when the loop runs the functions they were
    posted as: every addressed session gets its frames once and in order.  Disconnects and
    timeouts are followed to the wire.
  \<^item> \<open>ServerOps\<close>: the same for the server.  One accept is outstanding until one fails, and one read for every
    session that has not stopped.
  \<^item> \<open>Program\<close>: \<open>main.cpp\<close>, command line, configuration and start, the expiry timer, the signal handler, and
    how the process ends.
  \<^item> This theory: the properties that span components.

  \<^bold>\<open>Correspondence.\<close>  A class is a record with the fields of its state, an enum a datatype or, where the
  code casts wire values to it unchecked, a machine integer; integers have the width of the source.
  A member function is a definition of the same name, with a prefix (\<open>ss_\<close>, \<open>srv_\<close>, \<open>mt_\<close>, \<open>gsup_\<close>, \<open>map_\<close>, ...)
  where several classes share it.  A lambda passed to asio is a definition \<open>..._on...\<close> that takes the
  result of the operation.  Calls of asio and of callbacks are values of the result (\<open>SessionAct\<close>, \<open>ServerAct\<close>,
  \<open>TransportAct\<close>, \<open>Action\<close>), in the order of the code.  A thrown exception is an \<open>Inl\<close>; undefined behaviour
  (an index or an iterator range outside of a vector, an empty optional that is dereferenced, \<open>pop_front\<close> of
  an empty deque) is an exception of its own kind that no handler of the model catches: \<open>vec_at\<close>,
  \<open>vec_range\<close>, \<open>deref\<close>, \<open>pop_front\<close>.  Where the code tests the length first, a lemma \<open>..._eq\<close> or
  \<open>rd_checked\<close> gives the value.  \<open>front()\<close> and \<open>back()\<close> stand behind a test or a \<open>push_back\<close> in the
  same definition.  Loops over the characters or octets of a string are recursions on the list.  The one
  exception is the signed shift in \<open>decodeInt\<close>, which C++17 leaves undefined for an INTEGER of more than
  eight octets: the model drops the bits shifted out, as GCC documents it and C++20 requires.

  \<^bold>\<open>What is shown.\<close> From wire to wire: the octets of a request become the octets of the
  right MAP invoke, and the octets of its result the octets of the right GSUP answer at the right session
  (\<open>wire_round_trip\<close>); the octets of an HLR request become the octets of the GSUP request at
  every ready session, and the octets of an answer the octets of the MAP result
  (\<open>wire_hlr_round_trip\<close>); a lost gateway connection and the expiry timer put the GSUP error of
  every affected request into the queue of its session (\<open>wire_disconnect\<close>,
  \<open>wire_expiry\<close>).  Neither side of the proxy goes deaf: \<open>server_keeps_listening\<close>,
  \<open>transport_never_stuck\<close>, \<open>transport_can_recover\<close>.  \<open>program_boots\<close> shows that the program reaches a state in which
  this applies, \<open>program_outcomes\<close> how it can end, and \<open>system_refines_proxy\<close> that
  every run of the program is a run of the proxy alone. For the proxy alone the round trips hold with
  arbitrary other traffic in between, for results and for errors, and for operations the HLR starts. Several
  theorems state what the code does where that is plainly not intended; they are marked as such in their
  text.

  \<^bold>\<open>Bounds.\<close>  All loops are total functions with termination proofs; no fuel is used.  The hypotheses
  that bound lengths are limits of the formats: 4095 octets in an IPA frame the decoder accepts, 255
  octets of data in a Unitdata, 65536 octets in an M3UA message, global titles of at most 100 digits so
  that the one-octet pointers of SCCP do not wrap.  \<open>2^32 - 2\<close> and \<open>2^64 - 1\<close> are the periods of the
  transaction and client IDs.

  \<^bold>\<open>Hypotheses on the environment.\<close> The clock, the iteration order of every
  \<open>unordered_map\<close>, the octets a read delivers, the error codes of asio and the results of name
  resolution, of opening a socket, of binding the listening port and of \<open>remote_endpoint()\<close> are arguments.  \<open>wire_round_trip\<close> assumes that the
  transaction ID that comes next is free; \<open>sgsn_round_trip\<close> proves it for runs of up to
  \<open>2^32 - 2\<close> messages of SGSNs.  Memory allocation and the operations on asio timers are taken not to fail.  In the runs of the event loop a completion handler of a write to
  an SGSN runs only while that write is outstanding, the iteration orders are orders of the keys of the
  tables, and the expiry timer is not cancelled.  In \<open>TransportOps\<close> and \<open>ServerOps\<close> the documented rule of
  asio is part of the run relation: the handler of an operation runs once, a cancelled
  operation completes with an error, and a wait that is cancelled after its expiry may
  still complete without one.

  \<^bold>\<open>Not modelled.\<close> asio, sockets, name resolution and SCTP, which are libraries the code
  calls; log output and the log level, which do not change the state; a signal before its handler is
  installed; the choice of TCP or SCTP in \<open>connect\<close> beyond its success or failure;
  \<open>IpaServer::port\<close>, which reads the socket; destructors; the calls of \<open>send\<close> from
  other threads that the comments allow, since the program has one thread. The tests and build files carry
  no behaviour of the program.  What remains of the sources without a definition is accessors, declarations of
  members and callback types, includes, log statements and comments.
\<close>

section \<open>A request of an SGSN and its answer\<close>

lemma request_pending:
  assumes start: "proxy_run (proxy_new limit) tr0 p0"
    and req: "gsup_wf g" "gsup_encode g = Inr req_bytes" "(g_type g, op) \<in> set sgsn_requests"
    and free: "find_tx (txMgr p0) (next_tid (txMgr p0)) = None \<or> length (filter is_sgsn tr0) < 2 ^ 32 - 1"
    and step: "proxy_event now (SgsnMessage req_bytes ctx) p0 = Inr (acts, p1)"
    and run: "proxy_run p1 tr p2" "\<forall>l \<in> set tr. spares (next_tid (txMgr p0)) (timeout (txMgr p0)) now l"
      "length (filter is_sgsn tr) < 2 ^ 32 - 2"
  shows "find_tx (txMgr p0) (next_tid (txMgr p0)) = None"
    and "\<exists>bs m. acts = [SendHlr bs] \<and> map_decode bs = Inr m \<and> m_component m = Invoke \<and> m_operation m = op \<and>
      m_imsi m = g_imsi g \<and> m_transactionId m = next_tid (txMgr p0)"
    and "pending p2 (next_tid (txMgr p0)) (next_entry (g_imsi g, ctx, now) (txMgr p0)) op"
proof -
  let ?tid = "next_tid (txMgr p0)" and ?t = "next_entry (g_imsi g, ctx, now) (txMgr p0)"
  show none: "find_tx (txMgr p0) ?tid = None" using free reachable_free [OF start] by blast
  have inv0: "proxy_inv p0" using inv_run [OF start inv_new] .
  obtain n where n: "counters_at n (txMgr p0)" using reachable_counters [OF start] by blast
  obtain bs m where f: "acts = [SendHlr bs]" "map_decode bs = Inr m"
    "gsupToMap g ?tid (fst (nextInvokeId (txMgr p0))) = Inr m" "m_operation m = op"
    "find_tx (txMgr p1) = (find_tx (txMgr p0))(?tid \<mapsto> ?t)" "pendingOps p1 = (pendingOps p0)(?tid \<mapsto> op)"
    "p1 = snd (forward now g ctx p0)"
    using forward_ok [OF req none, of now ctx] step by (auto simp: proxy_event_def)
  show "\<exists>bs m. acts = [SendHlr bs] \<and> map_decode bs = Inr m \<and> m_component m = Invoke \<and> m_operation m = op \<and>
      m_imsi m = g_imsi g \<and> m_transactionId m = ?tid"
    using f gsupToMap_envelope [OF f(3)] by blast
  have ok: "event_ok (SgsnMessage req_bytes ctx) p0" by (simp add: event_ok_def)
  have "pending p1 ?tid ?t op" using f by (simp add: pending_def)
  moreover have "proxy_inv p1" using inv_event [OF inv0 ok step] .
  moreover have "counters_at (Suc n) (txMgr p1)" using forward_counters [OF n] f(7) by simp
  moreover have "?tid = nth_tid n" using n by (simp add: counters_at_def)
  moreover have "createdAt ?t = now" by (simp add: next_entry_def)
  moreover have "timeout (txMgr p1) = timeout (txMgr p0)" using event_timeout [OF inv0 ok step] .
  ultimately show "pending p2 ?tid ?t op"
    using run_spares [OF run(1) _ _ _ _ _ run(3), of ?tid ?t op n] run(2) by simp
qed

text \<open>
  C7: The round trip of an SGSN request.  In any state the proxy can reach with fewer than \<open>2^32 - 1\<close>
  messages from SGSNs, and in any other one in which the transaction ID that comes next is not in use
  (the code does not check it), a well-formed GSUP request of a supported type from client \<open>ctx\<close> is
  forwarded to the HLR as the MAP Invoke of its operation, with its IMSI and that transaction ID, which
  no pending transaction has.  However many other messages, answers and
  ticks are handled in between, as long as the connection stays up, the request does not time out
  and fewer than \<open>2^32 - 2\<close> further messages arrive, the ReturnResult of the HLR for that
  transaction, if its contents fit into a GSUP message, makes the proxy send exactly one message: to client \<open>ctx\<close>, a GSUP result of the type
  that belongs to the request, with its IMSI and the contents of the MAP result; and the transaction
  is closed.
\<close>

theorem sgsn_round_trip:
  assumes start: "proxy_run (proxy_new limit) tr0 p0"
    and req: "gsup_wf g" "gsup_encode g = Inr req_bytes" "(g_type g, op) \<in> set sgsn_requests"
    and free: "find_tx (txMgr p0) (next_tid (txMgr p0)) = None \<or> length (filter is_sgsn tr0) < 2 ^ 32 - 1"
    and step: "proxy_event now (SgsnMessage req_bytes ctx) p0 = Inr (acts, p1)"
    and run: "proxy_run p1 tr p2" "\<forall>l \<in> set tr. spares (next_tid (txMgr p0)) (timeout (txMgr p0)) now l"
      "length (filter is_sgsn tr) < 2 ^ 32 - 2"
    and answer: "m_component r = ReturnResult" "m_operation r = op" "m_transactionId r = next_tid (txMgr p0)"
      "map_encode r = Inr bs'" "list_all isDigit (m_imsi r)"
    and result: "mapToGsup (r\<lparr>m_imsi := g_imsi g\<rparr>) = Inr a" "gsup_wf a"
  shows "find_tx (txMgr p0) (next_tid (txMgr p0)) = None \<and>
    (\<exists>bs m. acts = [SendHlr bs] \<and> map_decode bs = Inr m \<and> m_component m = Invoke \<and> m_operation m = op \<and>
      m_imsi m = g_imsi g \<and> m_transactionId m = next_tid (txMgr p0)) \<and>
    (\<exists>data p3. proxy_event now' (HlrMessage bs') p2 = Inr ([SendSgsn data ctx], p3) \<and> gsup_decode data = Inr a \<and>
      expectedGsupResult (g_type g) = Inr (g_type a) \<and> g_imsi a = g_imsi g \<and>
      find_tx (txMgr p3) (next_tid (txMgr p0)) = None \<and> pendingOps p3 (next_tid (txMgr p0)) = None)"
proof -
  let ?tid = "next_tid (txMgr p0)" and ?t = "next_entry (g_imsi g, ctx, now) (txMgr p0)"
  note pend = request_pending [OF start req free step run]
  have op: "op \<in> snd ` set sgsn_requests" using req(3) by force
  have t: "tx_imsi ?t = g_imsi g" "clientContext ?t = ctx" by (simp_all add: next_entry_def)
  obtain data where "handleMapPayload now' bs' p2 = Inr ([SendSgsn data (clientContext ?t)], drop_tx ?tid p2)"
    "gsup_decode data = Inr a"
    using answer_result [OF pend(3) op answer(1-5)] result t(1) by metis
  moreover have "expectedGsupResult (g_type g) = Inr (g_type a)" "g_imsi a = g_imsi g"
    using answer_types(2) [OF req(3), of "r\<lparr>m_imsi := g_imsi g\<rparr>"] answer(1,2) result(1) mapToGsup_imsi by auto
  moreover have "find_tx (txMgr (drop_tx ?tid p2)) ?tid = None" "pendingOps (drop_tx ?tid p2) ?tid = None"
    using tx.find_remove [of "txMgr p2" ?tid ?tid] by (simp_all add: drop_tx_def)
  ultimately show ?thesis using pend(1,2) t(2) by (auto simp: proxy_event_def)
qed

text \<open>
  The concrete request of the witnesses: client 7 asks for vectors for IMSI 123, and another client
  sends an empty payload before the answer arrives.
\<close>

lemma demo_interlude:
  "\<exists>acts p1. proxy_event 0 (SgsnMessage demo_request 7) (proxy_new 30) = Inr (acts, p1) \<and>
     proxy_run p1 [(5, SgsnMessage [] 9, [])] p1"
proof -
  obtain acts p1 where "proxy_event 0 (SgsnMessage demo_request 7) (proxy_new 30) = Inr (acts, p1)"
    using proxy_event_returns by blast
  moreover have "proxy_step p1 (5, SgsnMessage [] 9, []) p1"
    by (simp add: proxy_step_simps event_ok_def proxy_event_def handleGsupPayload_eq gsup_decode_def)
  then have "proxy_run p1 ([] @ [(5, SgsnMessage [] 9, [])]) p1" by (rule run_step [OF run_nil])
  ultimately show ?thesis by auto
qed

theorem sgsn_round_trip_witness:
  "\<exists>acts p1 data p3. proxy_event 0 (SgsnMessage demo_request 7) (proxy_new 30) = Inr (acts, p1) \<and>
     proxy_run p1 [(5, SgsnMessage [] 9, [])] p1 \<and>
     proxy_event 9 (HlrMessage (map_pdu demo_result)) p1 = Inr ([SendSgsn data 7], p3) \<and> gsup_decode data = Inr demo_answer"
proof -
  obtain acts p1 where step: "proxy_event 0 (SgsnMessage demo_request 7) (proxy_new 30) = Inr (acts, p1)"
    and run: "proxy_run p1 [(5, SgsnMessage [] 9, [])] p1" using demo_interlude by blast
  have tid: "m_transactionId demo_result = next_tid (txMgr (proxy_new 30))" by (simp add: demo_result_facts demo_proxy_facts)
  have free: "find_tx (txMgr (proxy_new 30)) (next_tid (txMgr (proxy_new 30))) = None \<or> length (filter is_sgsn []) < 2 ^ 32 - 1"
    by simp
  have "\<forall>l \<in> set [(5, SgsnMessage [] 9, [])]. spares (next_tid (txMgr (proxy_new 30))) (timeout (txMgr (proxy_new 30))) 0 l"
    "length (filter is_sgsn [(5, SgsnMessage [] 9, [])]) < 2 ^ 32 - 2"
    by (simp_all add: spares_def is_sgsn_def)
  from sgsn_round_trip [OF run_nil demo_gsup_facts(1) demo_gsup_bytes demo_gsup_facts(2) free step run this
      demo_result_facts(1,2) tid demo_result_bytes(1) demo_result_facts(4,5) demo_answer_facts(1), of 9] step run
  show ?thesis by blast
qed

text \<open>
  C8: The round trip of an SGSN request that the HLR refuses.  The request is forwarded under a
  transaction ID that is not in use, as it is after fewer than \<open>2^32 - 1\<close> messages from SGSNs.  Under the
  conditions of the previous theorem on what happens in between, a ReturnError for it, which names no operation on the wire, makes the proxy send client \<open>ctx\<close> exactly one
  message: the GSUP error that belongs to the type of its request, with its IMSI and the MAP error
  code as the cause (34, system failure, when the HLR gave none).
\<close>

theorem sgsn_error_round_trip:
  assumes start: "proxy_run (proxy_new limit) tr0 p0"
    and req: "gsup_wf g" "gsup_encode g = Inr req_bytes" "(g_type g, op) \<in> set sgsn_requests"
    and free: "find_tx (txMgr p0) (next_tid (txMgr p0)) = None \<or> length (filter is_sgsn tr0) < 2 ^ 32 - 1"
    and step: "proxy_event now (SgsnMessage req_bytes ctx) p0 = Inr (acts, p1)"
    and run: "proxy_run p1 tr p2" "\<forall>l \<in> set tr. spares (next_tid (txMgr p0)) (timeout (txMgr p0)) now l"
      "length (filter is_sgsn tr) < 2 ^ 32 - 2"
    and answer: "m_component r = ReturnError" "m_transactionId r = next_tid (txMgr p0)"
      "map_encode r = Inr bs'" "list_all isDigit (m_imsi r)"
  shows "\<exists>data err p3. proxy_event now' (HlrMessage bs') p2 = Inr ([SendSgsn data ctx], p3) \<and>
      expectedGsupError (g_type g) = Inr err \<and>
      gsup_decode data = Inr (gsup_error err (g_imsi g) (Some (value_or (m_errorCode r) 34))) \<and>
      find_tx (txMgr p3) (next_tid (txMgr p0)) = None \<and> pendingOps p3 (next_tid (txMgr p0)) = None"
proof -
  let ?tid = "next_tid (txMgr p0)" and ?t = "next_entry (g_imsi g, ctx, now) (txMgr p0)"
  note pend = request_pending [OF start req free step run]
  have t: "tx_imsi ?t = g_imsi g" "clientContext ?t = ctx" by (simp_all add: next_entry_def)
  have imsi: "list_all isDigit (tx_imsi ?t)" "length (tx_imsi ?t) \<le> 15" using req(1) t by (simp_all add: gsup_wf_def)
  obtain data err where "handleMapPayload now' bs' p2 = Inr ([SendSgsn data (clientContext ?t)], drop_tx ?tid p2)"
    "expectedGsupError (g_type g) = Inr err"
    "gsup_decode data = Inr (gsup_error err (g_imsi g) (Some (value_or (m_errorCode r) 34)))"
    using answer_error [OF pend(3) req(3) answer imsi, of now'] t by auto
  moreover have "find_tx (txMgr (drop_tx ?tid p2)) ?tid = None" "pendingOps (drop_tx ?tid p2) ?tid = None"
    using tx.find_remove [of "txMgr p2" ?tid ?tid] by (simp_all add: drop_tx_def)
  ultimately show ?thesis using t(2) by (auto simp: proxy_event_def)
qed

theorem sgsn_error_round_trip_witness:
  "\<exists>acts p1 data err p3. proxy_event 0 (SgsnMessage demo_request 7) (proxy_new 30) = Inr (acts, p1) \<and>
     proxy_event 9 (HlrMessage (map_pdu demo_refusal)) p1 = Inr ([SendSgsn data 7], p3) \<and>
     gsup_decode data = Inr (gsup_error err ''123'' (Some 1))"
proof -
  obtain acts p1 where step: "proxy_event 0 (SgsnMessage demo_request 7) (proxy_new 30) = Inr (acts, p1)"
    and run: "proxy_run p1 [(5, SgsnMessage [] 9, [])] p1" using demo_interlude by blast
  have tid: "m_transactionId demo_refusal = next_tid (txMgr (proxy_new 30))" by (simp add: demo_refusal_facts demo_proxy_facts)
  have free: "find_tx (txMgr (proxy_new 30)) (next_tid (txMgr (proxy_new 30))) = None \<or> length (filter is_sgsn []) < 2 ^ 32 - 1"
    by simp
  have "\<forall>l \<in> set [(5, SgsnMessage [] 9, [])]. spares (next_tid (txMgr (proxy_new 30))) (timeout (txMgr (proxy_new 30))) 0 l"
    "length (filter is_sgsn [(5, SgsnMessage [] 9, [])]) < 2 ^ 32 - 2"
    by (simp_all add: spares_def is_sgsn_def)
  from sgsn_error_round_trip [OF run_nil demo_gsup_facts(1) demo_gsup_bytes demo_gsup_facts(2) free step run this
      demo_refusal_facts(1) tid demo_refusal_bytes demo_refusal_facts(3), of 9] step
  show ?thesis unfolding demo_gsup_facts(3) demo_refusal_facts(4) by blast
qed

section \<open>A request of the HLR and its answer\<close>

text \<open>
  C9: The round trip of an HLR request.  A MAP Invoke of InsertSubscriberData, CancelLocation,
  DeleteSubscriberData or PurgeMS for an IMSI of up to 15 digits is broadcast to the SGSNs as the
  GSUP request of that operation.  If the entry for the IMSI is still in the table, the GSUP result
  (or error) of an SGSN makes the proxy send the HLR exactly one message, the ReturnResult of that
  operation (or the ReturnError with the cause as its code) with the transaction ID and the invoke
  ID of the Invoke; the entry is removed, and a second answer sends nothing.
\<close>

theorem hlr_round_trip:
  assumes m: "m_component m = Invoke" "(t, m_operation m, res, err) \<in> set hlr_requests" "map_encode m = Inr bs"
      "list_all isDigit (m_imsi m)" "length (m_imsi m) \<le> 15" "fits (m_msisdn m)"
    and request: "handleMapPayload now bs p = Inr (acts, p1)"
    and kept: "hlrTx p2 (m_imsi m) = hlrTx p1 (m_imsi m)"
    and a: "gsup_wf a" "gsup_encode a = Inr ans_bytes" "g_imsi a = m_imsi m" "g_type a \<in> {res, err}"
  shows "(\<exists>data g. acts = [SendSgsn data 0] \<and> gsup_decode data = Inr g \<and> g_type g = t \<and> g_imsi g = m_imsi m) \<and>
    (\<exists>bs' r p3. handleGsupPayload now' ans_bytes ctx p2 = Inr ([SendHlr bs'], p3) \<and> map_decode bs' = Inr r \<and>
      m_transactionId r = m_transactionId m \<and> m_invokeId r = m_invokeId m \<and>
      (g_type a = res \<longrightarrow> m_component r = ReturnResult \<and> m_operation r = m_operation m) \<and>
      (g_type a = err \<longrightarrow> m_component r = ReturnError \<and> m_errorCode r = Some (value_or (g_cause a) 34)) \<and>
      handleGsupPayload now'' ans_bytes ctx p3 = Inr ([], p3))"
proof -
  let ?e = "\<lparr>h_mapTransactionId = m_transactionId m, h_mapInvokeId = m_invokeId m,
    h_mapOperation = m_operation m, h_createdAt = now\<rparr>"
  obtain data g where f: "acts = [SendSgsn data 0]" "gsup_decode data = Inr g" "g_type g = t" "g_imsi g = m_imsi m"
    "hlrTx p1 (m_imsi m) = Some ?e"
    using hlr_request_forwarded [OF m, of now p] request by auto
  have hlr: "isHlrInitiatedGsupType (g_type a)"
    using m(2) a(4) by (auto simp: hlr_requests_def isHlrInitiatedGsupType_def)
  let ?p3 = "p2\<lparr>hlrTx := (hlrTx p2)(g_imsi a := None)\<rparr>"
  obtain bs' r where r: "handleGsupPayload now' ans_bytes ctx p2 = Inr ([SendHlr bs'], ?p3)"
    "gsupToMapResult a (m_transactionId m) (m_invokeId m) = Inr r" "map_decode bs' = Inr (map_view r)"
    using hlr_answer_forwarded [OF a(1,2) hlr, of p2 ?e now' ctx] kept f(5) a(3) by auto
  have "handleGsupPayload now'' ans_bytes ctx ?p3 = Inr ([], ?p3)"
    using hlr gsup_roundtrip [OF a(1)] a(2) by (simp add: handleGsupPayload_eq handleGsupHlrResponse_eq)
  moreover note hlr_answer_view [OF m(2) r(2)]
  ultimately show ?thesis using f r(1,3) by blast
qed

theorem hlr_round_trip_witness:
  "\<exists>acts p1 bs' r p3. handleMapPayload 0 (map_pdu demo_cancel) (proxy_new 30) = Inr (acts, p1) \<and>
     handleGsupPayload 4 [0x1e, 0x01, 0x02, 0x21, 0xF3] 7 p1 = Inr ([SendHlr bs'], p3) \<and> map_decode bs' = Inr r \<and>
     m_transactionId r = 0x55 \<and> m_invokeId r = 3 \<and> m_component r = ReturnResult \<and> m_operation r = CancelLocation"
proof -
  obtain acts p1 where ev: "handleMapPayload 0 (map_pdu demo_cancel) (proxy_new 30) = Inr (acts, p1)"
    using proxy_event_returns [of 0 "HlrMessage (map_pdu demo_cancel)" "proxy_new 30"] by (auto simp: proxy_event_def)
  from hlr_round_trip [OF demo_cancel_facts(1,8) demo_cancel_bytes(1) demo_cancel_facts(3-5) ev refl demo_cancelled_facts(1)
      demo_cancel_bytes(3) demo_cancelled_facts(2,4), of 4 7] ev demo_cancelled_facts(3) demo_cancel_facts(2,6,7)
  show ?thesis by metis
qed

text \<open>
  The operation recorded for an HLR request is never compared with the answer.  While an entry
  for an IMSI is in the table, any HLR-initiated GSUP answer for that IMSI, of whatever operation,
  is sent to the HLR under the transaction and invoke IDs of the entry.
\<close>

lemma hlr_answer_unchecked:
  assumes "gsup_wf a" and "gsup_encode a = Inr ans_bytes" and "isHlrInitiatedGsupType (g_type a)"
    and "hlrTx p (g_imsi a) = Some e"
  shows "\<exists>bs r p'. handleGsupPayload now ans_bytes ctx p = Inr ([SendHlr bs], p') \<and> map_decode bs = Inr r \<and>
    m_transactionId r = h_mapTransactionId e \<and> m_invokeId r = h_mapInvokeId e \<and> hlrTx p' (g_imsi a) = None"
proof -
  obtain bs r where r: "handleGsupPayload now ans_bytes ctx p = Inr ([SendHlr bs], p\<lparr>hlrTx := (hlrTx p)(g_imsi a := None)\<rparr>)"
    "gsupToMapResult a (h_mapTransactionId e) (h_mapInvokeId e) = Inr r" "map_decode bs = Inr (map_view r)"
    using hlr_answer_forwarded [OF assms] by blast
  then show ?thesis
    using gsupToMapResult_envelope [OF r(2)] by (auto simp: map_view_def split: ComponentType.split)
qed

section \<open>From wire to wire\<close>

text \<open>
  C1: The whole program, from octets to octets.  A session of client \<open>i\<close> is ready, its decoder and that
  of the transport stand at the start of a frame, the transport is active with global titles of at most
  100 decimal digits, nothing is posted and the transaction ID that comes next is free; the request
  and the answer fit into an IPA frame, the MSISDN of the request has at most 100 octets.  When the octets of an IPA frame with a well-formed GSUP request
  arrive, the event loop runs two handlers, after which the transport has queued exactly one more
  frame: the gateway decodes it, through M3UA, SCCP, TCAP and MAP, to the Invoke of the operation that
  belongs to the request, with its IMSI.  When the gateway answers with the octets of an M3UA message
  that carries the ReturnResult of that transaction, three more handlers run, after which the session
  the request came from has queued exactly one more frame, which the SGSN decodes to the GSUP result
  of the request's type and IMSI with the contents of the MAP result; and the transaction is closed.
\<close>

theorem wire_round_trip:
  assumes sgsn: "at_frame ref (sys_server sys)" "i = fst (srv_heap (sys_server sys) ! ref)" "i \<noteq> 0"
      "srv_sessions (sys_server sys) i = Some ref"
    and req: "gsup_wf g" "gsup_encode g = Inr pl" "(g_type g, op) \<in> set sgsn_requests" "length pl \<le> 4095"
      "\<And>x. g_msisdn g = Some x \<Longrightarrow> length x \<le> 100" "ipa_encode kStreamGsup pl = Inr octets"
    and free: "find_tx (txMgr (sys_proxy sys)) (next_tid (txMgr (sys_proxy sys))) = None"
    and hlr: "mt_state (sys_transport sys) = Active" "sends_digits (mt_cfg (sys_transport sys))"
      "m3ua_buf (mt_decoder (sys_transport sys)) = []" and idle: "sys_tasks sys = []"
    and answer: "m_component r = ReturnResult" "m_operation r = op" "m_transactionId r = next_tid (txMgr (sys_proxy sys))"
      "map_encode r = Inr bs'" "list_all isDigit (m_imsi r)" "mapToGsup (r\<lparr>m_imsi := g_imsi g\<rparr>) = Inr a" "gsup_wf a"
      "gsup_encode a = Inr data" "length data \<le> 4095"
    and wire: "length (m3ua_encode m) \<le> 65536" "sccp_of m = Some raw" "decodeUdt raw = Inr u" "u_data u = bs'"
  shows "\<exists>sys1 f bs q sys2 w.
    system_run [(now1, ServerIo (SessionRead ref False octets)), (now2, RunTask ss os)] sys = Inr sys1 \<and>
    mt_writeQueue (sys_transport sys1) = mt_writeQueue (sys_transport sys) @ [f] \<and> gateway_gets f bs \<and> map_decode bs = Inr q \<and>
    m_component q = Invoke \<and> m_operation q = op \<and> m_imsi q = g_imsi g \<and> m_transactionId q = m_transactionId r \<and>
    system_run [(now3, TransportIo (MtReadCompletes False (m3ua_encode m)) os), (now4, RunTask ss os), (now5, RunTask ss os)] sys1 = Inr sys2 \<and>
    ss_writeQueue (srv_session ref (sys_server sys2)) = ss_writeQueue (srv_session ref (sys_server sys)) @ [w] \<and>
    sgsn_gets w data \<and> gsup_decode data = Inr a \<and> expectedGsupResult (g_type g) = Inr (g_type a) \<and> g_imsi a = g_imsi g \<and>
    find_tx (txMgr (sys_proxy sys2)) (m_transactionId r) = None"
proof -
  let ?tm = "txMgr (sys_proxy sys)" and ?t = "next_entry (g_imsi g, i, now1) (txMgr (sys_proxy sys))"
  have octets: "octets = ipa_wire (gsup_frame pl)" using req(4,6) by (simp add: ipa_encode_wire gsup_frame_def)
  obtain sys1 f bs q where one: "system_run [(now1, ServerIo (SessionRead ref False octets)), (now2, RunTask ss os)] sys = Inr sys1"
    "mt_writeQueue (sys_transport sys1) = mt_writeQueue (sys_transport sys) @ [f]" "gateway_gets f bs" "map_decode bs = Inr q"
    "m_component q = Invoke" "m_operation q = op" "m_imsi q = g_imsi g" "m_transactionId q = next_tid ?tm"
    and st: "sys_tasks sys1 = []" "sys_server sys1 = sys_server sys" "mt_state (sys_transport sys1) = Active"
    "mt_decoder (sys_transport sys1) = mt_decoder (sys_transport sys)" "pending (sys_proxy sys1) (next_tid ?tm) ?t op"
    unfolding octets using request_to_gateway [OF sgsn(1,2) req(1-5) free hlr(1,2) idle, of now1 now2 ss os] by blast
  have op: "op \<in> snd ` set sgsn_requests" using req(3) by force
  have t: "clientContext ?t = i" "tx_imsi ?t = g_imsi g" by (simp_all add: next_entry_def)
  have live: "srv_sessions (sys_server sys1) i = Some ref" "ref < length (srv_heap (sys_server sys1))"
    "ss_state (srv_session ref (sys_server sys1)) = Ready" "m3ua_buf (mt_decoder (sys_transport sys1)) = []"
    using sgsn(1,4) st(2,4) hlr(3) by (simp_all add: at_frame_def)
  have res: "mapToGsup (r\<lparr>m_imsi := tx_imsi ?t\<rparr>) = Inr a" using answer(6) t(2) by simp
  have good: "mu_good m" using wire(1) by (simp add: mu_good_def)
  obtain sys2 w where two: "system_run [(now3, TransportIo (MtReadCompletes False (m3ua_encode m)) os), (now4, RunTask ss os), (now5, RunTask ss os)] sys1 =
      Inr sys2" "ss_writeQueue (srv_session ref (sys_server sys2)) = ss_writeQueue (srv_session ref (sys_server sys)) @ [w]"
    "sgsn_gets w data" "gsup_decode data = Inr a" "find_tx (txMgr (sys_proxy sys2)) (next_tid ?tm) = None"
    using answer_to_sgsn [OF st(5) op t(1) answer(1-5) res answer(7) good wire(2-4) st(3) live(4) st(1) sgsn(3) live(1-3) answer(8,9),
        of now3 os now4 ss now5] st(2) by auto
  have "expectedGsupResult (g_type g) = Inr (g_type a)" "g_imsi a = g_imsi g"
    using answer_types(2) [OF req(3), of "r\<lparr>m_imsi := g_imsi g\<rparr>"] answer(1,2,6) mapToGsup_imsi by auto
  then show ?thesis using one two unfolding answer(3) by blast
qed

text \<open>
  The witness: the server with one ready session, an active transport and a fresh proxy; the request
  of the other witnesses and an answer with one triplet.
\<close>

definition demo_system :: System where
  "demo_system = \<lparr>sys_proxy = proxy_new 30, sys_server = demo_server, sys_transport = (mt_new demo_cfg)\<lparr>mt_state := Active\<rparr>,
     sys_tasks = []\<rparr>"

lemma demo_octets:
  "ipa_encode kStreamGsup demo_request = Inr [0, 6, 0xEE, 0x08, 0x01, 0x02, 0x21, 0xF3]"
  "ipa_encode kStreamGsup [0x1e, 0x01, 0x02, 0x21, 0xF3] = Inr [0, 6, 0xEE, 0x1e, 0x01, 0x02, 0x21, 0xF3]"
  by (simp_all add: ipa_encode_def demo_request_def kStreamGsup_def Let_def)

lemma demo_system_facts:
  "at_frame 0 (sys_server demo_system)" "fst (srv_heap (sys_server demo_system) ! 0) = 1"
  "srv_sessions (sys_server demo_system) 1 = Some 0" "sys_proxy demo_system = proxy_new 30"
  "mt_state (sys_transport demo_system) = Active" "mt_cfg (sys_transport demo_system) = demo_cfg"
  "m3ua_buf (mt_decoder (sys_transport demo_system)) = []" "sys_tasks demo_system = []"
  by (simp_all add: demo_system_def demo_server_def at_frame_def srv_session_def ipa_new_def mt_new_def m3ua_new_def)

lemma demo_wire:
  assumes "length pl \<le> 255"
  shows "length (m3ua_encode (data_for demo_cfg pl)) \<le> 65536" "sccp_of (data_for demo_cfg pl) = Some (encodeUdt (udt_for demo_cfg pl))"
    "decodeUdt (encodeUdt (udt_for demo_cfg pl)) = Inr (udt_for demo_cfg pl)" "u_data (udt_for demo_cfg pl) = pl"
  using data_for_good [OF demo_facts(1) assms] udt_for_decodes [OF demo_facts(1) assms]
  by (simp_all add: mu_good_def sccp_of_def mu_is_def data_for_def makeData_def udt_for_def)

theorem wire_round_trip_witness:
  "\<exists>sys1 sys2 w. system_run [(0, ServerIo (SessionRead 0 False [0, 6, 0xEE, 0x08, 0x01, 0x02, 0x21, 0xF3])), (0, RunTask [] [])]
       demo_system = Inr sys1 \<and>
     system_run [(1, TransportIo (MtReadCompletes False (m3ua_encode (data_for demo_cfg (map_pdu demo_result)))) []),
       (1, RunTask [] []), (1, RunTask [] [])] sys1 = Inr sys2 \<and>
     ss_writeQueue (srv_session 0 (sys_server sys2)) = ss_writeQueue (srv_session 0 demo_server) @ [w] \<and>
     sgsn_gets w demo_answer_bytes"
proof -
  let ?pl = "map_pdu demo_result"
  let ?m = "data_for demo_cfg ?pl" and ?u = "udt_for demo_cfg ?pl"
  note wire = demo_wire [OF demo_result_bytes(2)]
  have px: "find_tx (txMgr (sys_proxy demo_system)) (next_tid (txMgr (sys_proxy demo_system))) = None"
    "m_transactionId demo_result = next_tid (txMgr (sys_proxy demo_system))"
    by (simp_all add: demo_system_facts(4) demo_result_facts demo_proxy_facts)
  show ?thesis
    using wire_round_trip [where ref = 0 and sys = demo_system and i = 1 and g = demo_gsup and pl = demo_request and ?now1.0 = 0 and ?now2.0 = 0
        and ?now3.0 = 1 and ?now4.0 = 1 and ?now5.0 = 1 and ss = "[]" and os = "[]", OF demo_system_facts(1) _ _ demo_system_facts(3)
        demo_gsup_facts(1) demo_gsup_bytes demo_gsup_facts(2) _ _ demo_octets(1) px(1) demo_system_facts(5) _ demo_system_facts(7,8)
        demo_result_facts(1,2) px(2) demo_result_bytes(1) demo_result_facts(4,5) demo_answer_facts wire]
      demo_system_facts(2,6) demo_facts(1) demo_gsup_facts(4,5)
    by (simp add: demo_system_def) blast
qed

text \<open>
  C2: An HLR request from octets to octets.  The transport is active with global titles of at most 100
  decimal digits, its decoder and that of the answering session stand at the start of a frame, nothing is
  posted and the maps of the server are consistent.  When the octets of an M3UA message with the MAP
  Invoke of an operation the HLR can start, for an IMSI of up to 15 digits, arrive, the event loop runs the read handler and the functions posted by it, after
  which the queue of every registered and ready session has grown by exactly one frame, the same for
  all, which an SGSN decodes to the GSUP request of that operation and IMSI; no other queue has
  changed.  When the octets of the GSUP result or error of any SGSN for that IMSI arrive, two more
  handlers run, after which the transport has queued exactly one more frame: the gateway decodes it
  to the ReturnResult of the operation, or the ReturnError with the cause, under the transaction and
  invoke IDs of the Invoke; and the request is closed.
\<close>

theorem wire_hlr_round_trip:
  assumes server: "server_inv (sys_server sys)" "distinct order" "set order = dom (srv_sessions (sys_server sys))"
    and hlr: "mt_state (sys_transport sys) = Active" "sends_digits (mt_cfg (sys_transport sys))"
      "m3ua_buf (mt_decoder (sys_transport sys)) = []" and idle: "sys_tasks sys = []"
    and m: "m_component m = Invoke" "(t, m_operation m, res, err) \<in> set hlr_requests" "map_encode m = Inr bs"
      "list_all isDigit (m_imsi m)" "length (m_imsi m) \<le> 15" "fits (m_msisdn m)"
    and wire: "length (m3ua_encode q) \<le> 65536" "sccp_of q = Some raw" "decodeUdt raw = Inr u" "u_data u = bs"
    and nows: "length nows = 1 + length (receivers 0 order (sys_server sys))"
    and sgsn: "at_frame ref (sys_server sys)"
    and a: "gsup_wf a" "gsup_encode a = Inr pl" "g_imsi a = m_imsi m" "g_type a \<in> {res, err}" "length pl \<le> 4095"
      "ipa_encode kStreamGsup pl = Inr octets"
  shows "\<exists>sys1 w data g sys2 f bs' r.
    system_run ((now1, TransportIo (MtReadCompletes False (m3ua_encode q)) os) # map (\<lambda>n. (n, RunTask order os)) nows) sys = Inr sys1 \<and>
    sgsn_gets w data \<and> gsup_decode data = Inr g \<and> g_type g = t \<and> g_imsi g = m_imsi m \<and>
    (\<forall>k < length (srv_heap (sys_server sys)). ss_writeQueue (srv_session k (sys_server sys1)) =
       ss_writeQueue (srv_session k (sys_server sys)) @
       (if ss_state (srv_session k (sys_server sys)) = Ready \<and> (\<exists>i. srv_sessions (sys_server sys) i = Some k) then [w] else [])) \<and>
    system_run [(now2, ServerIo (SessionRead ref False octets)), (now3, RunTask order os)] sys1 = Inr sys2 \<and>
    mt_writeQueue (sys_transport sys2) = mt_writeQueue (sys_transport sys) @ [f] \<and> gateway_gets f bs' \<and> map_decode bs' = Inr r \<and>
    m_transactionId r = m_transactionId m \<and> m_invokeId r = m_invokeId m \<and>
    (g_type a = res \<longrightarrow> m_component r = ReturnResult \<and> m_operation r = m_operation m) \<and>
    (g_type a = err \<longrightarrow> m_component r = ReturnError \<and> m_errorCode r = Some (value_or (g_cause a) 34)) \<and>
    hlrTx (sys_proxy sys2) (m_imsi m) = None"
proof -
  let ?e = "\<lparr>h_mapTransactionId = m_transactionId m, h_mapInvokeId = m_invokeId m,
    h_mapOperation = m_operation m, h_createdAt = now1\<rparr>" and ?sv = "sys_server sys"
  have good: "mu_good q" using wire(1) by (simp add: mu_good_def)
  obtain sv' data g where one: "system_run ((now1, TransportIo (MtReadCompletes False (m3ua_encode q)) os) # map (\<lambda>n. (n, RunTask order os)) nows) sys =
      Inr (sys\<lparr>sys_proxy := (sys_proxy sys)\<lparr>hlrTx := (hlrTx (sys_proxy sys))(m_imsi m \<mapsto> ?e)\<rparr>, sys_tasks := [], sys_server := sv'\<rparr>)"
      (is "_ = Inr ?sys1")
    "enqueued (deliveries order ?sv [(data, 0)]) ?sv sv'" "sgsn_gets (ipa_wire (gsup_frame data)) data" "gsup_decode data = Inr g"
    "g_type g = t" "g_imsi g = m_imsi m"
    using hlr_request_delivered [OF server hlr(1,3) idle m good wire(2-4) nows] by blast
  have queues: "\<forall>k < length (srv_heap ?sv). ss_writeQueue (srv_session k sv') = ss_writeQueue (srv_session k ?sv) @
      (if ss_state (srv_session k ?sv) = Ready \<and> (\<exists>i. srv_sessions ?sv i = Some k) then [ipa_wire (gsup_frame data)] else [])"
    using one(2) unfolding enqueued_def broadcast_frames [OF server] by blast
  have octets: "octets = ipa_wire (gsup_frame pl)" using a(5,6) by (simp add: ipa_encode_wire gsup_frame_def)
  have at: "at_frame ref (sys_server ?sys1)" using sgsn one(2) enqueued_length [OF one(2)] by (simp add: at_frame_def enqueued_def)
  have type: "isHlrInitiatedGsupType (g_type a)" using m(2) a(4) by (auto simp: hlr_requests_def isHlrInitiatedGsupType_def)
  have entry: "hlrTx (sys_proxy ?sys1) (g_imsi a) = Some ?e" using a(3) by simp
  obtain sys2 f bs' r where two: "system_run [(now2, ServerIo (SessionRead ref False octets)), (now3, RunTask order os)] ?sys1 = Inr sys2"
    "mt_writeQueue (sys_transport sys2) = mt_writeQueue (sys_transport sys) @ [f]" "gateway_gets f bs'"
    "gsupToMapResult a (m_transactionId m) (m_invokeId m) = Inr r" "map_decode bs' = Inr (map_view r)" "hlrTx (sys_proxy sys2) (m_imsi m) = None"
    using hlr_answer_sent [OF at entry _ _ _ a(1,2) type a(5), of now2 now3 order os] hlr(1,2) a(3) unfolding octets by auto
  note view = hlr_answer_view [OF m(2) two(4)]
  show ?thesis
    using one(1,3-6) queues two(1-3,5,6) view
    by (intro exI [of _ ?sys1] exI [of _ "ipa_wire (gsup_frame data)"] exI [of _ data] exI [of _ g] exI [of _ sys2] exI [of _ f]
        exI [of _ bs'] exI [of _ "map_view r"]) (simp del: system_run.simps)
qed

text \<open>The witness: the HLR cancels the location of IMSI 123, and the one SGSN confirms it.\<close>

lemma demo_server_facts:
  "server_inv demo_server" "dom (srv_sessions demo_server) = {1}" "receivers 0 [1] demo_server = [0]"
proof -
  show "server_inv demo_server"
    by (rule server_invI) (auto simp: demo_server_def ids_ok_def srv_session_def split: if_splits)
  show "dom (srv_sessions demo_server) = {1}" "receivers 0 [1] demo_server = [0]"
    by (auto simp: demo_server_def receivers_def List.map_filter_simps ss_isReady_def srv_session_def)
qed

theorem wire_hlr_round_trip_witness:
  "\<exists>sys1 w data sys2 f bs r.
     system_run ((0, TransportIo (MtReadCompletes False (m3ua_encode (data_for demo_cfg (map_pdu demo_cancel)))) []) #
       map (\<lambda>n. (n, RunTask [1] [])) [1, 2]) demo_system = Inr sys1 \<and>
     sgsn_gets w data \<and> ss_writeQueue (srv_session 0 (sys_server sys1)) = ss_writeQueue (srv_session 0 demo_server) @ [w] \<and>
     system_run [(3, ServerIo (SessionRead 0 False [0, 6, 0xEE, 0x1e, 0x01, 0x02, 0x21, 0xF3])), (4, RunTask [1] [])] sys1 = Inr sys2 \<and>
     mt_writeQueue (sys_transport sys2) = mt_writeQueue (sys_transport demo_system) @ [f] \<and> gateway_gets f bs \<and> map_decode bs = Inr r \<and>
     m_transactionId r = 0x55 \<and> m_invokeId r = 3 \<and> m_component r = ReturnResult"
proof -
  let ?m = "data_for demo_cfg (map_pdu demo_cancel)" and ?u = "udt_for demo_cfg (map_pdu demo_cancel)"
  note wire = demo_wire [OF demo_cancel_bytes(2)]
  have sv: "sys_server demo_system = demo_server" by (simp add: demo_system_def)
  have server: "server_inv (sys_server demo_system)" "set [1] = dom (srv_sessions (sys_server demo_system))"
    "length [1, 2::int] = 1 + length (receivers 0 [1] (sys_server demo_system))" "0 < length (srv_heap (sys_server demo_system))"
    using demo_server_facts by (simp_all add: sv) (simp add: demo_server_def)
  have reg: "ss_state (srv_session 0 demo_server) = Ready \<and> (\<exists>i. srv_sessions demo_server i = Some 0)"
    using demo_system_facts(1,3) by (auto simp: sv at_frame_def)
  have rest: "distinct [1 :: client_id]" "sends_digits (mt_cfg (sys_transport demo_system))" "length [0x1e, 0x01, 0x02, 0x21, 0xF3 :: byte] \<le> 4095"
    using demo_system_facts(6) demo_facts(1) by simp_all
  from wire_hlr_round_trip [where ?now1.0 = 0 and ?now2.0 = 3 and ?now3.0 = 4 and os = "[]", OF server(1) rest(1) server(2)
      demo_system_facts(5) rest(2) demo_system_facts(7,8) demo_cancel_facts(1,8) demo_cancel_bytes(1) demo_cancel_facts(3-5) wire
      server(3) demo_system_facts(1) demo_cancelled_facts(1) demo_cancel_bytes(3) demo_cancelled_facts(2,4) rest(3) demo_octets(2)]
  obtain sys1 w data g sys2 f bs r where r:
    "system_run ((0, TransportIo (MtReadCompletes False (m3ua_encode ?m)) []) # map (\<lambda>n. (n, RunTask [1] [])) [1, 2]) demo_system = Inr sys1"
    "sgsn_gets w data"
    "\<forall>k < length (srv_heap (sys_server demo_system)). ss_writeQueue (srv_session k (sys_server sys1)) =
       ss_writeQueue (srv_session k (sys_server demo_system)) @ (if ss_state (srv_session k (sys_server demo_system)) = Ready \<and>
         (\<exists>i. srv_sessions (sys_server demo_system) i = Some k) then [w] else [])"
    "system_run [(3, ServerIo (SessionRead 0 False [0, 6, 0xEE, 0x1e, 0x01, 0x02, 0x21, 0xF3])), (4, RunTask [1] [])] sys1 = Inr sys2"
    "mt_writeQueue (sys_transport sys2) = mt_writeQueue (sys_transport demo_system) @ [f]" "gateway_gets f bs" "map_decode bs = Inr r"
    "m_transactionId r = m_transactionId demo_cancel" "m_invokeId r = m_invokeId demo_cancel"
    "g_type demo_cancelled = LocationCancelResult \<longrightarrow> m_component r = ReturnResult \<and> m_operation r = m_operation demo_cancel"
    by (elim exE conjE)
  have "ss_writeQueue (srv_session 0 (sys_server sys1)) = ss_writeQueue (srv_session 0 demo_server) @ [w]"
    using r(3) server(4) reg unfolding sv by simp
  then show ?thesis using r(1,2,4-10) demo_cancel_facts(6,7) demo_cancelled_facts(3) by (intro exI conjI) (assumption | simp)+
qed

end
